(* ===== verification/Go_Prelude.thy ===== *)
theory Go_Prelude
  imports Complex_Main "HOL-Library.Word" "HOL-Library.Char_ord" "HOL-Library.List_Lexorder"
    "HOL-Library.Sublist" "HOL-Library.AList"
begin

text \<open>
  The fragment of Go's language and standard library that the modelled packages use, and the
  lemmas their proofs share.

  \<^item> Go strings are byte sequences, here \<^typ>\<open>string\<close> (each \<^typ>\<open>char\<close> is one byte).
    \<open>trim_space\<close> is \<open>strings.TrimSpace\<close> on UTF-8 text, all of Unicode's white space included;
    \<open>to_lower\<close> is \<open>strings.ToLower\<close>, whose Unicode tables (the non-ASCII path) are an argument;
    \<open>str_contains\<close> is \<open>strings.Contains\<close>; \<open>format_int\<close> is decimal formatting.
  \<^item> \<open>gotime\<close> is \<open>time.Time\<close>: nanoseconds since Go's zero time and a location; durations are
    \<^typ>\<open>int\<close> nanoseconds, and \<open>sub_time\<close> saturates as \<open>Time.Sub\<close> does.
  \<^item> \<open>go_float\<close> is the value of a \<open>float32\<close> or \<open>float64\<close>; \<open>float64_of_int\<close> rounds to 53 bits,
    ties to even.
  \<^item> SHA-256 is an argument of type \<^typ>\<open>string \<Rightarrow> 256 word\<close>, whose type says that the digest has
    32 bytes; \<open>hex_digest\<close> is \<open>hex.EncodeToString\<close> of it.
  \<^item> Go maps with iteration (\<open>map[string]any\<close>) are association lists with distinct keys in the
    order the runtime visits them, \<^const>\<open>None\<close> for the nil map.
\<close>

section \<open>Collections of facts\<close>

named_theorems trim_simps \<open>how white-space trimming acts\<close>
named_theorems time_simps \<open>definitions of the time operations\<close>

section \<open>Machine integers\<close>

type_synonym i32 = "32 word"
type_synonym i64 = "64 word"

text \<open>Signed comparison of two's complement words.\<close>

definition slt :: "'a::len word \<Rightarrow> 'a word \<Rightarrow> bool" where
  "slt a b \<longleftrightarrow> sint a < sint b"

definition sge :: "'a::len word \<Rightarrow> 'a word \<Rightarrow> bool" where
  "sge a b \<longleftrightarrow> sint b \<le> sint a"

section \<open>Strings\<close>

subsection \<open>Trimming white space\<close>

text \<open>
  The UTF-8 encodings of the code points for which \<open>unicode.IsSpace\<close> holds: tab, line feed,
  vertical tab, form feed, carriage return, space, U+0085, U+00A0, U+1680, U+2000 to U+200A,
  U+2028, U+2029, U+202F, U+205F and U+3000.
\<close>

definition space_runes :: "string list" where
  "space_runes =
     [[CHR 0x20], [CHR 0x09], [CHR 0x0A], [CHR 0x0B], [CHR 0x0C], [CHR 0x0D],
      [CHR 0xC2, CHR 0x85], [CHR 0xC2, CHR 0xA0], [CHR 0xE1, CHR 0x9A, CHR 0x80],
      [CHR 0xE2, CHR 0x80, CHR 0x80], [CHR 0xE2, CHR 0x80, CHR 0x81],
      [CHR 0xE2, CHR 0x80, CHR 0x82], [CHR 0xE2, CHR 0x80, CHR 0x83],
      [CHR 0xE2, CHR 0x80, CHR 0x84], [CHR 0xE2, CHR 0x80, CHR 0x85],
      [CHR 0xE2, CHR 0x80, CHR 0x86], [CHR 0xE2, CHR 0x80, CHR 0x87],
      [CHR 0xE2, CHR 0x80, CHR 0x88], [CHR 0xE2, CHR 0x80, CHR 0x89],
      [CHR 0xE2, CHR 0x80, CHR 0x8A], [CHR 0xE2, CHR 0x80, CHR 0xA8],
      [CHR 0xE2, CHR 0x80, CHR 0xA9], [CHR 0xE2, CHR 0x80, CHR 0xAF],
      [CHR 0xE2, CHR 0x81, CHR 0x9F], [CHR 0xE3, CHR 0x80, CHR 0x80]]"

text \<open>The first encoding in \<open>encs\<close> that \<open>s\<close> starts with.\<close>

definition front_match :: "string list \<Rightarrow> string \<Rightarrow> string option" where
  "front_match encs s = find (\<lambda>e. e \<noteq> [] \<and> prefix e s) encs"

lemma front_match_SomeD: "front_match encs s = Some e \<Longrightarrow> e \<in> set encs \<and> e \<noteq> [] \<and> prefix e s"
  by (auto simp: front_match_def find_Some_iff)

lemma front_match_None_iff:
  "front_match encs s = None \<longleftrightarrow> (\<forall>e \<in> set encs. e \<noteq> [] \<longrightarrow> \<not> prefix e s)"
  by (auto simp: front_match_def find_None_iff)

text \<open>Drop encodings from the front as long as there is one.\<close>

function strip_front :: "string list \<Rightarrow> string \<Rightarrow> string" where
  "strip_front encs s =
     (case front_match encs s of None \<Rightarrow> s | Some e \<Rightarrow> strip_front encs (drop (length e) s))"
  by pat_completeness auto
termination
proof (relation "measure (\<lambda>(encs, s). length s)")
  fix encs s e
  assume "front_match encs s = Some e"
  then have "e \<noteq> []" and "prefix e s"
    by (auto dest: front_match_SomeD)
  then show "((encs, drop (length e) s), (encs, s)) \<in> measure (\<lambda>(encs, s). length s)"
    by (cases s) (auto simp: prefix_def)
qed simp

declare strip_front.simps [simp del]

definition trim_left :: "string \<Rightarrow> string" where
  "trim_left s = strip_front space_runes s"

definition trim_right :: "string \<Rightarrow> string" where
  "trim_right s = rev (strip_front (map rev space_runes) (rev s))"

definition trim_space :: "string \<Rightarrow> string" where
  "trim_space s = trim_right (trim_left s)"

lemma strip_front_id [trim_simps]: "front_match encs s = None \<Longrightarrow> strip_front encs s = s"
  by (subst strip_front.simps) simp

lemma front_match_strip_front [trim_simps]: "front_match encs (strip_front encs s) = None"
proof (induction encs s rule: strip_front.induct)
  case (1 encs s)
  then show ?case
    by (cases "front_match encs s") (simp_all add: strip_front.simps [of encs s])
qed

lemma strip_front_suffix: "suffix (strip_front encs s) s"
proof (induction encs s rule: strip_front.induct)
  case (1 encs s)
  show ?case
  proof (cases "front_match encs s")
    case None
    then show ?thesis by (simp add: strip_front_id)
  next
    case (Some e)
    with 1 have "suffix (strip_front encs (drop (length e) s)) (drop (length e) s)"
      by simp
    with Some show ?thesis
      by (simp add: strip_front.simps [of encs s]) (meson suffix_drop suffix_order.order_trans)
  qed
qed

lemma front_match_prefix: "prefix t s \<Longrightarrow> front_match encs s = None \<Longrightarrow> front_match encs t = None"
  by (auto simp: front_match_None_iff dest: prefix_order.order_trans)

lemma trim_right_prefix: "prefix (trim_right s) s"
  using strip_front_suffix [of "map rev space_runes" "rev s"]
  by (simp add: trim_right_def suffix_to_prefix)

lemma trim_left_suffix: "suffix (trim_left s) s"
  by (simp add: trim_left_def strip_front_suffix)

lemma front_match_trim_left [trim_simps]: "front_match space_runes (trim_left s) = None"
  by (simp add: trim_left_def front_match_strip_front)

lemma trim_space_idem [simp]: "trim_space (trim_space s) = trim_space s"
proof -
  let ?t = "trim_space s"
  have "front_match space_runes ?t = None"
    unfolding trim_space_def
    using front_match_prefix trim_right_prefix front_match_trim_left by blast
  then have "trim_left ?t = ?t"
    by (simp add: trim_left_def strip_front_id)
  moreover have "front_match (map rev space_runes) (rev ?t) = None"
    by (simp add: trim_space_def trim_right_def front_match_strip_front)
  then have "trim_right ?t = ?t"
    by (simp add: trim_right_def strip_front_id)
  ultimately show ?thesis
    by (metis trim_space_def)
qed

lemma trim_space_sublist: "sublist (trim_space s) s"
proof -
  have "sublist (trim_right (trim_left s)) (trim_left s)"
    by (rule prefix_imp_sublist [OF trim_right_prefix])
  moreover have "sublist (trim_left s) s"
    by (rule suffix_imp_sublist [OF trim_left_suffix])
  ultimately show ?thesis
    unfolding trim_space_def by (rule sublist_order.order_trans)
qed

lemma length_trim_space_le: "length (trim_space s) \<le> length s"
  by (rule sublist_length_le [OF trim_space_sublist])

text \<open>
  A byte that ends or starts no white-space encoding. Text made of such bytes only is not changed
  by trimming; the identifier alphabet of the collect protocol consists of such bytes.
\<close>

definition solid :: "char \<Rightarrow> bool" where
  "solid c \<longleftrightarrow> (\<forall>e \<in> set space_runes. hd e \<noteq> c \<and> last e \<noteq> c)"

lemma trim_space_solid [trim_simps]:
  assumes "\<forall>c \<in> set s. solid c"
  shows "trim_space s = s"
proof (cases s rule: rev_cases)
  case Nil
  then show ?thesis
    by (simp add: trim_space_def trim_right_def trim_left_def strip_front_id front_match_None_iff)
next
  case (snoc u y)
  have heads: "e \<noteq> [] \<Longrightarrow> prefix e s \<Longrightarrow> hd e \<in> set s" for e
    by (auto simp: prefix_def)
  have "front_match space_runes s = None"
    using assms heads by (auto simp: front_match_None_iff solid_def)
  moreover have "front_match (map rev space_runes) (rev s) = None"
    unfolding front_match_None_iff
  proof (intro ballI impI notI)
    fix e
    assume "e \<in> set (map rev space_runes)" and "e \<noteq> []" and p: "prefix e (rev s)"
    then obtain f where f: "f \<in> set space_runes" "e = rev f" "f \<noteq> []" by auto
    from p f(2) obtain zs where "rev s = rev f @ zs" by (auto simp: prefix_def)
    then have "s = rev zs @ f" by (metis rev_append rev_rev_ident)
    with f(3) snoc have "last f = y" by (metis last_appendR last_snoc)
    then show False using f(1) assms snoc by (auto simp: solid_def)
  qed
  ultimately show ?thesis
    by (simp add: trim_space_def trim_right_def trim_left_def strip_front_id)
qed

lemma trim_space_Nil [simp]: "trim_space [] = []"
  by (simp add: trim_space_solid)

subsection \<open>Lower case, substrings\<close>

definition is_ascii :: "char \<Rightarrow> bool" where
  "is_ascii c \<longleftrightarrow> (of_char c :: nat) < 128"

definition lower_byte :: "char \<Rightarrow> char" where
  "lower_byte c =
     (if 65 \<le> (of_char c :: nat) \<and> (of_char c :: nat) \<le> 90
      then char_of ((of_char c :: nat) + 32) else c)"

text \<open>\<open>uni\<close> stands for \<open>strings.Map(unicode.ToLower, s)\<close>, the path Go takes off ASCII.\<close>

definition to_lower :: "(string \<Rightarrow> string) \<Rightarrow> string \<Rightarrow> string" where
  "to_lower uni s = (if list_all is_ascii s then map lower_byte s else uni s)"

fun str_contains :: "string \<Rightarrow> string \<Rightarrow> bool" where
  "str_contains [] sub = (sub = [])"
| "str_contains (c # s) sub = (prefix sub (c # s) \<or> str_contains s sub)"

lemma str_contains_iff_sublist: "str_contains s sub \<longleftrightarrow> sublist sub s"
  by (induction s) (auto simp: sublist_Cons_right)

text \<open>The format verb \<open>%q\<close> on text without quotes, backslashes and unprintable characters.\<close>

definition go_quote :: "string \<Rightarrow> string" where
  "go_quote s = [CHR 0x22] @ s @ [CHR 0x22]"

subsection \<open>Decimal numbers\<close>

definition digit_char :: "nat \<Rightarrow> char" where
  "digit_char d = char_of (48 + d)"

definition is_digit :: "char \<Rightarrow> bool" where
  "is_digit c \<longleftrightarrow> 48 \<le> (of_char c :: nat) \<and> (of_char c :: nat) \<le> 57"

definition digit_value :: "char \<Rightarrow> nat" where
  "digit_value c = of_char c - 48"

fun dec_nat :: "nat \<Rightarrow> string" where
  "dec_nat n = (if n < 10 then [digit_char n] else dec_nat (n div 10) @ [digit_char (n mod 10)])"

declare dec_nat.simps [simp del]

definition format_int :: "int \<Rightarrow> string" where
  "format_int i = (if i < 0 then CHR ''-'' # dec_nat (nat (- i)) else dec_nat (nat i))"

lemma of_char_digit_char: "d < 10 \<Longrightarrow> (of_char (digit_char d) :: nat) = 48 + d"
  by (simp add: digit_char_def)

lemma is_digit_digit_char: "d < 10 \<Longrightarrow> is_digit (digit_char d)"
  by (simp add: is_digit_def of_char_digit_char)

lemma digit_value_digit_char: "d < 10 \<Longrightarrow> digit_value (digit_char d) = d"
  by (simp add: digit_value_def of_char_digit_char)

lemma dec_nat_not_Nil: "dec_nat n \<noteq> []"
  by (subst dec_nat.simps) simp

lemma dec_nat_digits: "\<forall>c \<in> set (dec_nat n). is_digit c"
proof (induction n rule: dec_nat.induct)
  case (1 n)
  then show ?case
    by (cases "n < 10") (auto simp: dec_nat.simps [of n] is_digit_digit_char)
qed

lemma foldl_dec_nat: "foldl (\<lambda>a c. 10 * a + digit_value c) 0 (dec_nat n) = n"
proof (induction n rule: dec_nat.induct)
  case (1 n)
  then show ?case
    by (cases "n < 10") (auto simp: dec_nat.simps [of n] digit_value_digit_char)
qed

lemma dec_nat_inj: "dec_nat m = dec_nat n \<Longrightarrow> m = n"
  by (metis foldl_dec_nat)

lemma minus_not_in_dec_nat: "CHR ''-'' \<notin> set (dec_nat n)"
  using dec_nat_digits [of n] by (auto simp: is_digit_def)

lemma format_int_inj: "format_int i = format_int j \<Longrightarrow> i = j"
  unfolding format_int_def
  by (auto split: if_splits dest!: dec_nat_inj)
     (metis list.set_intros(1) minus_not_in_dec_nat)+

subsection \<open>Digests in hexadecimal\<close>

definition hex_char :: "nat \<Rightarrow> char" where
  "hex_char d = (if d < 10 then char_of (48 + d) else char_of (87 + d))"

definition hex_digest :: "256 word \<Rightarrow> string" where
  "hex_digest w = map (\<lambda>i. hex_char (unat (take_bit 4 (drop_bit (4 * (63 - i)) w)))) [0..<64]"

definition is_hex_char :: "char \<Rightarrow> bool" where
  "is_hex_char c \<longleftrightarrow> is_digit c \<or> 97 \<le> (of_char c :: nat) \<and> (of_char c :: nat) \<le> 102"

text \<open>Evaluation of the digest of zero does not look at its bits.\<close>

lemma hex_digest_code [code]:
  "hex_digest w =
     (if w = 0 then replicate 64 CHR ''0''
      else map (\<lambda>i. hex_char (unat (take_bit 4 (drop_bit (4 * (63 - i)) w)))) [0..<64])"
proof (cases "w = 0")
  case True
  have "hex_char 0 = CHR ''0''" by code_simp
  with True show ?thesis by (simp add: hex_digest_def map_replicate_const del: upt_Suc)
qed (simp add: hex_digest_def)

lemma hd_hex_digest: "hd (hex_digest w) = hex_char (unat (take_bit 4 (drop_bit 252 w)))"
  by (simp add: hex_digest_def hd_map)

lemma length_hex_digest [simp]: "length (hex_digest w) = 64"
  by (simp add: hex_digest_def)

lemma is_hex_char_hex_char: "d < 16 \<Longrightarrow> is_hex_char (hex_char d)"
  by (auto simp: is_hex_char_def hex_char_def is_digit_def)

lemma unat_take_bit_4: "unat (take_bit 4 (w :: 'a::len word)) < 16"
proof -
  have "unat (take_bit 4 w) = take_bit 4 (unat w)"
    by (rule unsigned_take_bit_eq)
  also have "\<dots> < 2 ^ 4" by (rule take_bit_nat_less_exp)
  finally show ?thesis by simp
qed

lemma hex_digest_chars: "\<forall>c \<in> set (hex_digest w). is_hex_char c"
  by (auto simp: hex_digest_def is_hex_char_hex_char unat_take_bit_4)

section \<open>Time\<close>

datatype zone = ZoneUTC | ZoneOther string

record gotime =
  tm_ns :: int    \<comment> \<open>nanoseconds since January 1, year 1, 00:00 UTC\<close>
  tm_zone :: zone

definition zero_time :: gotime where
  "zero_time = \<lparr>tm_ns = 0, tm_zone = ZoneUTC\<rparr>"

definition second :: int where "second = 1000000000"
definition minute :: int where "minute = 60 * second"
definition hour :: int where "hour = 60 * minute"

definition is_zero_time :: "gotime \<Rightarrow> bool" where
  [time_simps]: "is_zero_time t \<longleftrightarrow> tm_ns t = 0"

definition utc :: "gotime \<Rightarrow> gotime" where
  [time_simps]: "utc t = t\<lparr>tm_zone := ZoneUTC\<rparr>"

definition before :: "gotime \<Rightarrow> gotime \<Rightarrow> bool" where
  [time_simps]: "before a b \<longleftrightarrow> tm_ns a < tm_ns b"

definition after :: "gotime \<Rightarrow> gotime \<Rightarrow> bool" where
  [time_simps]: "after a b \<longleftrightarrow> tm_ns b < tm_ns a"

definition add_time :: "gotime \<Rightarrow> int \<Rightarrow> gotime" where
  [time_simps]: "add_time t d = t\<lparr>tm_ns := tm_ns t + d\<rparr>"

text \<open>\<open>Time.Sub\<close> returns the largest or smallest \<open>Duration\<close> when the difference does not fit.\<close>

definition sub_time :: "gotime \<Rightarrow> gotime \<Rightarrow> int" where
  [time_simps]: "sub_time a b = max (- (2 ^ 63)) (min (2 ^ 63 - 1) (tm_ns a - tm_ns b))"

definition truncate_time :: "gotime \<Rightarrow> int \<Rightarrow> gotime" where
  [time_simps]: "truncate_time t d = (if d \<le> 0 then t else t\<lparr>tm_ns := tm_ns t - tm_ns t mod d\<rparr>)"

text \<open>\<open>Time.Unix\<close>: whole seconds since 1970, 62135596800 seconds after the zero time.\<close>

definition unix_seconds :: "gotime \<Rightarrow> int" where
  [time_simps]: "unix_seconds t = tm_ns t div second - 62135596800"

lemma utc_idem [simp]: "utc (utc t) = utc t"
  by (simp add: utc_def)

lemma tm_ns_utc [simp]: "tm_ns (utc t) = tm_ns t"
  by (simp add: utc_def)

lemma tm_zone_utc [simp]: "tm_zone (utc t) = ZoneUTC"
  by (simp add: utc_def)

lemma utc_fixed: "tm_zone t = ZoneUTC \<Longrightarrow> utc t = t"
  by (simp add: utc_def)

section \<open>Floating-point values\<close>

datatype go_float = NaN | PosInf | NegInf | NegZero | Finite rat

fun is_nan :: "go_float \<Rightarrow> bool" where
  "is_nan NaN = True"
| "is_nan _ = False"

fun is_inf :: "go_float \<Rightarrow> bool" where
  "is_inf PosInf = True"
| "is_inf NegInf = True"
| "is_inf _ = False"

text \<open>
  Conversion of an integer to \<open>float64\<close>: exact up to 53 significant bits, then rounded to the
  nearest multiple of a power of two, ties to the even multiple.
\<close>

fun bit_length :: "nat \<Rightarrow> nat" where
  "bit_length n = (if n = 0 then 0 else Suc (bit_length (n div 2)))"

declare bit_length.simps [simp del]

definition round_half_even :: "nat \<Rightarrow> nat \<Rightarrow> nat" where
  "round_half_even n k =
     (let q = n div 2 ^ k; r = n mod 2 ^ k
      in if 2 * r < 2 ^ k then q * 2 ^ k
         else if 2 ^ k < 2 * r then (q + 1) * 2 ^ k
         else if even q then q * 2 ^ k else (q + 1) * 2 ^ k)"

definition round53 :: "int \<Rightarrow> int" where
  "round53 n = sgn n * int (round_half_even (nat \<bar>n\<bar>) (bit_length (nat \<bar>n\<bar>) - 53))"

definition float64_of_int :: "int \<Rightarrow> go_float" where
  "float64_of_int n = Finite (rat_of_int (round53 n))"

lemma bit_length_le: "n < 2 ^ k \<Longrightarrow> bit_length n \<le> k"
proof (induction k arbitrary: n)
  case 0
  then show ?case by (simp add: bit_length.simps)
next
  case (Suc k)
  then have "n div 2 < 2 ^ k" by auto
  then have "bit_length (n div 2) \<le> k" by (rule Suc.IH)
  then show ?case by (subst bit_length.simps) simp
qed

lemma round53_exact:
  assumes "\<bar>n\<bar> < 2 ^ 53"
  shows "round53 n = n"
proof -
  from assms have "nat \<bar>n\<bar> < 2 ^ 53" by (simp add: nat_less_iff)
  then have "bit_length (nat \<bar>n\<bar>) - 53 = 0" using bit_length_le by fastforce
  then show ?thesis
    by (simp add: round53_def round_half_even_def sgn_mult_abs)
qed

lemma float64_of_int_finite: "\<not> is_nan (float64_of_int n) \<and> \<not> is_inf (float64_of_int n)"
  by (simp add: float64_of_int_def)

section \<open>Maps with an iteration order\<close>

type_synonym ('k, 'v) gomap = "('k \<times> 'v) list option"

definition entries :: "('k, 'v) gomap \<Rightarrow> ('k \<times> 'v) list" where
  "entries m = (case m of None \<Rightarrow> [] | Some xs \<Rightarrow> xs)"

abbreviation map_len :: "('k, 'v) gomap \<Rightarrow> nat" where
  "map_len m \<equiv> length (entries m)"

definition map_get :: "('k, 'v) gomap \<Rightarrow> 'k \<Rightarrow> 'v option" where
  "map_get m k = map_of (entries m) k"

definition wf_map :: "('k, 'v) gomap \<Rightarrow> bool" where
  "wf_map m \<longleftrightarrow> distinct (map fst (entries m))"

lemma entries_simps [simp]: "entries None = []" "entries (Some xs) = xs"
  by (simp_all add: entries_def)

end
