(* ===== verification/Kafka_Commit.thy ===== *)
theory Kafka_Commit
  imports Go_Prelude
begin

text \<open>
  Package \<open>eventbus/kafka\<close>, files \<open>ordered_commit.go\<close> and \<open>splitCommitKey\<close> of \<open>protector.go\<close>: the
  per-partition committer that marks Kafka offsets only in offset order, and the registry that owns
  one committer per topic-partition.

  Each method holds the committer's mutex for its whole body, so it is one atomic step on the
  record \<open>committer\<close>. Go's \<open>map[int64]*commitState\<close> is an association list with distinct keys; a
  \<open>markFn\<close> closure is the mark it sends (\<^const>\<open>None\<close> for a nil function), and every operation that
  may call closures returns the marks it sent, in order. Offsets and generations are machine words
  that wrap; counts kept in a Go \<open>int\<close> and bounded by the number of entries are \<^typ>\<open>int\<close>.

  The lemmas show: the committer's invariant; that what \<open>complete\<close> marks is exactly the run of
  completed offsets that starts at the next offset; that over every interleaving of in-order
  registrations and completions in any order the marks are the longest completed prefix of the
  registered offsets (the abstract contract, \<open>done_prefix\<close>); that stale generations mark nothing;
  and that the registry's keys are injective and parse back.
\<close>

section \<open>One partition\<close>

record 'm commit_state =
  cs_done :: bool
  cs_generation :: i32
  cs_mark :: "'m option"

record 'm committer =
  oc_initialized :: bool
  oc_generation :: i32
  oc_next_offset :: i64
  oc_high_water :: i64
  oc_states :: "(i64 \<times> 'm commit_state) list"
  oc_done_count :: int
  oc_last_registered :: i64
  oc_largest_gap :: i64

definition new_committer :: "'m committer" where
  "new_committer =
     \<lparr>oc_initialized = False, oc_generation = 0, oc_next_offset = 0, oc_high_water = 0,
      oc_states = [], oc_done_count = 0, oc_last_registered = 0, oc_largest_gap = 0\<rparr>"

definition reset_locked :: "'m committer \<Rightarrow> 'm committer" where
  "reset_locked c =
     c\<lparr>oc_initialized := False, oc_generation := 0, oc_next_offset := 0, oc_high_water := 0,
       oc_states := [], oc_done_count := 0, oc_last_registered := 0, oc_largest_gap := 0\<rparr>"

definition register :: "i64 \<Rightarrow> i32 \<Rightarrow> 'm option \<Rightarrow> 'm committer \<Rightarrow> 'm committer" where
  "register offset generation mark c0 =
     (let c1 = (if oc_initialized c0 \<and> oc_generation c0 \<noteq> generation then reset_locked c0 else c0);
          c2 = (if \<not> oc_initialized c1
                then c1\<lparr>oc_initialized := True, oc_generation := generation,
                        oc_next_offset := offset, oc_last_registered := offset\<rparr>
                else c1)
      in if map_of (oc_states c2) offset \<noteq> None then c2
         else
           let c3 = (if oc_states c2 \<noteq> [] \<and> slt (oc_last_registered c2) offset
                     then
                       let gap = offset - oc_last_registered c2
                       in c2\<lparr>oc_largest_gap :=
                               (if slt (oc_largest_gap c2) gap then gap else oc_largest_gap c2),
                             oc_last_registered := offset\<rparr>
                     else c2)
           in c3\<lparr>oc_states :=
                   (offset, \<lparr>cs_done = False, cs_generation = generation, cs_mark = mark\<rparr>)
                   # oc_states c3\<rparr>)"

text \<open>One turn of the flush loop: drop the completed state at the next offset and advance.\<close>

definition advance :: "'m committer \<Rightarrow> 'm committer" where
  "advance c =
     c\<lparr>oc_states := AList.delete (oc_next_offset c) (oc_states c),
       oc_done_count := oc_done_count c - 1,
       oc_next_offset := oc_next_offset c + 1\<rparr>"

definition mark_list :: "'m commit_state \<Rightarrow> 'm list" where
  "mark_list st = (case cs_mark st of None \<Rightarrow> [] | Some m \<Rightarrow> [m])"

lemma length_delete_less:
  "map_of xs k = Some v \<Longrightarrow> length (AList.delete k xs) < length xs"
proof (induction xs)
  case (Cons x xs)
  have "length (AList.delete k xs) \<le> length xs"
    by (simp add: AList.length_delete_le)
  with Cons show ?case by (cases x) auto
qed simp

text \<open>The loop \<open>for { ... }\<close> of \<open>Complete\<close>; it ends because every turn deletes a state.\<close>

function flush :: "'m committer \<Rightarrow> 'm committer \<times> 'm list" where
  "flush c =
     (case map_of (oc_states c) (oc_next_offset c) of
        None \<Rightarrow> (c, [])
      | Some st \<Rightarrow>
          if \<not> cs_done st then (c, [])
          else
            let r = flush (advance c)
            in (fst r, mark_list st @ snd r))"
  by pat_completeness auto
termination
  by (relation "measure (\<lambda>c. length (oc_states c))")
     (auto simp: advance_def length_delete_less)

declare flush.simps [simp del]

definition complete :: "i64 \<Rightarrow> i32 \<Rightarrow> 'm committer \<Rightarrow> 'm committer \<times> 'm list" where
  "complete offset generation c =
     (case map_of (oc_states c) offset of
        None \<Rightarrow> (c, [])
      | Some st \<Rightarrow>
          if cs_generation st \<noteq> generation \<or> oc_generation c \<noteq> generation then (c, [])
          else
            let c1 = (if cs_done st then c
                      else c\<lparr>oc_states := AList.update offset (st\<lparr>cs_done := True\<rparr>) (oc_states c),
                             oc_done_count := oc_done_count c + 1\<rparr>);
                r = flush c1
            in (if oc_states (fst r) = [] then reset_locked (fst r) else fst r, snd r))"

definition abort_generation :: "i32 \<Rightarrow> 'm committer \<Rightarrow> 'm committer" where
  "abort_generation generation c =
     (if \<not> oc_initialized c \<or> oc_generation c \<noteq> generation then c else reset_locked c)"

definition record_high_water_mark :: "i64 \<Rightarrow> 'm committer \<Rightarrow> 'm committer" where
  "record_high_water_mark hw c =
     (if slt (oc_high_water c) hw then c\<lparr>oc_high_water := hw\<rparr> else c)"

record commit_snapshot =
  sn_key :: string
  sn_initialized :: bool
  sn_next_offset :: i64
  sn_high_water :: i64
  sn_pending_count :: int
  sn_done_count :: int
  sn_oldest_pending :: i64
  sn_largest_gap :: i64

definition snapshot :: "'m committer \<Rightarrow> commit_snapshot" where
  "snapshot c =
     \<lparr>sn_key = [], sn_initialized = oc_initialized c, sn_next_offset = oc_next_offset c,
      sn_high_water = oc_high_water c, sn_pending_count = int (length (oc_states c)),
      sn_done_count = oc_done_count c,
      sn_oldest_pending = (if oc_states c \<noteq> [] then oc_next_offset c else 0),
      sn_largest_gap = oc_largest_gap c\<rparr>"

section \<open>The registry\<close>

text \<open>
  The \<open>sync.Map\<close> of committers. A committer is shared by pointer, so an operation on it is an
  update of its entry.
\<close>

type_synonym 'm commit_manager = "(string \<times> 'm committer) list"

definition commit_key :: "string \<Rightarrow> i32 \<Rightarrow> string" where
  "commit_key topic part = topic @ '':'' @ format_int (sint part)"

definition manager_get :: "string \<Rightarrow> i32 \<Rightarrow> 'm commit_manager \<Rightarrow> 'm committer \<times> 'm commit_manager" where
  "manager_get topic part m =
     (case map_of m (commit_key topic part) of
        Some c \<Rightarrow> (c, m)
      | None \<Rightarrow> (new_committer, (commit_key topic part, new_committer) # m))"

definition manager_put :: "string \<Rightarrow> i32 \<Rightarrow> 'm committer \<Rightarrow> 'm commit_manager \<Rightarrow> 'm commit_manager" where
  "manager_put topic part c m = AList.update (commit_key topic part) c m"

definition manager_record_high_water_mark ::
  "string \<Rightarrow> i32 \<Rightarrow> i64 \<Rightarrow> 'm commit_manager \<Rightarrow> 'm commit_manager" where
  "manager_record_high_water_mark topic part hw m =
     (if sint hw \<le> 0 then m
      else
        let r = manager_get topic part m
        in manager_put topic part (record_high_water_mark hw (fst r)) (snd r))"

text \<open>\<open>Range\<close> visits the entries in some order; the snapshots follow it.\<close>

definition manager_snapshots :: "'m commit_manager \<Rightarrow> commit_snapshot list" where
  "manager_snapshots m = map (\<lambda>(key, c). (snapshot c)\<lparr>sn_key := key\<rparr>) m"

text \<open>\<open>splitCommitKey\<close>: the loop from the last byte stops at the last colon.\<close>

definition split_commit_key :: "string \<Rightarrow> string \<times> i32 \<times> bool" where
  "split_commit_key key =
     (if CHR '':'' \<notin> set key then ([], 0, False)
      else
        let digits = rev (takeWhile (\<lambda>c. c \<noteq> CHR '':'') (rev key));
            topic = take (length key - length digits - 1) key
        in if list_all is_digit digits
           then (topic, foldl (\<lambda>p c. p * 10 + of_nat (digit_value c)) 0 digits, topic \<noteq> [])
           else ([], 0, False))"

section \<open>The invariant\<close>

definition committer_inv :: "'m committer \<Rightarrow> bool" where
  "committer_inv c \<longleftrightarrow>
     distinct (map fst (oc_states c)) \<and>
     oc_done_count c = int (length (filter (\<lambda>(k, st). cs_done st) (oc_states c))) \<and>
     (\<forall>(k, st) \<in> set (oc_states c). cs_generation st = oc_generation c) \<and>
     (\<not> oc_initialized c \<longrightarrow> oc_states c = [])"

lemma reset_locked_new: "reset_locked c = new_committer"
  by (cases c) (simp add: reset_locked_def new_committer_def)

lemma committer_inv_new [simp]: "committer_inv new_committer"
  by (simp add: committer_inv_def new_committer_def)

lemma committer_inv_register:
  "committer_inv c \<Longrightarrow> committer_inv (register offset generation mark c)"
  by (auto simp: register_def Let_def committer_inv_def reset_locked_def map_of_eq_None_iff)

lemma filter_delete_done:
  assumes "distinct (map fst xs)" and "map_of xs k = Some st" and "P (k, st)"
  shows "length (filter P xs) = Suc (length (filter P (AList.delete k xs)))"
  using assms
proof (induction xs)
  case (Cons x xs)
  show ?case
  proof (cases "fst x = k")
    case True
    with Cons.prems have "k \<notin> fst ` set xs" and "x = (k, st)" by (cases x; auto)+
    then have "AList.delete k xs = xs" by (simp add: AList.delete_id)
    with \<open>x = (k, st)\<close> Cons.prems(3) show ?thesis by simp
  next
    case False
    with Cons show ?thesis by (cases x) auto
  qed
qed simp

lemma committer_inv_advance:
  assumes "committer_inv c" and "map_of (oc_states c) (oc_next_offset c) = Some st" and "cs_done st"
  shows "committer_inv (advance c)"
  using assms filter_delete_done [of "oc_states c" "oc_next_offset c" st "\<lambda>(k, st). cs_done st"]
  by (auto simp: committer_inv_def advance_def AList.delete_eq intro: distinct_map_filter)

lemma committer_inv_flush: "committer_inv c \<Longrightarrow> committer_inv (fst (flush c))"
proof (induction c rule: flush.induct)
  case (1 c)
  then show ?case
    by (auto simp: flush.simps [of c] Let_def committer_inv_advance split: option.splits)
qed

lemma set_update_subset: "set (AList.update k v xs) \<subseteq> insert (k, v) (set xs)"
  by (induction xs) auto

lemma filter_update_done:
  assumes "distinct (map fst xs)" and "map_of xs k = Some st" and "\<not> P (k, st)" and "P (k, st')"
  shows "length (filter P (AList.update k st' xs)) = Suc (length (filter P xs))"
  using assms by (induction xs) (auto split: if_splits)

lemma committer_inv_complete: "committer_inv c \<Longrightarrow> committer_inv (fst (complete offset generation c))"
proof -
  assume inv: "committer_inv c"
  have "committer_inv (c\<lparr>oc_states := AList.update offset (st\<lparr>cs_done := True\<rparr>) (oc_states c),
      oc_done_count := oc_done_count c + 1\<rparr>)"
    if "map_of (oc_states c) offset = Some st" and "\<not> cs_done st" and "cs_generation st = oc_generation c" for st
    using inv that
      filter_update_done [of "oc_states c" offset st "\<lambda>(k, st). cs_done st" "st\<lparr>cs_done := True\<rparr>"]
    by (auto simp: committer_inv_def AList.distinct_update
        dest!: subsetD [OF set_update_subset] map_of_SomeD)
  then show ?thesis
    using inv committer_inv_flush
    by (auto simp: complete_def Let_def reset_locked_new split: option.splits)
qed

lemma committer_inv_abort: "committer_inv c \<Longrightarrow> committer_inv (abort_generation generation c)"
  by (auto simp: abort_generation_def reset_locked_new)

lemma committer_inv_high_water: "committer_inv c \<Longrightarrow> committer_inv (record_high_water_mark hw c)"
  by (auto simp: record_high_water_mark_def committer_inv_def)

section \<open>What a flush marks\<close>

text \<open>
  The longest prefix \<open>0, ..., k - 1\<close> of \<open>n\<close> registered offsets all of which are completed: the
  contract of the committer, given the list of completed indices in any order.
\<close>

definition done_prefix :: "nat list \<Rightarrow> nat \<Rightarrow> nat" where
  "done_prefix js n = length (takeWhile (\<lambda>i. i \<in> set js) [0..<n])"

lemma done_prefix_eqI:
  assumes "k \<le> n" and "{..<k} \<subseteq> set js" and "k < n \<Longrightarrow> k \<notin> set js"
  shows "done_prefix js n = k"
proof -
  have "[0..<n] = [0..<k] @ [k..<n]"
    using assms(1) upt_add_eq_append [of 0 k "n - k"] by simp
  moreover have "takeWhile (\<lambda>i. i \<in> set js) ([0..<k] @ [k..<n])
      = [0..<k] @ takeWhile (\<lambda>i. i \<in> set js) [k..<n]"
    using assms(2) by (intro takeWhile_append2) auto
  moreover have "takeWhile (\<lambda>i. i \<in> set js) [k..<n] = []"
    using assms(1,3) by (cases "k < n") (auto simp: upt_conv_Cons)
  ultimately show ?thesis
    by (simp add: done_prefix_def)
qed

text \<open>
  The committer tracks registered indices \<open>k, ..., n - 1\<close> (offset \<open>base + i\<close> for index \<open>i\<close>), of
  which those in \<open>D\<close> are completed; everything before \<open>k\<close> has been marked.
\<close>

definition offset_at :: "i64 \<Rightarrow> nat \<Rightarrow> i64" where
  "offset_at base i = base + of_nat i"

definition tracks ::
  "i32 \<Rightarrow> i64 \<Rightarrow> (nat \<Rightarrow> 'm) \<Rightarrow> nat \<Rightarrow> nat set \<Rightarrow> nat \<Rightarrow> 'm committer \<Rightarrow> bool" where
  "tracks g base mk n D k c \<longleftrightarrow>
     oc_initialized c \<and> oc_generation c = g \<and> oc_next_offset c = offset_at base k \<and>
     distinct (map fst (oc_states c)) \<and>
     fst ` set (oc_states c) = offset_at base ` {k..<n} \<and>
     (\<forall>i \<in> {k..<n}. map_of (oc_states c) (offset_at base i) =
        Some \<lparr>cs_done = (i \<in> D), cs_generation = g, cs_mark = Some (mk i)\<rparr>)"

lemma offset_at_eq_iff:
  assumes "i < 2 ^ 64" and "j < 2 ^ 64"
  shows "offset_at base i = offset_at base j \<longleftrightarrow> i = j"
proof
  assume "offset_at base i = offset_at base j"
  then have "unat (of_nat i :: i64) = unat (of_nat j :: i64)" by (simp add: offset_at_def)
  with assms show "i = j" by (simp add: unat_of_nat)
qed simp

lemma offset_at_Suc: "offset_at base (Suc k) = offset_at base k + 1"
  by (simp add: offset_at_def)

lemma tracks_lookup_None:
  assumes "tracks g base mk n D k c" and "i < 2 ^ 64" and "n < 2 ^ 64" and "i < k \<or> n \<le> i"
  shows "map_of (oc_states c) (offset_at base i) = None"
proof -
  have "offset_at base i \<notin> offset_at base ` {k..<n}"
    using assms(2-4) by (auto simp: offset_at_eq_iff)
  with assms(1) show ?thesis by (simp add: tracks_def map_of_eq_None_iff)
qed

lemma tracks_advance:
  assumes t: "tracks g base mk n D k c" and k: "k < n" and n: "n < 2 ^ 64"
  shows "tracks g base mk n D (Suc k) (advance c)"
proof -
  have next_c: "oc_next_offset c = offset_at base k" using t by (simp add: tracks_def)
  have diff: "offset_at base i \<noteq> offset_at base k" if "i \<in> {Suc k..<n}" for i :: nat
    using that n k by (simp add: offset_at_eq_iff)
  have "fst ` set (AList.delete (offset_at base k) (oc_states c))
      = fst ` set (oc_states c) - {offset_at base k}"
    by (auto simp: AList.delete_eq image_iff)
  also have "\<dots> = offset_at base ` {k..<n} - {offset_at base k}"
    using t by (simp add: tracks_def)
  also have "\<dots> = offset_at base ` {Suc k..<n}"
  proof -
    have "{k..<n} = insert k {Suc k..<n}" using k by auto
    moreover have "offset_at base k \<notin> offset_at base ` {Suc k..<n}" using diff by fastforce
    ultimately show ?thesis by simp
  qed
  finally have keys: "fst ` set (AList.delete (offset_at base k) (oc_states c))
      = offset_at base ` {Suc k..<n}" .
  have "distinct (map fst (AList.delete (offset_at base k) (oc_states c)))"
    using t by (simp add: tracks_def AList.distinct_delete)
  with t keys show ?thesis
    by (simp add: tracks_def advance_def next_c diff offset_at_Suc)
qed

lemma flush_tracks:
  assumes "tracks g base mk n D k c" and "k \<le> n" and "n < 2 ^ 64" and "{..<k} \<subseteq> D"
  shows "\<exists>k'. k \<le> k' \<and> k' \<le> n \<and> {..<k'} \<subseteq> D \<and> (k' < n \<longrightarrow> k' \<notin> D) \<and>
      snd (flush c) = map mk [k..<k'] \<and> tracks g base mk n D k' (fst (flush c))"
  using assms
proof (induction "n - k" arbitrary: k c)
  case 0
  then have "k = n" by simp
  with "0.prems" have "map_of (oc_states c) (oc_next_offset c) = None"
    using tracks_lookup_None [of g base mk n D k c n] by (simp add: tracks_def)
  then have "flush c = (c, [])" by (simp add: flush.simps [of c])
  with "0.prems" \<open>k = n\<close> show ?case by (intro exI [of _ n]) simp
next
  case (Suc d)
  then have k: "k < n" by simp
  let ?st = "\<lparr>cs_done = (k \<in> D), cs_generation = g, cs_mark = Some (mk k)\<rparr>"
  have look: "map_of (oc_states c) (oc_next_offset c) = Some ?st"
    using Suc.prems k by (simp add: tracks_def)
  show ?case
  proof (cases "k \<in> D")
    case False
    then have "flush c = (c, [])" using look by (simp add: flush.simps [of c])
    with Suc.prems False show ?thesis by (intro exI [of _ k]) simp
  next
    case True
    have f: "flush c = (fst (flush (advance c)), mk k # snd (flush (advance c)))"
      using look True by (simp add: flush.simps [of c] Let_def mark_list_def)
    have "d = n - Suc k" using Suc.hyps(2) by simp
    moreover have "{..<Suc k} \<subseteq> D" using Suc.prems(4) True by (auto simp: less_Suc_eq)
    ultimately obtain k' where "Suc k \<le> k'" "k' \<le> n" "{..<k'} \<subseteq> D" "k' < n \<longrightarrow> k' \<notin> D"
      "snd (flush (advance c)) = map mk [Suc k..<k']" "tracks g base mk n D k' (fst (flush (advance c)))"
      using Suc.hyps(1) [of "Suc k" "advance c"] tracks_advance [OF Suc.prems(1) k Suc.prems(3)] k
        Suc.prems(3) by auto
    then show ?thesis by (intro exI [of _ k']) (simp add: f upt_conv_Cons)
  qed
qed

section \<open>Refinement of the abstract contract\<close>

text \<open>
  One consumer session on one partition: Sarama delivers consecutive offsets from \<open>base\<close> on, which
  are registered under generation \<open>g\<close> with the mark \<open>mk i\<close> for the \<open>i\<close>-th; workers complete delivered
  offsets in any order, any number of times; completions of other generations and high-water
  observations come at any time.
\<close>

datatype commit_event =
    RegisterNext
  | CompleteIndex nat
  | StaleComplete i64 i32
  | ObserveHighWater i64

text \<open>The committer after the events, the marks it sent, and the abstract state: how many offsets
  are registered and which indices were completed.\<close>

record 'm commit_run =
  cr_registered :: nat
  cr_completed :: "nat list"
  cr_committer :: "'m committer"
  cr_marks :: "'m list"

definition run_start :: "'m commit_run" where
  "run_start = \<lparr>cr_registered = 0, cr_completed = [], cr_committer = new_committer, cr_marks = []\<rparr>"

fun run_event :: "i32 \<Rightarrow> i64 \<Rightarrow> (nat \<Rightarrow> 'm) \<Rightarrow> 'm commit_run \<Rightarrow> commit_event \<Rightarrow> 'm commit_run" where
  "run_event g base mk s RegisterNext =
     (let n = cr_registered s
      in s\<lparr>cr_registered := Suc n,
           cr_committer := register (offset_at base n) g (Some (mk n)) (cr_committer s)\<rparr>)"
| "run_event g base mk s (CompleteIndex i) =
     (let r = complete (offset_at base i) g (cr_committer s)
      in s\<lparr>cr_completed := i # cr_completed s, cr_committer := fst r,
           cr_marks := cr_marks s @ snd r\<rparr>)"
| "run_event g base mk s (StaleComplete off g') =
     (let r = complete off g' (cr_committer s)
      in s\<lparr>cr_committer := fst r, cr_marks := cr_marks s @ snd r\<rparr>)"
| "run_event g base mk s (ObserveHighWater hw) =
     s\<lparr>cr_committer := record_high_water_mark hw (cr_committer s)\<rparr>"

fun event_ok :: "i32 \<Rightarrow> nat \<Rightarrow> commit_event \<Rightarrow> bool" where
  "event_ok g n RegisterNext = (Suc n < 2 ^ 64)"
| "event_ok g n (CompleteIndex i) = (i < n)"
| "event_ok g n (StaleComplete off g') = (g' \<noteq> g)"
| "event_ok g n (ObserveHighWater hw) = True"

fun run_events :: "i32 \<Rightarrow> i64 \<Rightarrow> (nat \<Rightarrow> 'm) \<Rightarrow> 'm commit_run \<Rightarrow> commit_event list \<Rightarrow> 'm commit_run" where
  "run_events g base mk s [] = s"
| "run_events g base mk s (e # es) = run_events g base mk (run_event g base mk s e) es"

fun events_ok :: "i32 \<Rightarrow> nat \<Rightarrow> commit_event list \<Rightarrow> bool" where
  "events_ok g n [] = True"
| "events_ok g n (e # es) =
     (event_ok g n e \<and> events_ok g (if e = RegisterNext then Suc n else n) es)"

definition idle :: "'m committer \<Rightarrow> bool" where
  "idle c \<longleftrightarrow> \<not> oc_initialized c \<and> oc_states c = []"

text \<open>The simulation relation between the committer and the abstract contract.\<close>

definition refines :: "i32 \<Rightarrow> i64 \<Rightarrow> (nat \<Rightarrow> 'm) \<Rightarrow> 'm commit_run \<Rightarrow> bool" where
  "refines g base mk s \<longleftrightarrow>
     (let n = cr_registered s; D = set (cr_completed s); k = length (cr_marks s); c = cr_committer s
      in n < 2 ^ 64 \<and> k \<le> n \<and> D \<subseteq> {..<n} \<and> {..<k} \<subseteq> D \<and> cr_marks s = map mk [0..<k] \<and>
         (if k = n then idle c else k \<notin> D \<and> tracks g base mk n D k c))"

lemma refines_start: "refines g base mk run_start"
  by (simp add: refines_def run_start_def idle_def new_committer_def)

lemma register_idle:
  "idle c \<Longrightarrow> n \<notin> D \<Longrightarrow>
     tracks g base mk (Suc n) D n (register (offset_at base n) g (Some (mk n)) c)"
  by (simp add: idle_def register_def tracks_def Let_def)

lemma register_tracks:
  assumes t: "tracks g base mk n D k c" and "k \<le> n" and "Suc n < 2 ^ 64" and "n \<notin> D"
  shows "tracks g base mk (Suc n) D k (register (offset_at base n) g (Some (mk n)) c)"
proof -
  have none: "map_of (oc_states c) (offset_at base n) = None"
    using tracks_lookup_None [OF t, of n] assms(3) by simp
  have diff: "offset_at base i \<noteq> offset_at base n" if "i < n" for i :: nat
    using that assms(3) by (simp add: offset_at_eq_iff)
  have range: "{k..<Suc n} = insert n {k..<n}" using assms(2) by auto
  show ?thesis
    using t none assms(4) diff
    by (auto simp: tracks_def register_def Let_def range map_of_eq_None_iff dest: sym)
qed

lemma complete_stale:
  assumes "\<forall>(k, st) \<in> set (oc_states c). cs_generation st = oc_generation c" and "oc_generation c \<noteq> g'"
  shows "complete off g' c = (c, [])"
  using assms by (auto simp: complete_def split: option.splits)

lemma complete_missing: "map_of (oc_states c) off = None \<Longrightarrow> complete off g c = (c, [])"
  by (simp add: complete_def)

lemma tracks_set_done:
  assumes t: "tracks g base mk n D k c" and i: "i \<in> {k..<n}" "i \<notin> D" and n: "n < 2 ^ 64"
  shows "tracks g base mk n (insert i D) k
    (c\<lparr>oc_states := AList.update (offset_at base i)
          (\<lparr>cs_done = False, cs_generation = g, cs_mark = Some (mk i)\<rparr>\<lparr>cs_done := True\<rparr>) (oc_states c),
       oc_done_count := d\<rparr>)"
proof -
  have diff: "offset_at base j = offset_at base i \<longleftrightarrow> j = i" if "j \<in> {k..<n}" for j
    using that i(1) n by (simp add: offset_at_eq_iff)
  have "offset_at base i \<in> fst ` set (oc_states c)" using t i(1) by (simp add: tracks_def)
  then show ?thesis
    using t diff i by (auto simp: tracks_def AList.update_conv' AList.dom_update AList.distinct_update)
qed

lemma complete_tracks:
  assumes t: "tracks g base mk n D k c" and n: "n < 2 ^ 64" and k: "k < n" "{..<k} \<subseteq> D" "k \<notin> D"
    and i: "i < n"
  shows "\<exists>k'. k \<le> k' \<and> k' \<le> n \<and> {..<k'} \<subseteq> insert i D \<and>
      snd (complete (offset_at base i) g c) = map mk [k..<k'] \<and>
      (let c' = fst (complete (offset_at base i) g c)
       in if k' = n then idle c' else k' \<notin> insert i D \<and> tracks g base mk n (insert i D) k' c')"
proof (cases "i < k")
  case True
  with k have "complete (offset_at base i) g c = (c, [])" "insert i D = D"
    using tracks_lookup_None [OF t, of i] n by (auto intro: complete_missing)
  with t k show ?thesis by (intro exI [of _ k]) simp
next
  case False
  with i have i': "i \<in> {k..<n}" by simp
  define st where "st = \<lparr>cs_done = (i \<in> D), cs_generation = g, cs_mark = Some (mk i)\<rparr>"
  have look: "map_of (oc_states c) (offset_at base i) = Some st" and gen: "oc_generation c = g"
    and gen': "cs_generation st = g"
    using t i' by (auto simp: tracks_def st_def)
  define c1 where "c1 = (if cs_done st then c
      else c\<lparr>oc_states := AList.update (offset_at base i) (st\<lparr>cs_done := True\<rparr>) (oc_states c),
             oc_done_count := oc_done_count c + 1\<rparr>)"
  have t1: "tracks g base mk n (insert i D) k c1"
    using t tracks_set_done [OF t i' _ n] by (auto simp: c1_def st_def insert_absorb)
  have "{..<k} \<subseteq> insert i D" using k by auto
  then obtain k' where k': "k \<le> k'" "k' \<le> n" "{..<k'} \<subseteq> insert i D" "k' < n \<longrightarrow> k' \<notin> insert i D"
    "snd (flush c1) = map mk [k..<k']" "tracks g base mk n (insert i D) k' (fst (flush c1))"
    using flush_tracks [OF t1 less_imp_le [OF k(1)] n] by blast
  have empty_iff: "oc_states (fst (flush c1)) = [] \<longleftrightarrow> k' = n"
  proof -
    have "fst ` set (oc_states (fst (flush c1))) = offset_at base ` {k'..<n}"
      using k'(6) by (simp add: tracks_def)
    then show ?thesis using k'(2) by (metis atLeastLessThan_empty_iff image_is_empty le_less
          list.set(1) not_less set_empty)
  qed
  have "complete (offset_at base i) g c =
      (if k' = n then new_committer else fst (flush c1), map mk [k..<k'])"
    using empty_iff k'(5)
    by (simp add: complete_def look gen gen' Let_def c1_def [symmetric] reset_locked_new)
  then show ?thesis
    using k' by (intro exI [of _ k']) (auto simp: Let_def idle_def new_committer_def)
qed

lemma committer_generations_tracks:
  "tracks g base mk n D k c \<Longrightarrow> \<forall>(o', st) \<in> set (oc_states c). cs_generation st = oc_generation c"
proof (intro ballI, clarify)
  fix o' st
  assume t: "tracks g base mk n D k c" and s: "(o', st) \<in> set (oc_states c)"
  then have "o' \<in> offset_at base ` {k..<n}" by (force simp: tracks_def)
  then obtain i where i: "i \<in> {k..<n}" "o' = offset_at base i" by blast
  with t s have "map_of (oc_states c) o' = Some st" by (simp add: tracks_def)
  with t i show "cs_generation st = oc_generation c" by (auto simp: tracks_def)
qed

lemma run_event_refines:
  assumes "refines g base mk s" and "event_ok g (cr_registered s) e"
  shows "refines g base mk (run_event g base mk s e)"
proof (cases e)
  case RegisterNext
  let ?n = "cr_registered s" and ?D = "set (cr_completed s)" and ?k = "length (cr_marks s)"
  have "?n \<notin> ?D" and b: "Suc ?n < 2 ^ 64"
    using assms RegisterNext by (auto simp: refines_def Let_def)
  moreover have "tracks g base mk (Suc ?n) ?D ?k
      (register (offset_at base ?n) g (Some (mk ?n)) (cr_committer s))"
    using assms(1) \<open>?n \<notin> ?D\<close> b
    by (cases "?k = ?n") (auto simp: refines_def Let_def intro: register_idle register_tracks)
  ultimately show ?thesis
    using assms(1) RegisterNext by (auto simp: refines_def Let_def)
next
  case (CompleteIndex i)
  let ?n = "cr_registered s" and ?D = "set (cr_completed s)" and ?k = "length (cr_marks s)"
  show ?thesis
  proof (cases "?k = ?n")
    case True
    then have "complete (offset_at base i) g (cr_committer s) = (cr_committer s, [])"
      using assms(1) by (intro complete_missing) (simp add: refines_def Let_def idle_def)
    with True assms CompleteIndex show ?thesis
      by (auto simp: refines_def Let_def)
  next
    case False
    then have h: "tracks g base mk ?n ?D ?k (cr_committer s)" "?n < 2 ^ 64" "?k < ?n"
      "{..<?k} \<subseteq> ?D" "?k \<notin> ?D" "?D \<subseteq> {..<?n}" "cr_marks s = map mk [0..<?k]"
      using assms(1) by (auto simp: refines_def Let_def)
    have i: "i < ?n" using assms(2) CompleteIndex by simp
    obtain k' where "?k \<le> k'" "k' \<le> ?n" "{..<k'} \<subseteq> insert i ?D"
      "snd (complete (offset_at base i) g (cr_committer s)) = map mk [?k..<k']"
      "let c' = fst (complete (offset_at base i) g (cr_committer s))
       in if k' = ?n then idle c' else k' \<notin> insert i ?D \<and> tracks g base mk ?n (insert i ?D) k' c'"
      using complete_tracks [OF h(1-5) i] by blast
    moreover from this have "cr_marks s @ map mk [?k..<k'] = map mk [0..<k']"
      by (metis h(7) le_add_diff_inverse map_append upt_add_eq_append zero_le)
    ultimately show ?thesis
      using h i CompleteIndex by (auto simp: refines_def Let_def split: if_splits)
  qed
next
  case (StaleComplete off g')
  have "complete off g' (cr_committer s) = (cr_committer s, [])"
  proof (cases "length (cr_marks s) = cr_registered s")
    case True
    then show ?thesis
      using assms(1) by (intro complete_missing) (simp add: refines_def Let_def idle_def)
  next
    case False
    then obtain D n k where t: "tracks g base mk n D k (cr_committer s)"
      using assms(1) by (auto simp: refines_def Let_def)
    with assms(2) StaleComplete show ?thesis
      by (intro complete_stale committer_generations_tracks [OF t]) (simp add: tracks_def)
  qed
  with assms StaleComplete show ?thesis by (simp add: refines_def)
next
  case (ObserveHighWater hw)
  have "tracks g base mk n D k (record_high_water_mark hw c) = tracks g base mk n D k c" for n D k c
    by (simp add: tracks_def record_high_water_mark_def)
  moreover have "idle (record_high_water_mark hw c) = idle c" for c :: "'a committer"
    by (simp add: idle_def record_high_water_mark_def)
  ultimately show ?thesis using assms ObserveHighWater by (simp add: refines_def Let_def)
qed

lemma run_event_registered:
  "cr_registered (run_event g base mk s e) =
     (if e = RegisterNext then Suc (cr_registered s) else cr_registered s)"
  by (cases e) (simp_all add: Let_def)

lemma run_events_refines:
  "refines g base mk s \<Longrightarrow> events_ok g (cr_registered s) es \<Longrightarrow> refines g base mk (run_events g base mk s es)"
proof (induction es arbitrary: s)
  case (Cons e es)
  then have "refines g base mk (run_event g base mk s e)" by (simp add: run_event_refines)
  moreover have "events_ok g (cr_registered (run_event g base mk s e)) es"
    using Cons.prems(2) by (simp add: run_event_registered)
  ultimately show ?case using Cons.IH by simp
qed simp

lemma refines_marks:
  assumes "refines g base mk s"
  shows "cr_marks s = map mk [0..<done_prefix (cr_completed s) (cr_registered s)]"
proof -
  have "done_prefix (cr_completed s) (cr_registered s) = length (cr_marks s)"
    using assms by (intro done_prefix_eqI) (auto simp: refines_def Let_def split: if_splits)
  with assms show ?thesis by (simp add: refines_def Let_def)
qed

section \<open>Properties\<close>

text \<open>
  C10. The ordered committer implements its contract: over any interleaving of consecutive offset
  registrations, completions of registered offsets in any order (repeated ones included), stale
  completions of other generations and high-water observations, the marks it has sent to Sarama are
  exactly those of the longest completed prefix of the registered offsets, in offset order.
\<close>

theorem ordered_commit_marks_longest_completed_prefix:
  assumes "events_ok g 0 es"
  shows "let s = run_events g base mk run_start es
         in cr_marks s = map mk [0..<done_prefix (cr_completed s) (cr_registered s)]"
  using run_events_refines [OF refines_start, of g es base mk] assms
  by (simp add: Let_def refines_marks run_start_def)

definition sample_events :: "commit_event list" where
  "sample_events =
     [RegisterNext, RegisterNext, CompleteIndex 1, StaleComplete 7 2, RegisterNext, CompleteIndex 0]"

theorem ordered_commit_marks_longest_completed_prefix_witness:
  "let s = run_events 1 10 (\<lambda>i. i) run_start sample_events
   in cr_marks s = map (\<lambda>i. i) [0..<done_prefix (cr_completed s) (cr_registered s)]"
  by (rule ordered_commit_marks_longest_completed_prefix) (simp add: sample_events_def)

text \<open>
  No offset is lost: when every registered offset has been completed, in whatever order, all of
  them have been marked, in offset order, and the committer is back in its initial, idle state.
\<close>

theorem ordered_commit_drains:
  assumes "events_ok g 0 es"
    and "set (cr_completed (run_events g base mk run_start es))
      = {..<cr_registered (run_events g base mk run_start es)}"
  shows "cr_marks (run_events g base mk run_start es)
      = map mk [0..<cr_registered (run_events g base mk run_start es)]
    \<and> idle (cr_committer (run_events g base mk run_start es))"
proof -
  let ?s = "run_events g base mk run_start es"
  have r: "refines g base mk ?s"
    using run_events_refines [OF refines_start, of g es base mk] assms(1) by (simp add: run_start_def)
  have "length (cr_marks ?s) = cr_registered ?s"
    using r assms(2) by (auto simp: refines_def Let_def split: if_splits)
  with r show ?thesis by (auto simp: refines_def Let_def)
qed

theorem ordered_commit_drains_witness:
  "let s = run_events 1 10 (\<lambda>i. i) run_start (sample_events @ [CompleteIndex 2])
   in cr_marks s = map (\<lambda>i. i) [0..<cr_registered s] \<and> idle (cr_committer s)"
  unfolding Let_def
  by (rule ordered_commit_drains) (auto simp: sample_events_def run_start_def Let_def lessThan_Suc)

text \<open>
  A closed Sarama generation marks nothing: after \<open>AbortGeneration g\<close> a late completion under
  \<open>g\<close> changes nothing and sends no mark, and neither does one after registration has moved the
  partition to another generation.
\<close>

theorem aborted_generation_marks_nothing:
  assumes "committer_inv c" and "g' \<noteq> g"
  shows "snd (complete off g (abort_generation g c)) = []
    \<and> snd (complete off g (register off' g' mark c)) = []"
proof
  show "snd (complete off g (abort_generation g c)) = []"
  proof (cases "oc_initialized c \<and> oc_generation c = g")
    case True
    then show ?thesis
      by (simp add: abort_generation_def reset_locked_new new_committer_def complete_missing)
  next
    case False
    then show ?thesis
      using assms(1) by (auto simp: abort_generation_def committer_inv_def complete_def split: option.splits)
  qed
next
  have "oc_generation (register off' g' mark c) = g'"
    using assms(1) by (auto simp: register_def Let_def committer_inv_def reset_locked_def)
  moreover have "committer_inv (register off' g' mark c)"
    by (rule committer_inv_register [OF assms(1)])
  ultimately show "snd (complete off g (register off' g' mark c)) = []"
    using assms(2) by (simp add: committer_inv_def complete_stale)
qed

theorem aborted_generation_marks_nothing_witness:
  "snd (complete 10 1 (abort_generation 1 (register 10 1 (Some 10) new_committer))) = ([] :: i64 list)
   \<and> snd (complete 10 1 (register 40 2 (Some 40) (register 10 1 (Some 10) new_committer))) = ([] :: i64 list)"
  by (rule aborted_generation_marks_nothing) (simp_all add: committer_inv_register)

lemma flush_marks_run:
  "\<exists>n sts. length sts = n \<and>
     (\<forall>i < n. map_of (oc_states c) (offset_at (oc_next_offset c) i) = Some (sts ! i) \<and> cs_done (sts ! i)) \<and>
     snd (flush c) = concat (map mark_list sts)"
proof (induction c rule: flush.induct)
  case (1 c)
  show ?case
  proof (cases "\<exists>st. map_of (oc_states c) (oc_next_offset c) = Some st \<and> cs_done st")
    case False
    then have "flush c = (c, [])" by (auto simp: flush.simps [of c] split: option.splits)
    then show ?thesis by (intro exI [of _ 0]) simp
  next
    case True
    then obtain st where st: "map_of (oc_states c) (oc_next_offset c) = Some st" "cs_done st" by blast
    then obtain sts where sts:
      "\<forall>i < length sts. map_of (oc_states (advance c)) (offset_at (oc_next_offset (advance c)) i)
          = Some (sts ! i) \<and> cs_done (sts ! i)"
      "snd (flush (advance c)) = concat (map mark_list sts)"
      using 1 by blast
    have later: "map_of (oc_states c) o' = Some x" if "map_of (oc_states (advance c)) o' = Some x" for o' x
      using that by (auto simp: advance_def AList.delete_conv' split: if_splits)
    have "snd (flush c) = concat (map mark_list (st # sts))"
      using st sts(2) by (simp add: flush.simps [of c] Let_def)
    moreover have "\<forall>i < length (st # sts).
        map_of (oc_states c) (offset_at (oc_next_offset c) i) = Some ((st # sts) ! i)
        \<and> cs_done ((st # sts) ! i)"
    proof (intro allI impI)
      fix i
      assume "i < length (st # sts)"
      then show "map_of (oc_states c) (offset_at (oc_next_offset c) i) = Some ((st # sts) ! i)
        \<and> cs_done ((st # sts) ! i)"
        using st sts(1) later
        by (cases i) (auto simp: offset_at_def advance_def add.assoc)
    qed
    ultimately show ?thesis by (intro exI [of _ "length (st # sts)"] exI [of _ "st # sts"]) simp
  qed
qed

definition completed_at :: "i64 \<Rightarrow> i64 \<Rightarrow> 'm committer \<Rightarrow> 'm commit_state option" where
  "completed_at off off' c =
     (case map_of (oc_states c) off' of
        None \<Rightarrow> None
      | Some st \<Rightarrow> if cs_done st \<or> off' = off then Some (st\<lparr>cs_done := True\<rparr>) else None)"

text \<open>
  Marks never skip an unfinished offset, without any assumption on how offsets were registered:
  whatever \<open>Complete\<close> marks is the gap-free run of offsets from the next offset on, each of them
  registered, completed and not yet marked.
\<close>

theorem complete_marks_contiguous_completed_run:
  "\<exists>sts. snd (complete off g c) = concat (map mark_list sts) \<and>
     (\<forall>i < length sts. completed_at off (offset_at (oc_next_offset c) i) c = Some (sts ! i))"
proof (cases "snd (complete off g c) = []")
  case True
  then show ?thesis by (intro exI [of _ "[]"]) simp
next
  case False
  then obtain st where st: "map_of (oc_states c) off = Some st" "cs_generation st = g" "oc_generation c = g"
    by (auto simp: complete_def split: option.splits if_splits)
  define c1 where "c1 = (if cs_done st then c
      else c\<lparr>oc_states := AList.update off (st\<lparr>cs_done := True\<rparr>) (oc_states c),
             oc_done_count := oc_done_count c + 1\<rparr>)"
  have marks: "snd (complete off g c) = snd (flush c1)"
    using st by (simp add: complete_def Let_def c1_def [symmetric])
  have "completed_at off o' c = Some x" if "map_of (oc_states c1) o' = Some x" "cs_done x" for o' x
    using that st by (auto simp: completed_at_def c1_def AList.update_conv' split: if_splits)
  then show ?thesis
    using flush_marks_run [of c1] marks by (auto simp: c1_def split: if_splits)
qed

theorem complete_marks_contiguous_completed_run_witness:
  "\<exists>sts. snd (complete 7 1 (register 8 1 (Some ''b'') (register 7 1 (Some ''a'') new_committer)))
        = concat (map mark_list sts) \<and>
     (\<forall>i < length sts. completed_at 7 (offset_at (oc_next_offset
          (register 8 1 (Some ''b'') (register 7 1 (Some ''a'') new_committer))) i)
        (register 8 1 (Some ''b'') (register 7 1 (Some ''a'') new_committer)) = Some (sts ! i))"
  by (rule complete_marks_contiguous_completed_run)

datatype 'm committer_op =
    OpRegister i64 i32 "'m option"
  | OpComplete i64 i32
  | OpAbort i32
  | OpHighWater i64

fun apply_op :: "'m committer_op \<Rightarrow> 'm committer \<Rightarrow> 'm committer" where
  "apply_op (OpRegister off g mark) c = register off g mark c"
| "apply_op (OpComplete off g) c = fst (complete off g c)"
| "apply_op (OpAbort g) c = abort_generation g c"
| "apply_op (OpHighWater hw) c = record_high_water_mark hw c"

text \<open>
  Every committer that the code can build satisfies the invariant that its counters rely on:
  distinct offsets, \<open>doneCount\<close> equal to the number of completed entries, every entry of the active
  generation, and no entry when uninitialized.
\<close>

theorem committer_invariant: "committer_inv (fold apply_op ops new_committer)"
proof -
  have step: "committer_inv c \<Longrightarrow> committer_inv (apply_op op c)" for op and c :: "'a committer"
    by (cases op) (simp_all add: committer_inv_register committer_inv_complete committer_inv_abort
        committer_inv_high_water)
  have "committer_inv c \<Longrightarrow> committer_inv (fold apply_op ops c)" for c :: "'a committer"
    by (induction ops arbitrary: c) (simp_all add: step)
  then show ?thesis by simp
qed

section \<open>Keys of the registry\<close>

lemma colon_not_in_format_int: "CHR '':'' \<notin> set (format_int i)"
proof -
  have "CHR '':'' \<notin> set (dec_nat n)" for n
    using dec_nat_digits [of n] by (auto simp: is_digit_def)
  then show ?thesis by (simp add: format_int_def)
qed

lemma takeWhile_rev_commit_key:
  "takeWhile (\<lambda>c. c \<noteq> CHR '':'') (rev (commit_key topic part)) = rev (format_int (sint part))"
proof -
  have "rev (commit_key topic part) = rev (format_int (sint part)) @ CHR '':'' # rev topic"
    by (simp add: commit_key_def)
  moreover have "takeWhile (\<lambda>c. c \<noteq> CHR '':'') (rev (format_int (sint part)) @ CHR '':'' # rev topic)
      = rev (format_int (sint part)) @ takeWhile (\<lambda>c. c \<noteq> CHR '':'') (CHR '':'' # rev topic)"
    using colon_not_in_format_int by (intro takeWhile_append2) auto
  ultimately show ?thesis by simp
qed

lemma commit_key_topic:
  "take (length (commit_key topic part) - length (format_int (sint part)) - 1) (commit_key topic part) = topic"
  by (simp add: commit_key_def)

lemma foldl_word_digits:
  "foldl (\<lambda>p c. p * 10 + of_nat (digit_value c)) (of_nat a :: i32) cs
     = of_nat (foldl (\<lambda>p c. 10 * p + digit_value c) a cs)"
proof (induction cs arbitrary: a)
  case (Cons c cs)
  have step: "of_nat a * 10 + of_nat (digit_value c) = (of_nat (10 * a + digit_value c) :: i32)"
    by simp
  show ?case by (simp only: foldl.simps step Cons)
qed simp

text \<open>
  Parsing a registry key gives back the topic and partition it was built from, for every
  non-empty topic (colons in it included) and every non-negative partition.
\<close>

theorem split_commit_key_roundtrip:
  assumes "topic \<noteq> []" and "0 \<le> sint part"
  shows "split_commit_key (commit_key topic part) = (topic, part, True)"
proof -
  have f: "format_int (sint part) = dec_nat (nat (sint part))"
    using assms(2) by (simp add: format_int_def)
  have "foldl (\<lambda>p c. p * 10 + of_nat (digit_value c)) (of_nat 0 :: i32) (dec_nat (nat (sint part)))
      = of_nat (nat (sint part))"
    by (simp only: foldl_word_digits foldl_dec_nat)
  also have "\<dots> = part" using assms(2) by simp
  finally have v: "foldl (\<lambda>p c. p * 10 + of_nat (digit_value c)) (0 :: i32) (dec_nat (nat (sint part))) = part"
    by simp
  have d: "list_all is_digit (dec_nat (nat (sint part)))"
    using dec_nat_digits by (simp add: list_all_iff)
  have "CHR '':'' \<in> set (commit_key topic part)" by (simp add: commit_key_def)
  then show ?thesis
    using assms(1) commit_key_topic [of topic part] d v
    by (simp add: split_commit_key_def takeWhile_rev_commit_key Let_def f)
qed

theorem split_commit_key_roundtrip_witness:
  "split_commit_key (commit_key ''analytics:events'' 12) = (''analytics:events'', 12, True)"
  by (rule split_commit_key_roundtrip) simp_all

lemma commit_key_inj: "commit_key t p = commit_key t' p' \<Longrightarrow> t = t' \<and> p = p'"
proof -
  assume eq: "commit_key t p = commit_key t' p'"
  then have "rev (format_int (sint p)) = rev (format_int (sint p'))"
    by (metis takeWhile_rev_commit_key)
  then have "sint p = sint p'" by (simp add: format_int_inj)
  then have "p = p'" by (rule signed_word_eqI)
  with eq show ?thesis by (simp add: commit_key_def)
qed

text \<open>
  Distinct topic-partitions have distinct registry keys, so they never share a committer, and
  two lookups of one topic-partition return the same committer.
\<close>

theorem manager_isolates_partitions:
  assumes "(t, p) \<noteq> (t', p')"
  shows "fst (manager_get t' p' (manager_put t p c m)) = fst (manager_get t' p' m)
    \<and> fst (manager_get t p (manager_put t p c m)) = c
    \<and> fst (manager_get t p (snd (manager_get t p m))) = fst (manager_get t p m)"
proof -
  have "commit_key t p \<noteq> commit_key t' p'" using assms commit_key_inj by blast
  then show ?thesis
    by (auto simp: manager_get_def manager_put_def AList.update_conv' split: option.splits)
qed

theorem manager_isolates_partitions_witness:
  "fst (manager_get ''a:1'' 2 (manager_put ''a'' 12 (register 3 1 (Some ()) new_committer) []))
      = fst (manager_get ''a:1'' 2 ([] :: unit commit_manager))
   \<and> fst (manager_get ''a'' 12 (manager_put ''a'' 12 (register 3 1 (Some ()) new_committer) []))
      = register 3 1 (Some ()) new_committer
   \<and> fst (manager_get ''a'' 12 (snd (manager_get ''a'' 12 ([] :: unit commit_manager))))
      = fst (manager_get ''a'' 12 ([] :: unit commit_manager))"
  by (rule manager_isolates_partitions) simp

end
