(* ===== verification/Kafka_Gate.thy ===== *)
theory Kafka_Gate
  imports Kafka_Commit
begin

text \<open>
  Package \<open>eventbus/kafka\<close>, file \<open>completion_gate.go\<close>: the gate that completes one Kafka offset
  after the asynchronous work of its message has ended, and the tracker that counts open gates and
  unfinished tasks for the pressure guard.

  The counters are machine words updated by atomic additions. A gate shares the tracker and the
  partition's committer with every other gate; both are in the record \<open>pipeline\<close>, together with
  the log of the marks sent so far. A nil gate or tracker pointer is \<^const>\<open>None\<close>.

  The lemmas show that a gate completes its offset at most once, that it does so exactly when its
  outstanding tasks drop to zero, and that the tracker conserves created gates.
\<close>

section \<open>The tracker\<close>

record gate_tracker =
  gt_in_flight :: i64
  gt_waiting :: i64
  gt_completed :: i64

definition new_tracker :: gate_tracker where
  "new_tracker = \<lparr>gt_in_flight = 0, gt_waiting = 0, gt_completed = 0\<rparr>"

definition track_gate_created :: "gate_tracker \<Rightarrow> gate_tracker" where
  "track_gate_created t = t\<lparr>gt_in_flight := gt_in_flight t + 1\<rparr>"

definition track_task_added :: "gate_tracker \<Rightarrow> gate_tracker" where
  "track_task_added t = t\<lparr>gt_waiting := gt_waiting t + 1\<rparr>"

definition track_task_done :: "gate_tracker \<Rightarrow> gate_tracker" where
  "track_task_done t = t\<lparr>gt_waiting := gt_waiting t - 1\<rparr>"

definition track_completed :: "gate_tracker \<Rightarrow> gate_tracker" where
  "track_completed t =
     t\<lparr>gt_in_flight := gt_in_flight t - 1, gt_completed := gt_completed t + 1\<rparr>"

definition tracker_snapshot :: "gate_tracker option \<Rightarrow> gate_tracker" where
  "tracker_snapshot t = (case t of None \<Rightarrow> new_tracker | Some t \<Rightarrow> t)"

lemmas tracker_defs =
  track_gate_created_def track_task_added_def track_task_done_def track_completed_def

section \<open>Gates\<close>

record gate =
  ga_offset :: i64
  ga_generation :: i32
  ga_remaining :: i32
  ga_completed :: bool    \<comment> \<open>whether \<open>completedOnce\<close> has run\<close>

record 'm pipeline =
  pl_tracker :: "gate_tracker option"
  pl_committer :: "'m committer"
  pl_marks :: "'m list"

definition on_tracker :: "(gate_tracker \<Rightarrow> gate_tracker) \<Rightarrow> 'm pipeline \<Rightarrow> 'm pipeline" where
  "on_tracker f p = p\<lparr>pl_tracker := map_option f (pl_tracker p)\<rparr>"

definition new_gate :: "i64 \<Rightarrow> i32 \<Rightarrow> 'm pipeline \<Rightarrow> gate \<times> 'm pipeline" where
  "new_gate offset generation p =
     (\<lparr>ga_offset = offset, ga_generation = generation, ga_remaining = 0, ga_completed = False\<rparr>,
      on_tracker track_gate_created p)"

definition gate_complete :: "gate \<Rightarrow> 'm pipeline \<Rightarrow> gate \<times> 'm pipeline" where
  "gate_complete g p =
     (if ga_completed g then (g, p)
      else
        let p1 = on_tracker track_completed p;
            r = complete (ga_offset g) (ga_generation g) (pl_committer p1)
        in (g\<lparr>ga_completed := True\<rparr>,
            p1\<lparr>pl_committer := fst r, pl_marks := pl_marks p1 @ snd r\<rparr>))"

definition add_task :: "gate option \<Rightarrow> 'm pipeline \<Rightarrow> gate option \<times> 'm pipeline" where
  "add_task go p =
     (case go of
        None \<Rightarrow> (None, p)
      | Some g \<Rightarrow> (Some (g\<lparr>ga_remaining := ga_remaining g + 1\<rparr>), on_tracker track_task_added p))"

definition task_done :: "gate option \<Rightarrow> 'm pipeline \<Rightarrow> gate option \<times> 'm pipeline" where
  "task_done go p =
     (case go of
        None \<Rightarrow> (None, p)
      | Some g \<Rightarrow>
          let g1 = g\<lparr>ga_remaining := ga_remaining g - 1\<rparr>;
              p1 = on_tracker track_task_done p
          in if ga_remaining g1 = 0
             then apfst Some (gate_complete g1 p1)
             else (Some g1, p1))"

definition no_async_task_complete_now :: "gate option \<Rightarrow> 'm pipeline \<Rightarrow> gate option \<times> 'm pipeline" where
  "no_async_task_complete_now go p =
     (case go of
        None \<Rightarrow> (None, p)
      | Some g \<Rightarrow>
          if ga_remaining g = 0 then apfst Some (gate_complete g p) else (Some g, p))"

lemmas gate_defs = new_gate_def gate_complete_def add_task_def task_done_def
  no_async_task_complete_now_def on_tracker_def tracker_defs

section \<open>Sequences of gate operations\<close>

datatype gate_op = AddTask | TaskDone | NoAsync

fun gate_step :: "gate_op \<Rightarrow> gate option \<times> 'm pipeline \<Rightarrow> gate option \<times> 'm pipeline" where
  "gate_step AddTask (g, p) = add_task g p"
| "gate_step TaskDone (g, p) = task_done g p"
| "gate_step NoAsync (g, p) = no_async_task_complete_now g p"

text \<open>Tasks outstanding after a sequence of operations on a fresh gate.\<close>

fun outstanding :: "gate_op list \<Rightarrow> int" where
  "outstanding [] = 0"
| "outstanding (AddTask # ops) = outstanding ops + 1"
| "outstanding (TaskDone # ops) = outstanding ops - 1"
| "outstanding (NoAsync # ops) = outstanding ops"

lemma outstanding_append [simp]: "outstanding (xs @ ys) = outstanding xs + outstanding ys"
  by (induction xs rule: outstanding.induct) simp_all

lemma gate_step_Some: "\<exists>g' p'. gate_step op (Some g, p) = (Some g', p') \<and> ga_offset g' = ga_offset g
    \<and> ga_generation g' = ga_generation g"
  by (cases op) (auto simp: gate_defs Let_def)

lemma gate_step_remaining:
  "gate_step op (Some g, p) = (Some g', p') \<Longrightarrow>
     ga_remaining g' = ga_remaining g + of_int (outstanding [op])"
  by (cases op) (auto simp: gate_defs Let_def split: if_splits)

lemma gate_run_remaining:
  "fold gate_step ops (Some g, p) = (Some g', p') \<Longrightarrow>
     ga_remaining g' = ga_remaining g + of_int (outstanding ops)"
proof (induction ops arbitrary: g p)
  case (Cons op ops)
  obtain g1 p1 where s: "gate_step op (Some g, p) = (Some g1, p1)"
    using gate_step_Some by blast
  with Cons have "ga_remaining g' = ga_remaining g1 + of_int (outstanding ops)" by simp
  with gate_step_remaining [OF s] show ?case
    by (cases op) (simp_all add: algebra_simps)
qed simp

text \<open>Completion is idempotent, and open plus completed gates are conserved.\<close>

definition tracker_total :: "'m pipeline \<Rightarrow> i64" where
  "tracker_total p = gt_in_flight (tracker_snapshot (pl_tracker p)) + gt_completed (tracker_snapshot (pl_tracker p))"

lemma gate_step_account:
  assumes "gate_step op (Some g, p) = (Some g', p')"
  shows "(ga_completed g \<longrightarrow> ga_completed g' \<and> pl_committer p' = pl_committer p \<and> pl_marks p' = pl_marks p)
    \<and> (\<not> ga_completed g' \<longrightarrow> pl_committer p' = pl_committer p \<and> pl_marks p' = pl_marks p)
    \<and> tracker_total p' = tracker_total p"
  using assms
  by (cases op; cases "pl_tracker p")
     (auto simp: gate_defs Let_def tracker_total_def tracker_snapshot_def new_tracker_def split: if_splits)

lemma gate_step_not_completed:
  assumes "gate_step op (Some g, p) = (Some g', p')" and "\<not> ga_completed g"
    and "op = AddTask \<or> ga_remaining g' \<noteq> 0"
  shows "\<not> ga_completed g'"
  using assms by (cases op) (auto simp: gate_defs Let_def split: if_splits)

lemma outstanding_bound: "\<bar>outstanding ops\<bar> \<le> int (length ops)"
  by (induction ops rule: outstanding.induct) auto

lemma outstanding_word_nonzero:
  assumes "0 < outstanding ops" and "length ops < 2 ^ 31"
  shows "(of_int (outstanding ops) :: i32) \<noteq> 0"
proof -
  have "outstanding ops < 2 ^ 31" using outstanding_bound [of ops] assms(2) by simp
  then have "outstanding ops mod 2 ^ 32 = outstanding ops" using assms(1) by simp
  then have "uint (of_int (outstanding ops) :: i32) = outstanding ops"
    by (simp add: uint_word_of_int)
  with assms(1) show ?thesis by (metis less_irrefl unsigned_0)
qed

lemma gate_run_busy:
  assumes "\<not> ga_completed g" and "ga_remaining g = 0" and "length ops < 2 ^ 31"
    and "\<forall>k. 0 < k \<and> k \<le> length ops \<longrightarrow> 0 < outstanding (take k ops)"
  shows "\<exists>g' p'. fold gate_step ops (Some g, p) = (Some g', p') \<and> \<not> ga_completed g' \<and>
      ga_offset g' = ga_offset g \<and> ga_generation g' = ga_generation g \<and>
      ga_remaining g' = of_int (outstanding ops) \<and>
      pl_committer p' = pl_committer p \<and> pl_marks p' = pl_marks p"
  using assms(3,4)
proof (induction ops rule: rev_induct)
  case Nil
  with assms(1,2) show ?case by simp
next
  case (snoc op ops)
  have "\<forall>k. 0 < k \<and> k \<le> length ops \<longrightarrow> 0 < outstanding (take k ops)"
  proof (intro allI impI)
    fix k
    assume k: "0 < k \<and> k \<le> length ops"
    then have "take k (ops @ [op]) = take k ops" by simp
    with snoc.prems(2) k show "0 < outstanding (take k ops)"
      by (metis le_Suc_eq length_append_singleton)
  qed
  with snoc obtain g1 p1 where r: "fold gate_step ops (Some g, p) = (Some g1, p1)"
    "\<not> ga_completed g1" "ga_offset g1 = ga_offset g" "ga_generation g1 = ga_generation g"
    "ga_remaining g1 = of_int (outstanding ops)" "pl_committer p1 = pl_committer p"
    "pl_marks p1 = pl_marks p"
    by auto
  obtain g' p' where s: "gate_step op (Some g1, p1) = (Some g', p')"
    "ga_offset g' = ga_offset g1" "ga_generation g' = ga_generation g1"
    using gate_step_Some by blast
  have rem: "ga_remaining g' = of_int (outstanding (ops @ [op]))"
    using gate_step_remaining [OF s(1)] r(5) by simp
  have "0 < outstanding (ops @ [op])"
    using snoc.prems(2) by (metis length_append_singleton order_refl take_all zero_less_Suc)
  then have "ga_remaining g' \<noteq> 0"
    using rem outstanding_word_nonzero [of "ops @ [op]"] snoc.prems(1) by simp
  then have "\<not> ga_completed g'" using gate_step_not_completed [OF s(1) r(2)] by simp
  then show ?case using r s rem gate_step_account [OF s(1)] by simp
qed

section \<open>Properties\<close>

text \<open>
  A gate completes its offset exactly when its work drains: while tasks are outstanding after
  every operation nothing is committed, and the operation that brings them to zero hands the
  offset to the partition's committer, exactly once.
\<close>

theorem gate_completes_when_drained:
  assumes "\<not> ga_completed g" and "ga_remaining g = 0" and "length ops < 2 ^ 31"
    and "\<forall>k. 0 < k \<and> k \<le> length ops \<longrightarrow> 0 < outstanding (take k ops)"
    and "outstanding (ops @ [op]) = 0" and "ops \<noteq> []"
  shows "(\<exists>g' p'. fold gate_step ops (Some g, p) = (Some g', p') \<and> \<not> ga_completed g'
        \<and> pl_marks p' = pl_marks p)
    \<and> (\<exists>g' p'. fold gate_step (ops @ [op]) (Some g, p) = (Some g', p') \<and> ga_completed g'
        \<and> pl_committer p' = fst (complete (ga_offset g) (ga_generation g) (pl_committer p))
        \<and> pl_marks p' = pl_marks p @ snd (complete (ga_offset g) (ga_generation g) (pl_committer p)))"
proof -
  obtain g1 p1 where r: "fold gate_step ops (Some g, p) = (Some g1, p1)"
    "\<not> ga_completed g1" "ga_offset g1 = ga_offset g" "ga_generation g1 = ga_generation g"
    "ga_remaining g1 = of_int (outstanding ops)" "pl_committer p1 = pl_committer p"
    "pl_marks p1 = pl_marks p"
    using gate_run_busy [OF assms(1-4), of p] by blast
  have "0 < outstanding ops"
    using assms(4) spec [OF assms(4), of "length ops"] assms(6) by simp
  with assms(5) have op: "op = TaskDone" "outstanding ops = 1"
    by (cases op; simp)+
  with r show ?thesis by (simp add: gate_defs Let_def)
qed

definition sample_pipeline :: "i64 pipeline" where
  "sample_pipeline =
     \<lparr>pl_tracker = Some new_tracker, pl_committer = register 10 1 (Some 10) new_committer, pl_marks = []\<rparr>"

definition sample_gate :: gate where
  "sample_gate = \<lparr>ga_offset = 10, ga_generation = 1, ga_remaining = 0, ga_completed = False\<rparr>"

theorem gate_completes_when_drained_witness:
  "(\<exists>g' p'. fold gate_step [AddTask, AddTask, NoAsync, TaskDone] (Some sample_gate, sample_pipeline)
        = (Some g', p') \<and> \<not> ga_completed g' \<and> pl_marks p' = pl_marks sample_pipeline)
   \<and> (\<exists>g' p'. fold gate_step ([AddTask, AddTask, NoAsync, TaskDone] @ [TaskDone])
          (Some sample_gate, sample_pipeline) = (Some g', p') \<and> ga_completed g'
        \<and> pl_committer p' = fst (complete (ga_offset sample_gate) (ga_generation sample_gate)
            (pl_committer sample_pipeline))
        \<and> pl_marks p' = pl_marks sample_pipeline @ snd (complete (ga_offset sample_gate)
            (ga_generation sample_gate) (pl_committer sample_pipeline)))"
proof (rule gate_completes_when_drained)
  show "\<forall>k. 0 < k \<and> k \<le> length [AddTask, AddTask, NoAsync, TaskDone] \<longrightarrow>
      0 < outstanding (take k [AddTask, AddTask, NoAsync, TaskDone])"
    by (auto simp: le_Suc_eq)
qed (simp_all add: sample_gate_def)

text \<open>
  Once a gate has completed, no later operation on it commits or marks anything, and the tracker
  conserves gates: every sequence of operations leaves open plus completed gates unchanged.
\<close>

theorem gate_completes_at_most_once:
  assumes "ga_completed g" and "fold gate_step ops (Some g, p) = (Some g', p')"
  shows "ga_completed g' \<and> pl_committer p' = pl_committer p \<and> pl_marks p' = pl_marks p
    \<and> tracker_total p' = tracker_total p"
  using assms
proof (induction ops arbitrary: g p)
  case (Cons op ops)
  obtain g1 p1 where s: "gate_step op (Some g, p) = (Some g1, p1)"
    using gate_step_Some by blast
  have "ga_completed g1" "pl_committer p1 = pl_committer p" "pl_marks p1 = pl_marks p"
    "tracker_total p1 = tracker_total p"
    using gate_step_account [OF s] Cons.prems(1) by blast+
  moreover have "fold gate_step ops (Some g1, p1) = (Some g', p')"
    using Cons.prems(2) s by simp
  ultimately show ?case using Cons.IH by metis
qed simp

theorem gate_completes_at_most_once_witness:
  "\<exists>g' p'. fold gate_step [NoAsync, AddTask, TaskDone] (Some (sample_gate\<lparr>ga_completed := True\<rparr>), sample_pipeline)
       = (Some g', p')
     \<and> (ga_completed g' \<and> pl_committer p' = pl_committer sample_pipeline
        \<and> pl_marks p' = pl_marks sample_pipeline \<and> tracker_total p' = tracker_total sample_pipeline)"
proof -
  obtain g' p' where r: "fold gate_step [NoAsync, AddTask, TaskDone]
      (Some (sample_gate\<lparr>ga_completed := True\<rparr>), sample_pipeline) = (Some g', p')"
    by (simp add: gate_defs Let_def sample_gate_def)
  show ?thesis
    using r gate_completes_at_most_once [OF _ r] by (intro exI [of _ g'] exI [of _ p']) simp
qed

end
