(* ===== verification/Contracts.thy ===== *)
theory Contracts
  imports Go_Prelude
begin

text \<open>
  The data that crosses package boundaries: the event envelope of package \<open>contracts\<close>, the queue
  message and consumer group of package \<open>eventbus\<close>, property values (Go's \<open>any\<close> as the collect
  protocol sees it), and the errors the packages return, with the \<open>errors.As\<close> and \<open>errors.Is\<close>
  searches the callers make.
\<close>

section \<open>Property values\<close>

text \<open>
  The dynamic types the code switches on. \<open>VOther\<close> is every other dynamic type (nested objects,
  arrays, structs), by name; \<open>VNumber\<close> is \<open>json.Number\<close>, an unparsed numeral.
\<close>

datatype int_kind = KInt | KInt8 | KInt16 | KInt32 | KInt64 | KUint | KUint8 | KUint16 | KUint32 | KUint64

datatype prop_value =
    VNull
  | VBool bool
  | VInt int_kind int
  | VString string
  | VFloat32 go_float
  | VFloat64 go_float
  | VNumber string
  | VOther string

type_synonym props = "(string, prop_value) gomap"

section \<open>The event envelope\<close>

record event_envelope =
  env_id :: string
  env_tenant_id :: string
  env_project_id :: string
  env_source_id :: string
  env_source_type :: string
  env_event_name :: string
  env_distinct_id :: string
  env_session_id :: string
  env_visit_id :: string
  env_event_time :: gotime
  env_received_at :: gotime
  env_properties :: props
  env_user_props :: props
  env_source :: string

definition empty_envelope :: event_envelope where
  "empty_envelope =
     \<lparr>env_id = [], env_tenant_id = [], env_project_id = [], env_source_id = [],
      env_source_type = [], env_event_name = [], env_distinct_id = [], env_session_id = [],
      env_visit_id = [], env_event_time = zero_time, env_received_at = zero_time,
      env_properties = None, env_user_props = None, env_source = []\<rparr>"

section \<open>Errors\<close>

text \<open>
  One constructor per kind of error value: \<open>errors.New\<close> and formatted errors by their text, the
  two typed errors of package \<open>collect\<close>, \<open>fmt.Errorf\<close> with \<open>%w\<close> after a prefix, \<open>errors.Join\<close>
  of two errors, errors that wrap \<open>storage.ErrInvalidEventQuery\<close>, the errors of a context, and
  errors that come from a dependency.
\<close>

datatype go_error =
    ErrText string
  | ErrValidation string string
  | ErrFiltered string event_envelope
  | ErrWrap string go_error
  | ErrJoin go_error go_error
  | ErrInvalidQuery string
  | ErrCanceled
  | ErrDeadlineExceeded
  | ErrExternal string

fun error_text :: "go_error \<Rightarrow> string" where
  "error_text (ErrText s) = s"
| "error_text (ErrValidation field reason) =
     (if field = [] then reason else field @ '': '' @ reason)"
| "error_text (ErrFiltered reason _) =
     (if reason = [] then ''collect traffic filtered'' else ''collect traffic filtered: '' @ reason)"
| "error_text (ErrWrap p e) = p @ error_text e"
| "error_text (ErrJoin a b) = error_text a @ [CHR 0x0A] @ error_text b"
| "error_text (ErrInvalidQuery s) = ''invalid event query: '' @ s"
| "error_text ErrCanceled = ''context canceled''"
| "error_text ErrDeadlineExceeded = ''context deadline exceeded''"
| "error_text (ErrExternal s) = s"

text \<open>\<open>errors.As(err, &filtered)\<close> and \<open>errors.As(err, &validation)\<close>: depth first, left to right.\<close>

fun as_filtered :: "go_error \<Rightarrow> (string \<times> event_envelope) option" where
  "as_filtered (ErrFiltered reason e) = Some (reason, e)"
| "as_filtered (ErrWrap _ e) = as_filtered e"
| "as_filtered (ErrJoin a b) = (case as_filtered a of Some x \<Rightarrow> Some x | None \<Rightarrow> as_filtered b)"
| "as_filtered _ = None"

fun as_validation :: "go_error \<Rightarrow> (string \<times> string) option" where
  "as_validation (ErrValidation field reason) = Some (field, reason)"
| "as_validation (ErrWrap _ e) = as_validation e"
| "as_validation (ErrJoin a b) = (case as_validation a of Some x \<Rightarrow> Some x | None \<Rightarrow> as_validation b)"
| "as_validation _ = None"

fun is_canceled :: "go_error \<Rightarrow> bool" where
  "is_canceled ErrCanceled = True"
| "is_canceled (ErrWrap _ e) = is_canceled e"
| "is_canceled (ErrJoin a b) = (is_canceled a \<or> is_canceled b)"
| "is_canceled _ = False"

fun is_invalid_query :: "go_error \<Rightarrow> bool" where
  "is_invalid_query (ErrInvalidQuery _) = True"
| "is_invalid_query (ErrWrap _ e) = is_invalid_query e"
| "is_invalid_query (ErrJoin a b) = (is_invalid_query a \<or> is_invalid_query b)"
| "is_invalid_query _ = False"

text \<open>The early return \<open>if err != nil { return err }\<close>, in front of what follows it.\<close>

definition guard_err :: "go_error option \<Rightarrow> (go_error + 'a) \<Rightarrow> go_error + 'a" where
  "guard_err e k = (case e of Some x \<Rightarrow> Inl x | None \<Rightarrow> k)"

lemma guard_err_Inr [simp]: "guard_err e k = Inr y \<longleftrightarrow> e = None \<and> k = Inr y"
  by (simp add: guard_err_def split: option.splits)

lemma guard_err_Inl: "guard_err e k = Inl y \<longleftrightarrow> e = Some y \<or> e = None \<and> k = Inl y"
  by (simp add: guard_err_def split: option.splits)

lemma guard_err_None [simp]: "guard_err None k = k"
  by (simp add: guard_err_def)

lemma guard_err_Some [simp]: "guard_err (Some e) k = Inl e"
  by (simp add: guard_err_def)

text \<open>The first failing check of a list of checks, each with its message.\<close>

fun first_error :: "(bool \<times> string) list \<Rightarrow> go_error option" where
  "first_error [] = None"
| "first_error ((failed, reason) # checks) = (if failed then Some (ErrText reason) else first_error checks)"

lemma first_error_None [simp]: "first_error checks = None \<longleftrightarrow> (\<forall>(failed, reason) \<in> set checks. \<not> failed)"
  by (induction checks rule: first_error.induct) auto

text \<open>A check that runs only when the one before it passed.\<close>

definition or_else :: "go_error option \<Rightarrow> go_error option \<Rightarrow> go_error option" where
  "or_else e f = (case e of None \<Rightarrow> f | Some x \<Rightarrow> Some x)"

lemma or_else_None [simp]: "or_else e f = None \<longleftrightarrow> e = None \<and> f = None"
  by (simp add: or_else_def split: option.splits)

section \<open>Messages and consumer groups\<close>

record consumer_group =
  cg_name :: string
  cg_consumer :: string

record message =
  msg_id :: string
  msg_topic :: string
  msg_partition :: i32
  msg_offset :: i64
  msg_key :: string
  msg_attempt :: int
  msg_envelope :: event_envelope

end
