(* ===== verification/Kafka_Options.thy ===== *)
theory Kafka_Options
  imports Contracts
begin

text \<open>
  Package \<open>eventbus/kafka\<close>, files \<open>options.go\<close> and the configuration half of \<open>bus.go\<close>: the
  provider's options, their validation and defaults, the translation into Sarama's configuration,
  and the Kafka record key of an event.

  A pointer field (\<open>*int\<close>, \<open>*time.Duration\<close>, \<open>*bool\<close>) is an \<open>option\<close>. The TLS configuration is
  opaque (type \<open>'tls\<close>). The argument \<open>uni\<close> is the Unicode path of \<open>strings.ToLower\<close>.

  The lemmas show that \<open>normalize_options\<close> returns only options that satisfy \<open>options_ok\<close>, that it
  is idempotent, when it rejects, and what the derived Sarama configuration guarantees.
\<close>

section \<open>Options\<close>

definition default_client_id :: string where "default_client_id = ''analytics-core-eventbus''"
definition default_topic :: string where "default_topic = ''analytics.events''"
definition default_dead_letter_topic :: string where
  "default_dead_letter_topic = ''analytics.events.dead''"
definition default_max_attempts :: int where "default_max_attempts = 5"
definition default_retry_backoff :: int where "default_retry_backoff = 250 * 1000000"
definition default_workers :: int where "default_workers = 100"
definition default_queue_size :: int where "default_queue_size = 200"
definition default_commit_interval :: int where "default_commit_interval = second"
definition producer_acks_all :: string where "producer_acks_all = ''all''"
definition producer_acks_leader :: string where "producer_acks_leader = ''leader''"
definition producer_acks_none :: string where "producer_acks_none = ''none''"
definition default_producer_retry_max :: int where "default_producer_retry_max = 5"
definition default_producer_retry_backoff :: int where
  "default_producer_retry_backoff = 100 * 1000000"
definition sasl_mechanism_plain :: string where "sasl_mechanism_plain = ''plain''"

lemmas option_defaults =
  default_client_id_def default_topic_def default_dead_letter_topic_def default_max_attempts_def
  default_retry_backoff_def default_workers_def default_queue_size_def default_commit_interval_def
  producer_acks_all_def producer_acks_leader_def producer_acks_none_def
  default_producer_retry_max_def default_producer_retry_backoff_def sasl_mechanism_plain_def

record 'tls kafka_options =
  ko_brokers :: "string list"
  ko_topic :: string
  ko_dead_letter_topic :: string
  ko_client_id :: string
  ko_max_attempts :: int
  ko_retry_backoff :: int
  ko_workers :: int
  ko_queue_size :: int
  ko_commit_interval :: int
  ko_producer_acks :: string
  ko_producer_retry_max :: "int option"
  ko_producer_retry_backoff :: "int option"
  ko_flush_bytes :: int
  ko_flush_messages :: int
  ko_flush_frequency :: int
  ko_flush_max_messages :: int
  ko_idempotent :: bool
  ko_tls_enabled :: bool
  ko_tls_config :: "'tls option"
  ko_sasl_enabled :: bool
  ko_sasl_mechanism :: string
  ko_sasl_username :: string
  ko_sasl_password :: string
  ko_sasl_handshake :: "bool option"

definition normalize_sasl_mechanism :: "(string \<Rightarrow> string) \<Rightarrow> string \<Rightarrow> string" where
  "normalize_sasl_mechanism uni mechanism =
     (let m = to_lower uni (trim_space mechanism)
      in if m \<in> {[], sasl_mechanism_plain, ''plaintext'', ''sasl_plaintext''}
         then sasl_mechanism_plain else m)"

text \<open>The first half of \<open>normalize\<close>: string inputs and numeric defaults.\<close>

definition trim_brokers :: "string list \<Rightarrow> string list" where
  "trim_brokers bs = filter (\<lambda>b. b \<noteq> []) (map trim_space bs)"

definition fill_defaults :: "'tls kafka_options \<Rightarrow> 'tls kafka_options" where
  "fill_defaults o0 =
     (let o1 = o0\<lparr>ko_topic := if trim_space (ko_topic o0) = [] then default_topic else ko_topic o0,
                  ko_dead_letter_topic := if trim_space (ko_dead_letter_topic o0) = []
                    then default_dead_letter_topic else ko_dead_letter_topic o0,
                  ko_client_id := if trim_space (ko_client_id o0) = []
                    then default_client_id else ko_client_id o0,
                  ko_max_attempts := if ko_max_attempts o0 \<le> 0
                    then default_max_attempts else ko_max_attempts o0\<rparr>;
          o2 = o1\<lparr>ko_retry_backoff := if ko_retry_backoff o1 < 0 then 0 else ko_retry_backoff o1\<rparr>;
          o3 = o2\<lparr>ko_retry_backoff := if ko_retry_backoff o2 = 0
                    then default_retry_backoff else ko_retry_backoff o2,
                  ko_workers := if ko_workers o2 \<le> 0 then default_workers else ko_workers o2,
                  ko_queue_size := if ko_queue_size o2 \<le> 0
                    then default_queue_size else ko_queue_size o2\<rparr>;
          o4 = o3\<lparr>ko_queue_size := if ko_queue_size o3 < ko_workers o3
                    then ko_workers o3 else ko_queue_size o3,
                  ko_commit_interval := if ko_commit_interval o3 \<le> 0
                    then default_commit_interval else ko_commit_interval o3,
                  ko_producer_acks := if ko_producer_acks o3 = []
                    then producer_acks_all else ko_producer_acks o3\<rparr>
      in o4)"

definition fail_when :: "bool \<Rightarrow> string \<Rightarrow> go_error option" where
  "fail_when b s = (if b then Some (ErrText s) else None)"

text \<open>The part from the producer settings on, after the acknowledgement level was accepted.\<close>

definition check_producer :: "'tls kafka_options \<Rightarrow> go_error + 'tls kafka_options" where
  "check_producer o0 =
     (let retry_max = (case ko_producer_retry_max o0 of None \<Rightarrow> default_producer_retry_max | Some n \<Rightarrow> n);
          o1 = o0\<lparr>ko_producer_retry_max := Some retry_max\<rparr>
      in guard_err (fail_when (retry_max < 0) ''kafka producer retry max must be >= 0'')
      (let backoff = (case ko_producer_retry_backoff o1 of
                        None \<Rightarrow> default_producer_retry_backoff | Some d \<Rightarrow> d);
           o2 = o1\<lparr>ko_producer_retry_backoff := Some backoff\<rparr>
       in guard_err (fail_when (backoff < 0) ''kafka producer retry backoff must be >= 0'')
         (guard_err (fail_when (ko_flush_bytes o2 < 0) ''kafka producer flush bytes must be >= 0'')
         (guard_err (fail_when (ko_flush_messages o2 < 0)
            ''kafka producer flush messages must be >= 0'')
         (guard_err (fail_when (ko_flush_frequency o2 < 0)
            ''kafka producer flush frequency must be >= 0'')
         (guard_err (fail_when (ko_flush_max_messages o2 < 0)
            ''kafka producer flush max messages must be >= 0'')
         (guard_err (fail_when (0 < ko_flush_max_messages o2 \<and>
              ko_flush_max_messages o2 < ko_flush_messages o2)
            ''kafka producer flush max messages must be >= producer flush messages'')
         (guard_err (fail_when (ko_idempotent o2 \<and> ko_producer_acks o2 \<noteq> producer_acks_all)
            ''kafka idempotent producer requires producer acks all'')
         (guard_err (fail_when (ko_idempotent o2 \<and> retry_max = 0)
            ''kafka idempotent producer requires producer retry max >= 1'')
            (Inr o2))))))))))"

definition check_sasl :: "(string \<Rightarrow> string) \<Rightarrow> 'tls kafka_options \<Rightarrow> go_error + 'tls kafka_options" where
  "check_sasl uni o0 =
     (let o1 = o0\<lparr>ko_sasl_username := trim_space (ko_sasl_username o0),
                  ko_sasl_mechanism := normalize_sasl_mechanism uni (ko_sasl_mechanism o0)\<rparr>
      in if \<not> ko_sasl_enabled o1 then Inr o1
         else
           let o2 = o1\<lparr>ko_sasl_mechanism := if ko_sasl_mechanism o1 = []
                         then sasl_mechanism_plain else ko_sasl_mechanism o1\<rparr>
           in guard_err (fail_when (ko_sasl_mechanism o2 \<noteq> sasl_mechanism_plain)
                ''kafka sasl mechanism must be plain in this version'')
             (guard_err (fail_when (ko_sasl_username o2 = [])
                ''kafka sasl username is required when sasl is enabled'')
             (guard_err (fail_when (ko_sasl_password o2 = [])
                ''kafka sasl password is required when sasl is enabled'')
                (Inr o2))))"

definition normalize_options ::
  "(string \<Rightarrow> string) \<Rightarrow> 'tls kafka_options \<Rightarrow> go_error + 'tls kafka_options" where
  "normalize_options uni o0 =
     (let o1 = o0\<lparr>ko_brokers := trim_brokers (ko_brokers o0)\<rparr>
      in guard_err (fail_when (ko_brokers o1 = []) ''kafka brokers are required'')
      (let o2 = fill_defaults o1
       in guard_err
            (fail_when (ko_producer_acks o2 \<notin> {producer_acks_all, producer_acks_leader, producer_acks_none})
               ''kafka producer acks must be one of all, leader, or none'')
            (case check_producer o2 of Inl e \<Rightarrow> Inl e | Inr o3 \<Rightarrow> check_sasl uni o3)))"

section \<open>Sarama's configuration\<close>

datatype required_acks = NoResponse | WaitForLocal | WaitForAll

definition sarama_required_acks :: "string \<Rightarrow> required_acks" where
  "sarama_required_acks acks =
     (if acks = producer_acks_none then NoResponse
      else if acks = producer_acks_leader then WaitForLocal
      else WaitForAll)"

record 'tls sarama_config =
  sc_client_id :: string
  sc_required_acks :: required_acks
  sc_return_successes :: bool
  sc_retry_max :: int
  sc_retry_backoff :: int
  sc_flush_bytes :: int
  sc_flush_messages :: int
  sc_flush_frequency :: int
  sc_flush_max_messages :: int
  sc_tls_enable :: bool
  sc_tls_config :: "'tls option"
  sc_sasl_enable :: bool
  sc_sasl_mechanism :: string
  sc_sasl_user :: string
  sc_sasl_password :: string
  sc_sasl_handshake :: bool
  sc_idempotent :: bool
  sc_max_open_requests :: int
  sc_offsets_oldest :: bool
  sc_auto_commit :: bool
  sc_auto_commit_interval :: int
  sc_return_errors :: bool

text \<open>
  \<open>newSaramaConfig\<close>: \<open>base\<close> is Sarama's \<open>NewConfig()\<close>. The two pointer fields are dereferenced
  without a check, so a nil one panics (\<^const>\<open>None\<close>); normalized options always have them.
\<close>

definition new_sarama_config :: "'tls sarama_config \<Rightarrow> 'tls kafka_options \<Rightarrow> 'tls sarama_config option" where
  "new_sarama_config base opts =
     (case (ko_producer_retry_max opts, ko_producer_retry_backoff opts) of
        (Some retry_max, Some backoff) \<Rightarrow>
          let c1 = base\<lparr>sc_client_id := ko_client_id opts,
                        sc_required_acks := sarama_required_acks (ko_producer_acks opts),
                        sc_return_successes := True,
                        sc_retry_max := retry_max,
                        sc_retry_backoff := backoff,
                        sc_flush_bytes := ko_flush_bytes opts,
                        sc_flush_messages := ko_flush_messages opts,
                        sc_flush_frequency := ko_flush_frequency opts,
                        sc_flush_max_messages := ko_flush_max_messages opts,
                        sc_tls_enable := ko_tls_enabled opts,
                        sc_tls_config := ko_tls_config opts\<rparr>;
              c2 = (if ko_sasl_enabled opts
                    then c1\<lparr>sc_sasl_enable := True,
                            sc_sasl_mechanism := ''PLAIN'',
                            sc_sasl_user := ko_sasl_username opts,
                            sc_sasl_password := ko_sasl_password opts,
                            sc_sasl_handshake := (case ko_sasl_handshake opts of
                              None \<Rightarrow> sc_sasl_handshake c1 | Some h \<Rightarrow> h)\<rparr>
                    else c1);
              c3 = (if ko_idempotent opts
                    then c2\<lparr>sc_idempotent := True, sc_max_open_requests := 1\<rparr> else c2)
          in Some (c3\<lparr>sc_offsets_oldest := True, sc_auto_commit := True,
                      sc_auto_commit_interval := ko_commit_interval opts, sc_return_errors := True\<rparr>)
      | _ \<Rightarrow> None)"

section \<open>Record keys\<close>

text \<open>\<open>strings.Trim(scope, ":")\<close>.\<close>

definition trim_colons :: "string \<Rightarrow> string" where
  "trim_colons s =
     rev (dropWhile (\<lambda>c. c = CHR '':'') (rev (dropWhile (\<lambda>c. c = CHR '':'') s)))"

definition event_key :: "event_envelope \<Rightarrow> string" where
  "event_key e =
     (let scope = env_tenant_id e @ '':'' @ env_project_id e @ '':'' @ env_source_id e
      in if trim_colons scope \<noteq> [] then scope
         else if env_id e \<noteq> [] then env_id e
         else env_event_name e)"

section \<open>What normalized options guarantee\<close>

definition options_ok :: "'tls kafka_options \<Rightarrow> bool" where
  "options_ok opts \<longleftrightarrow>
     ko_brokers opts \<noteq> [] \<and> (\<forall>b \<in> set (ko_brokers opts). b \<noteq> [] \<and> trim_space b = b) \<and>
     trim_space (ko_topic opts) \<noteq> [] \<and> trim_space (ko_dead_letter_topic opts) \<noteq> [] \<and>
     trim_space (ko_client_id opts) \<noteq> [] \<and>
     1 \<le> ko_max_attempts opts \<and> 0 < ko_retry_backoff opts \<and>
     1 \<le> ko_workers opts \<and> ko_workers opts \<le> ko_queue_size opts \<and> 0 < ko_commit_interval opts \<and>
     ko_producer_acks opts \<in> {''all'', ''leader'', ''none''} \<and>
     (\<exists>n. ko_producer_retry_max opts = Some n \<and> 0 \<le> n \<and> (ko_idempotent opts \<longrightarrow> 1 \<le> n)) \<and>
     (\<exists>d. ko_producer_retry_backoff opts = Some d \<and> 0 \<le> d) \<and>
     0 \<le> ko_flush_bytes opts \<and> 0 \<le> ko_flush_messages opts \<and> 0 \<le> ko_flush_frequency opts \<and>
     0 \<le> ko_flush_max_messages opts \<and>
     (0 < ko_flush_max_messages opts \<longrightarrow> ko_flush_messages opts \<le> ko_flush_max_messages opts) \<and>
     (ko_idempotent opts \<longrightarrow> ko_producer_acks opts = ''all'') \<and>
     trim_space (ko_sasl_username opts) = ko_sasl_username opts \<and>
     (ko_sasl_enabled opts \<longrightarrow>
        ko_sasl_mechanism opts = ''plain'' \<and> ko_sasl_username opts \<noteq> [] \<and> ko_sasl_password opts \<noteq> [])"

lemma fail_when_None [simp]: "fail_when b s = None \<longleftrightarrow> \<not> b"
  by (simp add: fail_when_def)

lemma trim_brokers_trimmed:
  "b \<in> set (trim_brokers bs) \<Longrightarrow> b \<noteq> [] \<and> trim_space b = b"
  by (auto simp: trim_brokers_def)

lemma trim_brokers_id: "\<forall>b \<in> set bs. b \<noteq> [] \<and> trim_space b = b \<Longrightarrow> trim_brokers bs = bs"
  by (induction bs) (auto simp: trim_brokers_def)

lemma plain_text_trim: "trim_space ''plain'' = ''plain''" "trim_space ''analytics.events'' = ''analytics.events''"
  "trim_space ''analytics.events.dead'' = ''analytics.events.dead''"
  "trim_space ''analytics-core-eventbus'' = ''analytics-core-eventbus''"
  by (rule trim_space_solid; simp add: solid_def space_runes_def)+

lemma fill_defaults_fields:
  "ko_brokers (fill_defaults opts) = ko_brokers opts"
  "trim_space (ko_topic (fill_defaults opts)) \<noteq> []"
  "trim_space (ko_dead_letter_topic (fill_defaults opts)) \<noteq> []"
  "trim_space (ko_client_id (fill_defaults opts)) \<noteq> []"
  "1 \<le> ko_max_attempts (fill_defaults opts)" "0 < ko_retry_backoff (fill_defaults opts)"
  "1 \<le> ko_workers (fill_defaults opts)"
  "ko_workers (fill_defaults opts) \<le> ko_queue_size (fill_defaults opts)"
  "0 < ko_commit_interval (fill_defaults opts)"
  "ko_idempotent (fill_defaults opts) = ko_idempotent opts"
  "ko_sasl_enabled (fill_defaults opts) = ko_sasl_enabled opts"
  by (simp_all add: fill_defaults_def Let_def option_defaults plain_text_trim second_def)

lemma check_producer_Inr:
  assumes "check_producer opts = Inr o'"
  shows "o' = opts\<lparr>ko_producer_retry_max := ko_producer_retry_max o',
                   ko_producer_retry_backoff := ko_producer_retry_backoff o'\<rparr> \<and>
     (\<exists>n. ko_producer_retry_max o' = Some n \<and> 0 \<le> n \<and> (ko_idempotent o' \<longrightarrow> 1 \<le> n)) \<and>
     (\<exists>d. ko_producer_retry_backoff o' = Some d \<and> 0 \<le> d) \<and>
     0 \<le> ko_flush_bytes o' \<and> 0 \<le> ko_flush_messages o' \<and> 0 \<le> ko_flush_frequency o' \<and>
     0 \<le> ko_flush_max_messages o' \<and>
     (0 < ko_flush_max_messages o' \<longrightarrow> ko_flush_messages o' \<le> ko_flush_max_messages o') \<and>
     (ko_idempotent o' \<longrightarrow> ko_producer_acks o' = ''all'')"
  using assms
  by (simp add: check_producer_def Let_def option_defaults split: option.splits) auto

lemma check_sasl_Inr:
  assumes "check_sasl uni opts = Inr o'"
  shows "o' = opts\<lparr>ko_sasl_username := trim_space (ko_sasl_username opts),
                   ko_sasl_mechanism := ko_sasl_mechanism o'\<rparr> \<and>
     (ko_sasl_enabled o' \<longrightarrow>
        ko_sasl_mechanism o' = ''plain'' \<and> ko_sasl_username o' \<noteq> [] \<and> ko_sasl_password o' \<noteq> [])"
  using assms
  by (auto simp: check_sasl_def Let_def option_defaults split: if_splits)

lemma normalize_options_ok:
  assumes "normalize_options uni opts = Inr o'"
  shows "options_ok o' \<and> ko_idempotent o' = ko_idempotent opts \<and> ko_sasl_enabled o' = ko_sasl_enabled opts"
proof -
  define o2 where "o2 = fill_defaults (opts\<lparr>ko_brokers := trim_brokers (ko_brokers opts)\<rparr>)"
  from assms obtain o3 where o3: "check_producer o2 = Inr o3" and o': "check_sasl uni o3 = Inr o'"
    and b: "trim_brokers (ko_brokers opts) \<noteq> []"
    and acks: "ko_producer_acks o2 \<in> {''all'', ''leader'', ''none''}"
    by (auto simp: normalize_options_def Let_def o2_def option_defaults split: sum.splits)
  note f = fill_defaults_fields [of "opts\<lparr>ko_brokers := trim_brokers (ko_brokers opts)\<rparr>", folded o2_def]
  define rm rb where "rm = ko_producer_retry_max o3" and "rb = ko_producer_retry_backoff o3"
  define m where "m = ko_sasl_mechanism o'"
  have e3: "o3 = o2\<lparr>ko_producer_retry_max := rm, ko_producer_retry_backoff := rb\<rparr>"
    using check_producer_Inr [OF o3] by (simp add: rm_def rb_def)
  have e': "o' = o3\<lparr>ko_sasl_username := trim_space (ko_sasl_username o3), ko_sasl_mechanism := m\<rparr>"
    using check_sasl_Inr [OF o'] by (simp add: m_def)
  show ?thesis
    using check_producer_Inr [OF o3] check_sasl_Inr [OF o'] f acks b
      trim_brokers_trimmed [of _ "ko_brokers opts"]
    unfolding options_ok_def
    by (simp add: e' e3)
qed

lemma fill_defaults_id:
  assumes "options_ok opts"
  shows "fill_defaults opts = opts"
proof -
  from assms have "ko_producer_acks opts \<in> {''all'', ''leader'', ''none''}"
    by (simp add: options_ok_def)
  then have "ko_producer_acks opts \<noteq> []" by auto
  moreover from assms have "trim_space (ko_topic opts) \<noteq> []"
    "trim_space (ko_dead_letter_topic opts) \<noteq> []" "trim_space (ko_client_id opts) \<noteq> []"
    "\<not> ko_max_attempts opts \<le> 0" "\<not> ko_retry_backoff opts < 0" "ko_retry_backoff opts \<noteq> 0"
    "\<not> ko_workers opts \<le> 0" "\<not> ko_queue_size opts \<le> 0" "\<not> ko_queue_size opts < ko_workers opts"
    "\<not> ko_commit_interval opts \<le> 0"
    by (simp_all add: options_ok_def)
  ultimately show ?thesis
    by (intro kafka_options.equality) (simp_all add: fill_defaults_def Let_def)
qed

lemma check_producer_id:
  assumes "options_ok opts"
  shows "check_producer opts = Inr opts"
proof -
  from assms obtain n d where p: "ko_producer_retry_max opts = Some n" "\<not> n < 0"
      "ko_producer_retry_backoff opts = Some d" "\<not> d < 0" "ko_idempotent opts \<longrightarrow> n \<noteq> 0"
    unfolding options_ok_def by force
  from assms have q: "\<not> ko_flush_bytes opts < 0" "\<not> ko_flush_messages opts < 0"
    "\<not> ko_flush_frequency opts < 0" "\<not> ko_flush_max_messages opts < 0"
    "\<not> (0 < ko_flush_max_messages opts \<and> ko_flush_max_messages opts < ko_flush_messages opts)"
    "\<not> (ko_idempotent opts \<and> ko_producer_acks opts \<noteq> ''all'')"
    by (simp_all add: options_ok_def) linarith
  have same: "opts\<lparr>ko_producer_retry_max := Some n, ko_producer_retry_backoff := Some d\<rparr> = opts"
    using p by (cases opts) simp
  show ?thesis
    using q p by (simp add: check_producer_def Let_def same producer_acks_all_def)
qed

lemma normalize_plain: "normalize_sasl_mechanism uni ''plain'' = ''plain''"
  by (simp add: normalize_sasl_mechanism_def plain_text_trim to_lower_def is_ascii_def
      lower_byte_def sasl_mechanism_plain_def)

lemma check_sasl_id:
  assumes "options_ok opts" and "ko_sasl_mechanism opts = ''plain''"
  shows "check_sasl uni opts = Inr opts"
proof -
  from assms have p: "trim_space (ko_sasl_username opts) = ko_sasl_username opts"
    "\<not> (ko_sasl_enabled opts \<and> ko_sasl_username opts = [])"
    "\<not> (ko_sasl_enabled opts \<and> ko_sasl_password opts = [])"
    by (simp_all add: options_ok_def)
  have same: "opts\<lparr>ko_sasl_username := ko_sasl_username opts, ko_sasl_mechanism := ''plain''\<rparr> = opts"
    "opts\<lparr>ko_sasl_mechanism := ''plain''\<rparr> = opts"
    using assms(2) by (cases opts; simp)+
  show ?thesis
    using p(2,3)
    by (simp add: check_sasl_def p(1) assms(2) normalize_plain same Let_def sasl_mechanism_plain_def)
qed

lemma normalize_options_fixed:
  assumes ok: "options_ok opts" and m: "ko_sasl_mechanism opts = ''plain''"
  shows "normalize_options uni opts = Inr opts"
proof -
  from ok have b: "trim_brokers (ko_brokers opts) = ko_brokers opts" "ko_brokers opts \<noteq> []"
    and acks: "ko_producer_acks opts \<in> {producer_acks_all, producer_acks_leader, producer_acks_none}"
    by (simp_all add: options_ok_def trim_brokers_id option_defaults)
  have same: "opts\<lparr>ko_brokers := ko_brokers opts\<rparr> = opts" by (cases opts) simp
  show ?thesis
    using acks b(2)
    by (simp add: normalize_options_def b(1) same fill_defaults_id [OF ok] check_producer_id [OF ok]
        check_sasl_id [OF ok m] Let_def)
qed

section \<open>Properties\<close>

definition sample_options :: "unit kafka_options" where
  "sample_options =
     \<lparr>ko_brokers = ['' broker-1:9092'', ''''], ko_topic = '''', ko_dead_letter_topic = '''',
      ko_client_id = '''', ko_max_attempts = 0, ko_retry_backoff = -3, ko_workers = 300,
      ko_queue_size = 0, ko_commit_interval = 0, ko_producer_acks = '''', ko_producer_retry_max = None,
      ko_producer_retry_backoff = None, ko_flush_bytes = 0, ko_flush_messages = 0,
      ko_flush_frequency = 0, ko_flush_max_messages = 0, ko_idempotent = True,
      ko_tls_enabled = False, ko_tls_config = None, ko_sasl_enabled = True,
      ko_sasl_mechanism = ''PLAIN'', ko_sasl_username = ''app'', ko_sasl_password = ''secret'',
      ko_sasl_handshake = None\<rparr>"

definition sample_normalized :: "unit kafka_options" where
  "sample_normalized =
     sample_options\<lparr>ko_brokers := [''broker-1:9092''], ko_topic := ''analytics.events'',
       ko_dead_letter_topic := ''analytics.events.dead'', ko_client_id := ''analytics-core-eventbus'',
       ko_max_attempts := 5, ko_retry_backoff := 250000000, ko_queue_size := 300,
       ko_commit_interval := second, ko_producer_acks := ''all'', ko_producer_retry_max := Some 5,
       ko_producer_retry_backoff := Some 100000000, ko_sasl_mechanism := ''plain''\<rparr>"

lemma normalize_sample_options: "normalize_options id sample_options = Inr sample_normalized"
  by code_simp

text \<open>
  Accepted Kafka options satisfy everything the provider relies on (\<open>options_ok\<close>: at least one
  non-empty broker, non-blank topics, at least one attempt and worker, a queue that holds one task
  per worker, a positive backoff, acknowledgement and retry settings that fit idempotence, SASL
  credentials when SASL is on), and normalizing them again changes nothing.
\<close>

theorem normalize_options_sound:
  assumes "normalize_options uni opts = Inr o'"
  shows "options_ok o' \<and>
    (ko_sasl_mechanism o' = sasl_mechanism_plain \<longrightarrow> normalize_options uni o' = Inr o')"
  using normalize_options_ok [OF assms] normalize_options_fixed [of o' uni]
  by (simp add: sasl_mechanism_plain_def)

theorem normalize_options_sound_witness:
  "options_ok sample_normalized \<and> normalize_options id sample_normalized = Inr sample_normalized"
  using normalize_options_sound [OF normalize_sample_options] by (simp add: sample_normalized_def sasl_mechanism_plain_def)

text \<open>
  The Sarama configuration built from accepted options never dereferences a nil pointer, reports
  producer successes and consumer errors, starts at the oldest offset and commits marks on the
  positive interval; an idempotent producer always waits for all replicas, retries at least once and
  keeps one request in flight.
\<close>

theorem sarama_config_safe:
  assumes "normalize_options uni opts = Inr o'"
  shows "\<exists>c. new_sarama_config base o' = Some c \<and> sc_return_successes c \<and> sc_return_errors c \<and>
    sc_offsets_oldest c \<and> sc_auto_commit c \<and> 0 < sc_auto_commit_interval c \<and> 0 \<le> sc_retry_max c \<and>
    (ko_idempotent opts \<longrightarrow> sc_idempotent c \<and> sc_required_acks c = WaitForAll \<and> 1 \<le> sc_retry_max c
       \<and> sc_max_open_requests c = 1) \<and>
    (ko_sasl_enabled opts \<longrightarrow> sc_sasl_enable c \<and> sc_sasl_user c \<noteq> [] \<and> sc_sasl_password c \<noteq> [])"
proof -
  from normalize_options_ok [OF assms] obtain n d where
    p: "ko_producer_retry_max o' = Some n" "ko_producer_retry_backoff o' = Some d" "0 \<le> n"
      "ko_idempotent opts \<longrightarrow> 1 \<le> n \<and> ko_producer_acks o' = ''all''" "0 < ko_commit_interval o'"
      "ko_sasl_enabled opts \<longrightarrow> ko_sasl_username o' \<noteq> [] \<and> ko_sasl_password o' \<noteq> []"
    and same: "ko_idempotent o' = ko_idempotent opts" "ko_sasl_enabled o' = ko_sasl_enabled opts"
    unfolding options_ok_def by metis
  show ?thesis
    using p
    by (cases "ko_idempotent opts"; cases "ko_sasl_enabled opts")
       (simp_all add: same new_sarama_config_def Let_def sarama_required_acks_def option_defaults)
qed

theorem sarama_config_safe_witness:
  "\<exists>c. new_sarama_config (undefined :: unit sarama_config) sample_normalized = Some c \<and>
    sc_return_successes c \<and> sc_return_errors c \<and>
    sc_offsets_oldest c \<and> sc_auto_commit c \<and> 0 < sc_auto_commit_interval c \<and> 0 \<le> sc_retry_max c \<and>
    (ko_idempotent sample_options \<longrightarrow> sc_idempotent c \<and> sc_required_acks c = WaitForAll \<and> 1 \<le> sc_retry_max c
       \<and> sc_max_open_requests c = 1) \<and>
    (ko_sasl_enabled sample_options \<longrightarrow> sc_sasl_enable c \<and> sc_sasl_user c \<noteq> [] \<and> sc_sasl_password c \<noteq> [])"
  by (rule sarama_config_safe [OF normalize_sample_options])

lemma event_key_scope:
  assumes "trim_colons (env_tenant_id e @ '':'' @ env_project_id e @ '':'' @ env_source_id e) \<noteq> []"
  shows "event_key e = env_tenant_id e @ '':'' @ env_project_id e @ '':'' @ env_source_id e"
  using assms by (simp add: event_key_def Let_def)

end
