(* ===== verification/Kafka_Process.thy ===== *)
theory Kafka_Process
  imports Kafka_Gate Kafka_Options
begin

text \<open>
  Package \<open>eventbus/kafka\<close>, the delivery half of \<open>bus.go\<close>: publishing, and the retry, dead-letter
  and ordered-completion semantics of one consumed message
  (\<open>processConsumerMessageWithHandler\<close> and everything it calls).

  What the code cannot decide is an argument, \<open>kafka_env\<close>: when the context is cancelled, what the
  handler, the producer and the timers do, and the JSON codec. Every answer may depend on the whole
  \<open>history\<close> of earlier calls, newest first, so quantifying over the environment covers every
  behaviour of the outside; the functions extend the history by the calls the code makes, in order.
  A handler that panics is a result of its own (\<open>Panicked\<close>).

  The retry loop over handler attempts ends by a measure. \<open>deadLetterUntilDone\<close> retries without a
  limit; it takes fuel and \<^const>\<open>None\<close> means that the loop is still running when the fuel is used
  up. \<open>process_message_returns\<close> gives the fuel that is enough.
\<close>

section \<open>The outside\<close>

record kafka_message =
  km_topic :: string
  km_partition :: i32
  km_offset :: i64
  km_key :: string
  km_payload :: string

datatype handler_result = Returned "go_error option" | Panicked string

datatype kafka_event =
    PolledContext bool
  | CalledHandler message handler_result
  | SentRecord string string string "go_error option"
  | Slept int bool
  | ReadClock gotime

type_synonym history = "kafka_event list"

record dead_letter_record =
  dl_envelope :: event_envelope
  dl_raw :: "string option"
  dl_original_topic :: string
  dl_original_partition :: i32
  dl_original_offset :: i64
  dl_original_key :: string
  dl_consumer_group :: string
  dl_consumer_id :: string
  dl_attempt :: int
  dl_error :: string
  dl_failed_at :: gotime

record kafka_env =
  ke_done :: "history \<Rightarrow> bool"                       \<comment> \<open>\<open>ctx.Done()\<close> is closed\<close>
  ke_ctx_err :: go_error                              \<comment> \<open>\<open>ctx.Err()\<close> once it is\<close>
  ke_timer :: "history \<Rightarrow> int \<Rightarrow> bool"               \<comment> \<open>the timer fires before cancellation\<close>
  ke_handler :: "history \<Rightarrow> message \<Rightarrow> handler_result"
  ke_send :: "history \<Rightarrow> string \<Rightarrow> string \<Rightarrow> string \<Rightarrow> go_error option"
  ke_now :: "history \<Rightarrow> gotime"
  ke_encode :: "event_envelope \<Rightarrow> go_error + string"
  ke_encode_dead :: "dead_letter_record \<Rightarrow> go_error + string"
  ke_decode :: "string \<Rightarrow> event_envelope \<times> go_error option"

definition poll_context :: "kafka_env \<Rightarrow> history \<Rightarrow> bool \<times> history" where
  "poll_context env h = (ke_done env h, PolledContext (ke_done env h) # h)"

definition send_message :: "kafka_env \<Rightarrow> string \<Rightarrow> string \<Rightarrow> string \<Rightarrow> history \<Rightarrow> go_error option \<times> history" where
  "send_message env topic key payload h =
     (ke_send env h topic key payload, SentRecord topic key payload (ke_send env h topic key payload) # h)"

section \<open>Metrics\<close>

record kafka_metrics =
  mx_consumed :: i64
  mx_handler_success :: i64
  mx_handler_failure :: i64
  mx_handler_retry :: i64
  mx_malformed :: i64
  mx_dead_letter_success :: i64
  mx_dead_letter_failure :: i64
  mx_pause_transitions :: i64
  mx_resume_transitions :: i64

definition no_metrics :: kafka_metrics where
  "no_metrics =
     \<lparr>mx_consumed = 0, mx_handler_success = 0, mx_handler_failure = 0, mx_handler_retry = 0,
      mx_malformed = 0, mx_dead_letter_success = 0, mx_dead_letter_failure = 0,
      mx_pause_transitions = 0, mx_resume_transitions = 0\<rparr>"

section \<open>Publishing\<close>

definition publish :: "kafka_env \<Rightarrow> 'tls kafka_options \<Rightarrow> event_envelope \<Rightarrow> history \<Rightarrow> go_error option \<times> history" where
  "publish env opts envelope h =
     (case poll_context env h of
        (True, h1) \<Rightarrow> (Some (ke_ctx_err env), h1)
      | (False, h1) \<Rightarrow>
          (case ke_encode env envelope of
             Inl e \<Rightarrow> (Some e, h1)
           | Inr payload \<Rightarrow> send_message env (ko_topic opts) (event_key envelope) payload h1))"

section \<open>Processing one message\<close>

text \<open>The shared state one worker acts on while it processes a message, and the history.\<close>

record 'm proc =
  pr_history :: history
  pr_metrics :: kafka_metrics
  pr_gate :: "gate option"
  pr_pipe :: "'m pipeline"

definition on_gate :: "(gate option \<Rightarrow> 'm pipeline \<Rightarrow> gate option \<times> 'm pipeline) \<Rightarrow> 'm proc \<Rightarrow> 'm proc" where
  "on_gate f s =
     (let r = f (pr_gate s) (pr_pipe s) in s\<lparr>pr_gate := fst r, pr_pipe := snd r\<rparr>)"

definition on_metrics :: "(kafka_metrics \<Rightarrow> kafka_metrics) \<Rightarrow> 'm proc \<Rightarrow> 'm proc" where
  "on_metrics f s = s\<lparr>pr_metrics := f (pr_metrics s)\<rparr>"

definition sleep_context :: "kafka_env \<Rightarrow> int \<Rightarrow> history \<Rightarrow> bool \<times> history" where
  "sleep_context env duration h =
     (if duration \<le> 0 then (True, h)
      else (ke_timer env h duration, Slept duration (ke_timer env h duration) # h))"

definition message_id :: "kafka_message option \<Rightarrow> string" where
  "message_id mo =
     (case mo of
        None \<Rightarrow> []
      | Some m \<Rightarrow> km_topic m @ '':'' @ format_int (sint (km_partition m)) @ '':''
                    @ format_int (sint (km_offset m)))"

definition delivery :: "kafka_message \<Rightarrow> event_envelope \<Rightarrow> int \<Rightarrow> message" where
  "delivery m envelope attempt =
     \<lparr>msg_id = message_id (Some m), msg_topic = km_topic m, msg_partition = km_partition m,
      msg_offset = km_offset m, msg_key = km_key m, msg_attempt = attempt, msg_envelope = envelope\<rparr>"

definition call_handler :: "kafka_env \<Rightarrow> message \<Rightarrow> history \<Rightarrow> go_error option \<times> history" where
  "call_handler env msg h =
     (case ke_handler env h msg of
        Returned e \<Rightarrow> (e, CalledHandler msg (Returned e) # h)
      | Panicked v \<Rightarrow> (Some (ErrText (''kafka handler panic: '' @ v)), CalledHandler msg (Panicked v) # h))"

definition publish_dead_letter ::
  "kafka_env \<Rightarrow> 'tls kafka_options \<Rightarrow> consumer_group \<Rightarrow> kafka_message \<Rightarrow> int \<Rightarrow> event_envelope \<Rightarrow>
   go_error \<Rightarrow> string option \<Rightarrow> history \<Rightarrow> go_error option \<times> history" where
  "publish_dead_letter env opts grp m attempt envelope cause raw h =
     (if ko_dead_letter_topic opts = []
      then (Some (ErrText ''kafka dead-letter topic is required''), h)
      else
        case poll_context env h of
          (True, h1) \<Rightarrow> (Some (ke_ctx_err env), h1)
        | (False, h1) \<Rightarrow>
            (case ke_encode_dead env
                \<lparr>dl_envelope = envelope, dl_raw = raw, dl_original_topic = km_topic m,
                 dl_original_partition = km_partition m, dl_original_offset = km_offset m,
                 dl_original_key = km_key m, dl_consumer_group = cg_name grp,
                 dl_consumer_id = cg_consumer grp, dl_attempt = attempt, dl_error = error_text cause,
                 dl_failed_at = utc (ke_now env h1)\<rparr> of
               Inl e \<Rightarrow> (Some e, ReadClock (ke_now env h1) # h1)
             | Inr payload \<Rightarrow>
                 send_message env (ko_dead_letter_topic opts) (km_key m) payload
                   (ReadClock (ke_now env h1) # h1)))"

fun dead_letter_until_done ::
  "nat \<Rightarrow> kafka_env \<Rightarrow> 'tls kafka_options \<Rightarrow> consumer_group \<Rightarrow> kafka_message \<Rightarrow> int \<Rightarrow> event_envelope \<Rightarrow>
   go_error \<Rightarrow> string option \<Rightarrow> 'm proc \<Rightarrow> (bool \<times> 'm proc) option" where
  "dead_letter_until_done 0 env opts grp m attempt envelope cause raw s = None"
| "dead_letter_until_done (Suc fuel) env opts grp m attempt envelope cause raw s =
     (case publish_dead_letter env opts grp m attempt envelope cause raw (pr_history s) of
        (None, h) \<Rightarrow>
          Some (True, on_metrics (mx_dead_letter_success_update (\<lambda>n. n + 1)) (s\<lparr>pr_history := h\<rparr>))
      | (Some e, h) \<Rightarrow>
          (case sleep_context env (ko_retry_backoff opts) h of
             (ok, h1) \<Rightarrow>
               let s1 = on_metrics (mx_dead_letter_failure_update (\<lambda>n. n + 1)) (s\<lparr>pr_history := h1\<rparr>)
               in if \<not> ok then Some (False, s1)
                  else dead_letter_until_done fuel env opts grp m attempt envelope cause raw s1))"

text \<open>The loop \<open>for attempt := 1; ; attempt++\<close>.\<close>

function attempt_loop ::
  "nat \<Rightarrow> kafka_env \<Rightarrow> 'tls kafka_options \<Rightarrow> consumer_group \<Rightarrow> kafka_message \<Rightarrow> event_envelope \<Rightarrow> int \<Rightarrow>
   'm proc \<Rightarrow> 'm proc option" where
  "attempt_loop fuel env opts grp m envelope attempt s =
     (case poll_context env (pr_history s) of
        (True, h1) \<Rightarrow> Some (s\<lparr>pr_history := h1\<rparr>)
      | (False, h1) \<Rightarrow>
          (case call_handler env (delivery m envelope attempt) h1 of
             (None, h2) \<Rightarrow>
               Some (on_gate task_done
                 (on_metrics (mx_handler_success_update (\<lambda>n. n + 1)) (s\<lparr>pr_history := h2\<rparr>)))
           | (Some e, h2) \<Rightarrow>
               let s2 = on_metrics (mx_handler_failure_update (\<lambda>n. n + 1)) (s\<lparr>pr_history := h2\<rparr>)
               in if ko_max_attempts opts \<le> attempt
                  then
                    (case dead_letter_until_done fuel env opts grp m attempt envelope e None s2 of
                       None \<Rightarrow> None
                     | Some (written, s3) \<Rightarrow> Some (if written then on_gate task_done s3 else s3))
                  else
                    let s3 = on_metrics (mx_handler_retry_update (\<lambda>n. n + 1)) s2
                    in (case sleep_context env (ko_retry_backoff opts) (pr_history s3) of
                          (ok, h3) \<Rightarrow>
                            if \<not> ok then Some (s3\<lparr>pr_history := h3\<rparr>)
                            else attempt_loop fuel env opts grp m envelope (attempt + 1)
                                   (s3\<lparr>pr_history := h3\<rparr>))))"
  by pat_completeness auto
termination
  by (relation "measure (\<lambda>(fuel, env, opts, grp, m, envelope, attempt, s). nat (ko_max_attempts opts - attempt))")
     auto

declare attempt_loop.simps [simp del]

definition process_message ::
  "nat \<Rightarrow> kafka_env \<Rightarrow> 'tls kafka_options \<Rightarrow> consumer_group \<Rightarrow> kafka_message \<Rightarrow> 'm proc \<Rightarrow> 'm proc option" where
  "process_message fuel env opts grp m s =
     (case ke_decode env (km_payload m) of
        (envelope, Some e) \<Rightarrow>
          (let s1 = on_metrics (mx_malformed_update (\<lambda>n. n + 1)) s
           in case dead_letter_until_done fuel env opts grp m 1 envelope e (Some (km_payload m)) s1 of
                None \<Rightarrow> None
              | Some (written, s2) \<Rightarrow> Some (if written then on_gate no_async_task_complete_now s2 else s2))
      | (envelope, None) \<Rightarrow>
          attempt_loop fuel env opts grp m envelope 1 (on_gate add_task s))"

lemmas proc_defs = on_gate_def on_metrics_def poll_context_def send_message_def sleep_context_def

section \<open>Reading a history\<close>

fun handler_calls :: "history \<Rightarrow> (message \<times> handler_result) list" where
  "handler_calls [] = []"
| "handler_calls (CalledHandler msg r # h) = (msg, r) # handler_calls h"
| "handler_calls (_ # h) = handler_calls h"

text \<open>The last call was a successful handler call or a successful write to the dead-letter topic.\<close>

fun delivered :: "'tls kafka_options \<Rightarrow> history \<Rightarrow> bool" where
  "delivered opts (CalledHandler msg (Returned None) # h) = True"
| "delivered opts (SentRecord topic key payload None # h) = (topic = ko_dead_letter_topic opts)"
| "delivered opts _ = False"

fun rejected_writes :: "string \<Rightarrow> history \<Rightarrow> nat" where
  "rejected_writes topic [] = 0"
| "rejected_writes topic (SentRecord t key payload (Some e) # h) =
     (if t = topic then Suc (rejected_writes topic h) else rejected_writes topic h)"
| "rejected_writes topic (_ # h) = rejected_writes topic h"

lemma handler_calls_append [simp]: "handler_calls (xs @ ys) = handler_calls xs @ handler_calls ys"
  by (induction xs rule: handler_calls.induct) simp_all

lemma delivered_append: "xs \<noteq> [] \<Longrightarrow> delivered opts (xs @ ys) = delivered opts xs"
  by (induction opts xs rule: delivered.induct) simp_all

lemma rejected_writes_mono: "rejected_writes topic h \<le> rejected_writes topic (xs @ h)"
  by (induction topic xs rule: rejected_writes.induct) auto

text \<open>
  What a call leaves behind: the calls it added to the history, and a state in which everything else
  the caller owns is as \<open>P\<close> says.
\<close>

lemma publish_dead_letter_history:
  assumes "publish_dead_letter env opts grp m att envl cause raw h = (r, h')"
  shows "\<exists>new. h' = new @ h \<and> handler_calls new = [] \<and>
    (r = None \<longrightarrow> delivered opts new \<and> new \<noteq> [])"
  using assms
  by (cases r) (auto simp: publish_dead_letter_def proc_defs split: if_splits sum.splits bool.splits)

lemma publish_dead_letter_writes:
  assumes "ko_dead_letter_topic opts \<noteq> []" and "\<not> ke_done env h"
    and "\<forall>r. \<exists>p. ke_encode_dead env r = Inr p"
    and "publish_dead_letter env opts grp m att envl cause raw h = (Some e, h')"
  shows "\<exists>h1 payload. ke_send env h1 (ko_dead_letter_topic opts) (km_key m) payload = Some e \<and>
    rejected_writes (ko_dead_letter_topic opts) h1 = rejected_writes (ko_dead_letter_topic opts) h \<and>
    rejected_writes (ko_dead_letter_topic opts) h' = Suc (rejected_writes (ko_dead_letter_topic opts) h)"
proof -
  define rec where "rec = \<lparr>dl_envelope = envl, dl_raw = raw, dl_original_topic = km_topic m,
     dl_original_partition = km_partition m, dl_original_offset = km_offset m,
     dl_original_key = km_key m, dl_consumer_group = cg_name grp, dl_consumer_id = cg_consumer grp,
     dl_attempt = att, dl_error = error_text cause,
     dl_failed_at = utc (ke_now env (PolledContext False # h))\<rparr>"
  from assms(3) obtain p where p: "ke_encode_dead env rec = Inr p" by blast
  from assms(4) p show ?thesis
    using assms(1,2)
    by (intro exI [of _ "ReadClock (ke_now env (PolledContext False # h)) # PolledContext False # h"] exI [of _ p])
       (auto simp: publish_dead_letter_def proc_defs rec_def)
qed

lemma dead_letter_outcome:
  assumes "dead_letter_until_done fuel env opts grp m att envl cause raw s = Some (b, s')"
  shows "\<exists>new. pr_history s' = new @ pr_history s \<and> new \<noteq> [] \<and> handler_calls new = [] \<and>
    (b \<longleftrightarrow> delivered opts new) \<and> pr_gate s' = pr_gate s \<and> pr_pipe s' = pr_pipe s \<and>
    mx_handler_success (pr_metrics s') = mx_handler_success (pr_metrics s) \<and>
    mx_handler_failure (pr_metrics s') = mx_handler_failure (pr_metrics s)"
  using assms
proof (induction fuel arbitrary: s)
  case (Suc fuel)
  obtain r h where p: "publish_dead_letter env opts grp m att envl cause raw (pr_history s) = (r, h)"
    by fastforce
  then obtain new where new: "h = new @ pr_history s" "handler_calls new = []"
    "r = None \<longrightarrow> delivered opts new \<and> new \<noteq> []"
    using publish_dead_letter_history by blast
  show ?case
  proof (cases r)
    case None
    with Suc.prems p new show ?thesis
      by (intro exI [of _ new]) (auto simp: proc_defs)
  next
    case (Some e)
    obtain ok h1 where sl: "sleep_context env (ko_retry_backoff opts) h = (ok, h1)" by fastforce
    then obtain zs where zs: "h1 = zs @ h" "handler_calls zs = []"
      "\<not> ok \<longrightarrow> zs \<noteq> [] \<and> \<not> delivered opts zs"
      by (auto simp: sleep_context_def split: if_splits)
    define s1 where "s1 = on_metrics (mx_dead_letter_failure_update (\<lambda>n. n + 1)) (s\<lparr>pr_history := h1\<rparr>)"
    have s1: "pr_history s1 = zs @ new @ pr_history s" "pr_gate s1 = pr_gate s" "pr_pipe s1 = pr_pipe s"
      "mx_handler_success (pr_metrics s1) = mx_handler_success (pr_metrics s)"
      "mx_handler_failure (pr_metrics s1) = mx_handler_failure (pr_metrics s)"
      by (simp_all add: s1_def on_metrics_def zs new)
    show ?thesis
    proof (cases ok)
      case True
      with Suc.prems p Some sl
      have "dead_letter_until_done fuel env opts grp m att envl cause raw s1 = Some (b, s')"
        by (simp add: s1_def Let_def)
      from Suc.IH [OF this] obtain new' where
        "pr_history s' = new' @ pr_history s1" "new' \<noteq> []" "handler_calls new' = []"
        "b \<longleftrightarrow> delivered opts new'" "pr_gate s' = pr_gate s1" "pr_pipe s' = pr_pipe s1"
        "mx_handler_success (pr_metrics s') = mx_handler_success (pr_metrics s1)"
        "mx_handler_failure (pr_metrics s') = mx_handler_failure (pr_metrics s1)"
        by blast
      then show ?thesis
        using s1 new(2) zs(2) by (intro exI [of _ "new' @ zs @ new"]) (simp add: delivered_append)
    next
      case False
      with Suc.prems p Some sl have "b = False" "s' = s1" by (simp_all add: s1_def Let_def)
      with s1 zs False new(2) show ?thesis
        by (intro exI [of _ "zs @ new"]) (simp add: delivered_append)
    qed
  qed
qed simp

text \<open>
  The handler calls of one delivery: consecutive attempts on the same message, at most as many as
  configured, and none after a success.
\<close>

definition attempt_trace ::
  "'tls kafka_options \<Rightarrow> kafka_message \<Rightarrow> event_envelope \<Rightarrow> int \<Rightarrow> history \<Rightarrow> bool" where
  "attempt_trace opts m envl attempt new \<longleftrightarrow>
     (\<exists>n. map fst (rev (handler_calls new)) = map (\<lambda>i. delivery m envl (attempt + int i)) [0..<n] \<and>
          int n \<le> max 1 (ko_max_attempts opts - attempt + 1)) \<and>
     (\<forall>c \<in> set (tl (handler_calls new)). snd c \<noteq> Returned None)"

definition metrics_follow :: "'m proc \<Rightarrow> history \<Rightarrow> 'm proc \<Rightarrow> bool" where
  "metrics_follow s new s' \<longleftrightarrow>
     mx_handler_success (pr_metrics s') = mx_handler_success (pr_metrics s)
       + of_nat (length (filter (\<lambda>c. snd c = Returned None) (handler_calls new))) \<and>
     mx_handler_failure (pr_metrics s') = mx_handler_failure (pr_metrics s)
       + of_nat (length (filter (\<lambda>c. snd c \<noteq> Returned None) (handler_calls new)))"

definition follows ::
  "'tls kafka_options \<Rightarrow> kafka_message \<Rightarrow> event_envelope \<Rightarrow> int \<Rightarrow> 'm proc \<Rightarrow> history \<Rightarrow> 'm proc \<Rightarrow> bool" where
  "follows opts m envl attempt s new s' \<longleftrightarrow>
     pr_history s' = new @ pr_history s \<and> new \<noteq> [] \<and>
     (pr_gate s', pr_pipe s') =
       (if delivered opts new then task_done (pr_gate s) (pr_pipe s) else (pr_gate s, pr_pipe s)) \<and>
     attempt_trace opts m envl attempt new \<and> metrics_follow s new s'"

lemma attempt_trace_stop:
  "handler_calls new = [] \<Longrightarrow> attempt_trace opts m envl attempt new"
  "handler_calls new = [(delivery m envl attempt, r)] \<Longrightarrow> attempt_trace opts m envl attempt new"
proof -
  assume "handler_calls new = []"
  then show "attempt_trace opts m envl attempt new"
    unfolding attempt_trace_def by (intro conjI exI [of _ 0]) simp_all
next
  assume "handler_calls new = [(delivery m envl attempt, r)]"
  then show "attempt_trace opts m envl attempt new"
    unfolding attempt_trace_def by (intro conjI exI [of _ 1]) simp_all
qed

lemma tl_append_subset: "set (tl (xs @ [y])) \<subseteq> set (tl xs) \<union> {y}"
  by (cases xs) auto

lemma attempt_trace_step:
  assumes "attempt_trace opts m envl (attempt + 1) new" and "r \<noteq> Returned None"
    and "attempt < ko_max_attempts opts" and "handler_calls new' = handler_calls new @ [(delivery m envl attempt, r)]"
  shows "attempt_trace opts m envl attempt new'"
proof -
  from assms(1) obtain n where
    n: "map fst (rev (handler_calls new)) = map (\<lambda>i. delivery m envl (attempt + 1 + int i)) [0..<n]"
      "int n \<le> max 1 (ko_max_attempts opts - (attempt + 1) + 1)"
      "\<forall>c \<in> set (tl (handler_calls new)). snd c \<noteq> Returned None"
    by (auto simp: attempt_trace_def)
  have "map fst (rev (handler_calls new')) = map (\<lambda>i. delivery m envl (attempt + int i)) [0..<Suc n]"
    using n(1) assms(4) by (simp add: map_upt_Suc add.assoc del: upt_Suc)
  moreover have "int (Suc n) \<le> max 1 (ko_max_attempts opts - attempt + 1)"
    using n(2) assms(3) by simp
  moreover have "\<forall>c \<in> set (tl (handler_calls new')). snd c \<noteq> Returned None"
    using n(3) assms(2,4) tl_append_subset by fastforce
  ultimately show ?thesis unfolding attempt_trace_def by blast
qed

lemma call_handler_cases:
  assumes "call_handler env msg h = (r, h')"
  obtains res where "h' = CalledHandler msg res # h" and "r = None \<longleftrightarrow> res = Returned None"
  using assms by (auto simp: call_handler_def split: handler_result.splits)

lemma on_gate_fields [simp]:
  "pr_history (on_gate f s) = pr_history s" "pr_metrics (on_gate f s) = pr_metrics s"
  "(pr_gate (on_gate f s), pr_pipe (on_gate f s)) = f (pr_gate s) (pr_pipe s)"
  by (simp_all add: on_gate_def Let_def)

lemma on_metrics_fields [simp]:
  "pr_history (on_metrics f s) = pr_history s" "pr_metrics (on_metrics f s) = f (pr_metrics s)"
  "pr_gate (on_metrics f s) = pr_gate s" "pr_pipe (on_metrics f s) = pr_pipe s"
  by (simp_all add: on_metrics_def)

lemma sleep_context_cases:
  assumes "sleep_context env d h = (ok, h')"
  obtains zs where "h' = zs @ h" and "handler_calls zs = []" and "\<not> ok \<longrightarrow> zs \<noteq> [] \<and> \<not> delivered opts zs"
  using assms by (auto simp: sleep_context_def split: if_splits)

text \<open>One turn of the retry loop that goes on to the next attempt.\<close>

definition retried ::
  "'tls kafka_options \<Rightarrow> kafka_message \<Rightarrow> event_envelope \<Rightarrow> int \<Rightarrow> 'm proc \<Rightarrow> history \<Rightarrow> 'm proc \<Rightarrow> bool" where
  "retried opts m envl attempt s new s' \<longleftrightarrow>
     pr_history s' = new @ pr_history s \<and> attempt < ko_max_attempts opts \<and>
     (\<exists>r. r \<noteq> Returned None \<and> handler_calls new = [(delivery m envl attempt, r)]) \<and>
     pr_gate s' = pr_gate s \<and> pr_pipe s' = pr_pipe s \<and>
     mx_handler_success (pr_metrics s') = mx_handler_success (pr_metrics s) \<and>
     mx_handler_failure (pr_metrics s') = mx_handler_failure (pr_metrics s) + 1"

lemma retried_follows:
  assumes r: "retried opts m envl attempt s new1 s1" and f: "follows opts m envl (attempt + 1) s1 new2 s'"
  shows "follows opts m envl attempt s (new2 @ new1) s'"
proof -
  from r obtain x where x: "x \<noteq> Returned None" "handler_calls new1 = [(delivery m envl attempt, x)]"
    by (auto simp: retried_def)
  have "attempt_trace opts m envl attempt (new2 @ new1)"
  proof (rule attempt_trace_step)
    show "attempt_trace opts m envl (attempt + 1) new2" using f unfolding follows_def by blast
    show "attempt < ko_max_attempts opts" using r unfolding retried_def by blast
  qed (use x in simp_all)
  moreover have "metrics_follow s1 new2 s'" using f unfolding follows_def by blast
  then have "metrics_follow s (new2 @ new1) s'"
    using r x by (simp add: metrics_follow_def retried_def)
  moreover have "pr_history s' = (new2 @ new1) @ pr_history s" "new2 \<noteq> []"
    "(pr_gate s', pr_pipe s') = (if delivered opts (new2 @ new1)
        then task_done (pr_gate s) (pr_pipe s) else (pr_gate s, pr_pipe s))"
    using f r unfolding follows_def retried_def by (simp_all add: delivered_append)
  ultimately show ?thesis unfolding follows_def by simp
qed

lemma exhausted_follows:
  assumes d: "dead_letter_until_done fuel env opts grp m attempt envl e None s2 = Some (b, s3)"
    and s2: "pr_history s2 = new @ pr_history s" "pr_gate s2 = pr_gate s" "pr_pipe s2 = pr_pipe s"
      "mx_handler_success (pr_metrics s2) = mx_handler_success (pr_metrics s)"
      "mx_handler_failure (pr_metrics s2) = mx_handler_failure (pr_metrics s) + 1"
    and new: "handler_calls new = [(delivery m envl attempt, x)]" "x \<noteq> Returned None"
  shows "\<exists>new. follows opts m envl attempt s new (if b then on_gate task_done s3 else s3)"
proof -
  from dead_letter_outcome [OF d] obtain dl where n: "pr_history s3 = dl @ pr_history s2"
    "dl \<noteq> []" "handler_calls dl = []" "b \<longleftrightarrow> delivered opts dl" "pr_gate s3 = pr_gate s2"
    "pr_pipe s3 = pr_pipe s2"
    "mx_handler_success (pr_metrics s3) = mx_handler_success (pr_metrics s2)"
    "mx_handler_failure (pr_metrics s3) = mx_handler_failure (pr_metrics s2)"
    by blast
  have "attempt_trace opts m envl attempt (dl @ new)"
    using n(3) new(1) by (intro attempt_trace_stop(2) [where r = x]) simp
  then have "follows opts m envl attempt s (dl @ new) (if b then on_gate task_done s3 else s3)"
    using n s2 new by (cases b) (simp_all add: follows_def metrics_follow_def delivered_append)
  then show ?thesis by blast
qed

lemma attempt_loop_cases:
  assumes "attempt_loop fuel env opts grp m envl attempt s = Some s'"
  shows "(\<exists>new. follows opts m envl attempt s new s') \<or>
    (\<exists>new s1. retried opts m envl attempt s new s1 \<and>
       attempt_loop fuel env opts grp m envl (attempt + 1) s1 = Some s')"
proof -
  note run = assms [unfolded attempt_loop.simps [of fuel env opts grp m envl attempt s]]
  obtain stop h1 where p: "poll_context env (pr_history s) = (stop, h1)" by fastforce
  have h1: "h1 = PolledContext stop # pr_history s" using p by (auto simp: poll_context_def)
  obtain r h2 where c: "call_handler env (delivery m envl attempt) h1 = (r, h2)" by fastforce
  then obtain res where res: "h2 = CalledHandler (delivery m envl attempt) res # h1"
    "r = None \<longleftrightarrow> res = Returned None"
    by (rule call_handler_cases)
  let ?call = "[CalledHandler (delivery m envl attempt) res, PolledContext stop]"
  have trace: "attempt_trace opts m envl attempt ?call"
    by (rule attempt_trace_stop(2) [where r = res]) simp
  consider (cancelled) stop | (success) "\<not> stop" "r = None"
    | (failure) e where "\<not> stop" "r = Some e" by blast
  then show ?thesis
  proof cases
    case cancelled
    then have "follows opts m envl attempt s [PolledContext True] s'"
      using run p h1 by (auto simp: follows_def metrics_follow_def attempt_trace_stop)
    then show ?thesis by blast
  next
    case success
    then have "follows opts m envl attempt s ?call s'"
      using run p c h1 res trace by (auto simp: follows_def metrics_follow_def)
    then show ?thesis by blast
  next
    case failure
    with res have bad: "res \<noteq> Returned None" by simp
    define s2 where "s2 = on_metrics (mx_handler_failure_update (\<lambda>n. n + 1)) (s\<lparr>pr_history := h2\<rparr>)"
    have s2: "pr_history s2 = ?call @ pr_history s" "pr_gate s2 = pr_gate s" "pr_pipe s2 = pr_pipe s"
      "mx_handler_success (pr_metrics s2) = mx_handler_success (pr_metrics s)"
      "mx_handler_failure (pr_metrics s2) = mx_handler_failure (pr_metrics s) + 1"
      using h1 res by (simp_all add: s2_def)
    show ?thesis
    proof (cases "ko_max_attempts opts \<le> attempt")
      case True
      with run p c failure obtain b s3 where
        d: "dead_letter_until_done fuel env opts grp m attempt envl e None s2 = Some (b, s3)"
        and s': "s' = (if b then on_gate task_done s3 else s3)"
        by (auto simp: Let_def s2_def split: option.splits)
      then show ?thesis using exhausted_follows [OF d s2 _ bad] by simp
    next
      case more: False
      define s3 where "s3 = on_metrics (mx_handler_retry_update (\<lambda>n. n + 1)) s2"
      obtain ok h3 where sl: "sleep_context env (ko_retry_backoff opts) (pr_history s3) = (ok, h3)"
        by fastforce
      then obtain zs where zs: "h3 = zs @ pr_history s3" "handler_calls zs = []"
        "\<not> ok \<longrightarrow> zs \<noteq> [] \<and> \<not> delivered opts zs"
        by (rule sleep_context_cases)
      define s4 where "s4 = s3\<lparr>pr_history := h3\<rparr>"
      have r4: "retried opts m envl attempt s (zs @ ?call) s4"
        using s2 zs more bad by (simp add: s4_def s3_def retried_def)
      show ?thesis
      proof (cases ok)
        case True
        with run p c failure more sl
        have "attempt_loop fuel env opts grp m envl (attempt + 1) s4 = Some s'"
          by (simp add: Let_def s2_def s3_def s4_def)
        with r4 show ?thesis by blast
      next
        case False
        with run p c failure more sl have s': "s' = s4"
          by (simp add: Let_def s2_def s3_def s4_def)
        have "attempt_trace opts m envl attempt (zs @ ?call)"
          using zs(2) by (intro attempt_trace_stop(2) [where r = res]) simp
        then have "follows opts m envl attempt s (zs @ ?call) s'"
          using r4 zs False bad s'
          by (simp add: follows_def metrics_follow_def retried_def delivered_append)
        then show ?thesis by blast
      qed
    qed
  qed
qed

lemma attempt_loop_outcome:
  assumes "attempt_loop fuel env opts grp m envl attempt s = Some s'"
  shows "\<exists>new. follows opts m envl attempt s new s'"
  using assms
proof (induction "nat (ko_max_attempts opts - attempt)" arbitrary: attempt s rule: less_induct)
  case less
  from attempt_loop_cases [OF less.prems] show ?case
  proof
    assume "\<exists>new s1. retried opts m envl attempt s new s1 \<and>
       attempt_loop fuel env opts grp m envl (attempt + 1) s1 = Some s'"
    then obtain new s1 where r: "retried opts m envl attempt s new s1"
      "attempt_loop fuel env opts grp m envl (attempt + 1) s1 = Some s'" by blast
    then have "nat (ko_max_attempts opts - (attempt + 1)) < nat (ko_max_attempts opts - attempt)"
      by (simp add: retried_def)
    from less.hyps [OF this r(2)] retried_follows [OF r(1)] show ?case by blast
  qed
qed

section \<open>From a fresh gate\<close>

definition fresh_gate :: "gate option \<Rightarrow> gate \<Rightarrow> bool" where
  "fresh_gate go g \<longleftrightarrow> go = Some g \<and> ga_remaining g = 0 \<and> \<not> ga_completed g"

text \<open>What the gate and the pipeline are after the offset was completed, or left alone.\<close>

definition completes_offset :: "gate \<Rightarrow> 'm pipeline \<Rightarrow> gate option \<Rightarrow> 'm pipeline \<Rightarrow> bool" where
  "completes_offset g p go' p' \<longleftrightarrow>
     (\<exists>g'. go' = Some g' \<and> ga_completed g') \<and>
     pl_committer p' = fst (complete (ga_offset g) (ga_generation g) (pl_committer p)) \<and>
     pl_marks p' = pl_marks p @ snd (complete (ga_offset g) (ga_generation g) (pl_committer p))"

definition leaves_offset :: "'m pipeline \<Rightarrow> gate option \<Rightarrow> 'm pipeline \<Rightarrow> bool" where
  "leaves_offset p go' p' \<longleftrightarrow>
     (\<exists>g'. go' = Some g' \<and> \<not> ga_completed g') \<and>
     pl_committer p' = pl_committer p \<and> pl_marks p' = pl_marks p"

lemmas offset_defs = fresh_gate_def completes_offset_def leaves_offset_def

lemma fresh_no_async:
  "fresh_gate go g \<Longrightarrow> no_async_task_complete_now go p = (go', p') \<Longrightarrow> completes_offset g p go' p'"
  by (auto simp: offset_defs gate_defs Let_def)

lemma fresh_add_task:
  "fresh_gate go g \<Longrightarrow> add_task go p = (go1, p1) \<Longrightarrow>
     leaves_offset p go1 p1 \<and> (task_done go1 p1 = (go', p') \<longrightarrow> completes_offset g p go' p')"
  by (auto simp: offset_defs gate_defs Let_def)

lemma process_message_outcome:
  assumes run: "process_message fuel env opts grp m s = Some s'" and g: "fresh_gate (pr_gate s) g"
  shows "\<exists>new. pr_history s' = new @ pr_history s \<and> new \<noteq> [] \<and>
    (if delivered opts new then completes_offset g (pr_pipe s) (pr_gate s') (pr_pipe s')
     else leaves_offset (pr_pipe s) (pr_gate s') (pr_pipe s')) \<and>
    (if snd (ke_decode env (km_payload m)) = None
     then attempt_trace opts m (fst (ke_decode env (km_payload m))) 1 new
     else handler_calls new = []) \<and>
    metrics_follow s new s'"
proof (cases "ke_decode env (km_payload m)")
  case (Pair envl err)
  show ?thesis
  proof (cases err)
    case None
    define s1 where "s1 = on_gate add_task s"
    obtain go1 p1 where a: "add_task (pr_gate s) (pr_pipe s) = (go1, p1)" by fastforce
    have s1: "pr_gate s1 = go1" "pr_pipe s1 = p1" "pr_history s1 = pr_history s"
      "pr_metrics s1 = pr_metrics s"
      by (simp_all add: s1_def on_gate_def Let_def a)
    from run Pair None have "attempt_loop fuel env opts grp m envl 1 s1 = Some s'"
      by (simp add: process_message_def s1_def)
    then obtain new where "follows opts m envl 1 s1 new s'"
      using attempt_loop_outcome by blast
    then have f: "pr_history s' = new @ pr_history s" "new \<noteq> []" "attempt_trace opts m envl 1 new"
      "metrics_follow s new s'"
      "(pr_gate s', pr_pipe s') = (if delivered opts new then task_done go1 p1 else (go1, p1))"
      using s1 by (simp_all add: follows_def metrics_follow_def)
    have "if delivered opts new then completes_offset g (pr_pipe s) (pr_gate s') (pr_pipe s')
     else leaves_offset (pr_pipe s) (pr_gate s') (pr_pipe s')"
      using fresh_add_task [OF g a] f(5) by (cases "delivered opts new") auto
    with f Pair None show ?thesis by auto
  next
    case (Some e)
    define s1 where "s1 = on_metrics (mx_malformed_update (\<lambda>n. n + 1)) s"
    from run Pair Some obtain b s2 where
      d: "dead_letter_until_done fuel env opts grp m 1 envl e (Some (km_payload m)) s1 = Some (b, s2)"
      and s': "s' = (if b then on_gate no_async_task_complete_now s2 else s2)"
      by (auto simp: process_message_def s1_def Let_def split: option.splits)
    from dead_letter_outcome [OF d] obtain new where n: "pr_history s2 = new @ pr_history s" "new \<noteq> []"
      "handler_calls new = []" "b \<longleftrightarrow> delivered opts new"
      "pr_gate s2 = pr_gate s" "pr_pipe s2 = pr_pipe s" "metrics_follow s new s2"
      by (auto simp: s1_def metrics_follow_def)
    have "if delivered opts new then completes_offset g (pr_pipe s) (pr_gate s') (pr_pipe s')
     else leaves_offset (pr_pipe s) (pr_gate s') (pr_pipe s')"
    proof (cases b)
      case True
      then have "(pr_gate s', pr_pipe s') = no_async_task_complete_now (pr_gate s) (pr_pipe s)"
        using s' n by (metis on_gate_fields(3))
      then show ?thesis using fresh_no_async [OF g] True n(4) by metis
    next
      case False
      with g s' n show ?thesis by (auto simp: leaves_offset_def fresh_gate_def)
    qed
    with n s' Pair Some show ?thesis by (auto simp: metrics_follow_def)
  qed
qed

section \<open>Properties\<close>

text \<open>A world in which the handler fails every time and the first dead-letter write is rejected.\<close>

definition sample_env :: kafka_env where
  "sample_env =
     \<lparr>ke_done = (\<lambda>h. False), ke_ctx_err = ErrCanceled, ke_timer = (\<lambda>h d. True),
      ke_handler = (\<lambda>h msg. Returned (Some (ErrText ''boom''))),
      ke_send = (\<lambda>h topic key payload.
        if rejected_writes topic h = 0 then Some (ErrExternal ''broker down'') else None),
      ke_now = (\<lambda>h. \<lparr>tm_ns = 5, tm_zone = ZoneUTC\<rparr>),
      ke_encode = (\<lambda>e. Inr ''event''), ke_encode_dead = (\<lambda>r. Inr ''dead''),
      ke_decode = (\<lambda>raw. (empty_envelope, if raw = ''{}'' then None else Some (ErrExternal ''bad json'')))\<rparr>"

definition sample_kafka_message :: kafka_message where
  "sample_kafka_message =
     \<lparr>km_topic = ''analytics.events'', km_partition = 0, km_offset = 10, km_key = ''k'', km_payload = ''{}''\<rparr>"

definition sample_proc :: "i64 proc" where
  "sample_proc =
     \<lparr>pr_history = [], pr_metrics = no_metrics, pr_gate = Some sample_gate, pr_pipe = sample_pipeline\<rparr>"

lemma fresh_sample: "fresh_gate (pr_gate sample_proc) sample_gate"
  by (simp add: fresh_gate_def sample_proc_def sample_gate_def)

text \<open>
  C11. No message is lost and none is acknowledged early: processing completes the offset of a message
  if and only if its last act was a handler call that returned no error or a successful write to the
  dead-letter topic. In every other outcome (cancellation, rejected dead letters) the committer and
  the marks are untouched, so Kafka replays the message.
\<close>

theorem process_completes_iff_delivered:
  assumes "process_message fuel env opts grp m s = Some s'" and "fresh_gate (pr_gate s) g"
  shows "\<exists>new. pr_history s' = new @ pr_history s \<and> new \<noteq> [] \<and>
    (if delivered opts new then completes_offset g (pr_pipe s) (pr_gate s') (pr_pipe s')
     else leaves_offset (pr_pipe s) (pr_gate s') (pr_pipe s'))"
  using process_message_outcome [OF assms] by blast

text \<open>
  C19. A malformed record never reaches the handler; a decoded one is handed over in consecutive
  attempts 1, 2, ... with the same id, offset, key and envelope, at most as often as configured (at
  least once allowed), never again after a success, and the success and failure counters count
  exactly those calls.
\<close>

theorem process_attempts_bounded:
  assumes "process_message fuel env opts grp m s = Some s'" and "fresh_gate (pr_gate s) g"
  shows "\<exists>new. pr_history s' = new @ pr_history s \<and> new \<noteq> [] \<and>
    (if snd (ke_decode env (km_payload m)) = None
     then attempt_trace opts m (fst (ke_decode env (km_payload m))) 1 new
     else handler_calls new = []) \<and>
    metrics_follow s new s'"
  using process_message_outcome [OF assms] by blast

text \<open>
  How long the dead-letter topic may refuse: after \<open>k\<close> rejected writes it accepts. Together with an
  uncancelled context and a total codec this is what the retry loops need to end.
\<close>

definition outage_at_most :: "nat \<Rightarrow> kafka_env \<Rightarrow> string \<Rightarrow> bool" where
  "outage_at_most k env topic \<longleftrightarrow>
     (\<forall>h key payload. k \<le> rejected_writes topic h \<longrightarrow> ke_send env h topic key payload = None)"

definition keeps_running :: "kafka_env \<Rightarrow> bool" where
  "keeps_running env \<longleftrightarrow>
     (\<forall>h. \<not> ke_done env h) \<and> (\<forall>h d. ke_timer env h d) \<and> (\<forall>r. \<exists>p. ke_encode_dead env r = Inr p)"

lemma sleep_context_runs:
  "keeps_running env \<Longrightarrow> \<exists>zs. sleep_context env d h = (True, zs @ h) \<and> rejected_writes t (zs @ h) = rejected_writes t h"
  by (auto simp: sleep_context_def keeps_running_def)

lemma dead_letter_succeeds:
  assumes env: "keeps_running env" and dlt: "ko_dead_letter_topic opts \<noteq> []"
    and out: "outage_at_most k env (ko_dead_letter_topic opts)"
    and "k - rejected_writes (ko_dead_letter_topic opts) (pr_history s) < fuel"
  shows "\<exists>s'. dead_letter_until_done fuel env opts grp m att envl cause raw s = Some (True, s')"
  using assms(4)
proof (induction fuel arbitrary: s)
  case (Suc fuel)
  let ?t = "ko_dead_letter_topic opts"
  obtain r h where p: "publish_dead_letter env opts grp m att envl cause raw (pr_history s) = (r, h)"
    by fastforce
  show ?case
  proof (cases r)
    case None
    with p show ?thesis by simp
  next
    case (Some e)
    with p publish_dead_letter_writes [OF dlt, of env "pr_history s" grp m att envl cause raw e h] env
    obtain h1 payload where w: "ke_send env h1 ?t (km_key m) payload = Some e"
      "rejected_writes ?t h1 = rejected_writes ?t (pr_history s)"
      "rejected_writes ?t h = Suc (rejected_writes ?t (pr_history s))"
      by (auto simp: keeps_running_def)
    then have "rejected_writes ?t (pr_history s) < k"
      using out unfolding outage_at_most_def by (metis not_le option.distinct(1))
    with Suc.prems w(3) have less: "k - rejected_writes ?t h < fuel" by linarith
    obtain zs where sl: "sleep_context env (ko_retry_backoff opts) h = (True, zs @ h)"
      "rejected_writes ?t (zs @ h) = rejected_writes ?t h"
      using sleep_context_runs [OF env] by blast
    define s1 where "s1 = on_metrics (mx_dead_letter_failure_update (\<lambda>n. n + 1)) (s\<lparr>pr_history := zs @ h\<rparr>)"
    have "k - rejected_writes ?t (pr_history s1) < fuel"
      using less sl(2) by (simp add: s1_def)
    from Suc.IH [OF this] p Some sl(1) show ?thesis by (simp add: s1_def Let_def)
  qed
qed simp

lemma dead_letter_succeeds_delivered:
  assumes "keeps_running env" and "ko_dead_letter_topic opts \<noteq> []"
    and "outage_at_most k env (ko_dead_letter_topic opts)" and "k < fuel"
  shows "\<exists>s'. dead_letter_until_done fuel env opts grp m att envl cause raw s = Some (True, s')
    \<and> delivered opts (pr_history s')"
proof -
  have "k - rejected_writes (ko_dead_letter_topic opts) (pr_history s) < fuel" using assms(4) by linarith
  from dead_letter_succeeds [OF assms(1-3) this] obtain s' where
    d: "dead_letter_until_done fuel env opts grp m att envl cause raw s = Some (True, s')" by blast
  from dead_letter_outcome [OF d] d show ?thesis by (auto simp: delivered_append)
qed

lemma attempt_loop_returns:
  assumes env: "keeps_running env" and dlt: "ko_dead_letter_topic opts \<noteq> []"
    and out: "outage_at_most k env (ko_dead_letter_topic opts)" and fuel: "k < fuel"
  shows "\<exists>s'. attempt_loop fuel env opts grp m envl attempt s = Some s' \<and> delivered opts (pr_history s')"
proof (induction "nat (ko_max_attempts opts - attempt)" arbitrary: attempt s rule: less_induct)
  case less
  obtain h1 where p: "poll_context env (pr_history s) = (False, h1)"
    using env by (simp add: poll_context_def keeps_running_def)
  obtain r h2 where c: "call_handler env (delivery m envl attempt) h1 = (r, h2)" by fastforce
  then obtain res where res: "h2 = CalledHandler (delivery m envl attempt) res # h1"
    "r = None \<longleftrightarrow> res = Returned None"
    by (rule call_handler_cases)
  show ?case
  proof (cases r)
    case None
    with p c res show ?thesis by (subst attempt_loop.simps) (simp add: Let_def)
  next
    case (Some e)
    define s2 where "s2 = on_metrics (mx_handler_failure_update (\<lambda>n. n + 1)) (s\<lparr>pr_history := h2\<rparr>)"
    show ?thesis
    proof (cases "ko_max_attempts opts \<le> attempt")
      case True
      obtain s3 where "dead_letter_until_done fuel env opts grp m attempt envl e None s2 = Some (True, s3)"
        "delivered opts (pr_history s3)"
        using dead_letter_succeeds_delivered [OF env dlt out fuel] by blast
      with True p c Some show ?thesis by (subst attempt_loop.simps) (simp add: Let_def s2_def)
    next
      case False
      define s3 where "s3 = on_metrics (mx_handler_retry_update (\<lambda>n. n + 1)) s2"
      obtain zs where sl: "sleep_context env (ko_retry_backoff opts) (pr_history s3) = (True, zs @ pr_history s3)"
        using sleep_context_runs [OF env] by blast
      have step: "attempt_loop fuel env opts grp m envl attempt s
          = attempt_loop fuel env opts grp m envl (attempt + 1) (s3\<lparr>pr_history := zs @ pr_history s3\<rparr>)"
        using False p c Some sl by (subst attempt_loop.simps) (simp add: Let_def s2_def s3_def)
      have "nat (ko_max_attempts opts - (attempt + 1)) < nat (ko_max_attempts opts - attempt)"
        using False by simp
      from less.hyps [OF this] show ?thesis unfolding step .
    qed
  qed
qed

lemma process_message_delivers:
  assumes "keeps_running env" and "ko_dead_letter_topic opts \<noteq> []"
    and "outage_at_most k env (ko_dead_letter_topic opts)" and "k < fuel"
  shows "\<exists>s'. process_message fuel env opts grp m s = Some s' \<and> delivered opts (pr_history s')"
proof (cases "ke_decode env (km_payload m)")
  case (Pair envl err)
  show ?thesis
  proof (cases err)
    case None
    with Pair attempt_loop_returns [OF assms] show ?thesis by (simp add: process_message_def)
  next
    case (Some e)
    with Pair dead_letter_succeeds_delivered [OF assms, of grp m 1 envl e "Some (km_payload m)"
        "on_metrics (mx_malformed_update (\<lambda>n. n + 1)) s"]
    show ?thesis by (auto simp: process_message_def Let_def)
  qed
qed

lemma sample_env_runs: "keeps_running sample_env" "outage_at_most 1 sample_env ''analytics.events.dead''"
  by (simp_all add: keeps_running_def outage_at_most_def sample_env_def)

text \<open>The run behind the witnesses: five failed attempts, one rejected and one accepted dead letter.\<close>

lemma sample_run:
  "\<exists>s'. process_message 2 sample_env sample_normalized \<lparr>cg_name = ''g'', cg_consumer = ''c''\<rparr>
      sample_kafka_message sample_proc = Some s'"
  using process_message_delivers [OF sample_env_runs(1), of sample_normalized 1 2] sample_env_runs(2)
  by (simp add: sample_normalized_def) blast



theorem process_completes_iff_delivered_witness:
  "\<exists>s' new. process_message 2 sample_env sample_normalized \<lparr>cg_name = ''g'', cg_consumer = ''c''\<rparr>
      sample_kafka_message sample_proc = Some s' \<and>
    pr_history s' = new @ pr_history sample_proc \<and> new \<noteq> [] \<and>
    (if delivered sample_normalized new
     then completes_offset sample_gate (pr_pipe sample_proc) (pr_gate s') (pr_pipe s')
     else leaves_offset (pr_pipe sample_proc) (pr_gate s') (pr_pipe s'))"
proof -
  obtain s' where s': "process_message 2 sample_env sample_normalized \<lparr>cg_name = ''g'', cg_consumer = ''c''\<rparr>
      sample_kafka_message sample_proc = Some s'"
    using sample_run by blast
  from process_completes_iff_delivered [OF s' fresh_sample] s' show ?thesis by blast
qed

theorem process_attempts_bounded_witness:
  "\<exists>s' new. process_message 2 sample_env sample_normalized \<lparr>cg_name = ''g'', cg_consumer = ''c''\<rparr>
      sample_kafka_message sample_proc = Some s' \<and>
    pr_history s' = new @ pr_history sample_proc \<and> new \<noteq> [] \<and>
    (if snd (ke_decode sample_env (km_payload sample_kafka_message)) = None
     then attempt_trace sample_normalized sample_kafka_message
       (fst (ke_decode sample_env (km_payload sample_kafka_message))) 1 new
     else handler_calls new = []) \<and>
    metrics_follow sample_proc new s'"
proof -
  obtain s' where s': "process_message 2 sample_env sample_normalized \<lparr>cg_name = ''g'', cg_consumer = ''c''\<rparr>
      sample_kafka_message sample_proc = Some s'"
    using sample_run by blast
  from process_attempts_bounded [OF s' fresh_sample] s' show ?thesis by blast
qed



end
