(* ===== verification/Kafka_Pool.thy ===== *)
theory Kafka_Pool
  imports Kafka_Options "HOL-Library.Multiset"
begin

text \<open>
  Package \<open>eventbus/kafka\<close>, file \<open>worker_pool.go\<close>: the fixed-size worker pool behind the consumer.

  Submitters, workers and \<open>Close\<close> run concurrently and share the task channel, the \<open>done\<close> channel
  and atomic counters. The state counts how many of them stand at each program point between two
  atomic actions; \<open>pool_next\<close> is one atomic action of one of them (\<^const>\<open>None\<close> when it is not
  enabled), and \<open>pool_reachable\<close> closes the initial state under every interleaving. A \<open>select\<close>
  chooses among its enabled cases, so \<open>Abandon\<close> (the context or \<open>done\<close> wins) is enabled whenever a
  submitter waits: the context is not modelled here. \<open>wp_accepted\<close>, \<open>wp_started\<close> and \<open>wp_finished\<close>
  record history and no step reads them.

  The lemmas show the accounting of the counters, the capacity bounds, and that accepted tasks start
  in order and at most once.
\<close>

section \<open>State\<close>

record 'a pool =
  wp_name :: string
  wp_capacity :: nat
  wp_workers :: nat
  wp_tasks :: "'a list"         \<comment> \<open>the buffered channel, oldest first\<close>
  wp_queued :: i64
  wp_submitted :: i64
  wp_completed :: i64
  wp_rejected :: i64
  wp_closed :: bool
  wp_done :: bool
  wp_entering :: "'a list"      \<comment> \<open>submitters that have seen \<open>closed == 0\<close>\<close>
  wp_waiting :: "'a list"       \<comment> \<open>submitters counted in \<open>queued\<close>, in the \<open>select\<close>\<close>
  wp_sent :: nat                \<comment> \<open>submitters that sent and have not counted it yet\<close>
  wp_leaving :: nat             \<comment> \<open>submitters that gave up, before \<open>queued - 1\<close>\<close>
  wp_rejecting :: nat           \<comment> \<open>submitters that gave up, before \<open>rejectedTotal + 1\<close>\<close>
  wp_idle :: nat                \<comment> \<open>workers in their \<open>select\<close>\<close>
  wp_taken :: "'a list"         \<comment> \<open>tasks received, before \<open>queued - 1\<close>\<close>
  wp_running :: "'a list"
  wp_stopped :: nat
  wp_accepted :: "'a list"
  wp_started :: "'a list"
  wp_finished :: "'a list"

text \<open>\<open>newDynamicWorkerPool\<close>, after its workers have reached their loops.\<close>

definition new_pool :: "string \<Rightarrow> int \<Rightarrow> int \<Rightarrow> 'a pool" where
  "new_pool name workers0 queue_size0 =
     (let workers = (if workers0 \<le> 0 then default_workers else workers0);
          queue_size = (if queue_size0 \<le> 0 then workers * 2 else queue_size0)
      in \<lparr>wp_name = name, wp_capacity = nat queue_size, wp_workers = nat workers, wp_tasks = [],
          wp_queued = 0, wp_submitted = 0, wp_completed = 0, wp_rejected = 0, wp_closed = False,
          wp_done = False, wp_entering = [], wp_waiting = [], wp_sent = 0, wp_leaving = 0,
          wp_rejecting = 0, wp_idle = nat workers, wp_taken = [], wp_running = [], wp_stopped = 0,
          wp_accepted = [], wp_started = [], wp_finished = []\<rparr>)"

section \<open>Steps\<close>

datatype 'a pool_event =
    Refuse               \<comment> \<open>\<open>Submit\<close> sees the closed flag: \<open>rejectedTotal + 1\<close>, error\<close>
  | Enter 'a             \<comment> \<open>\<open>Submit\<close> sees the pool open\<close>
  | CountQueued 'a       \<comment> \<open>\<open>queued + 1\<close>\<close>
  | Send 'a              \<comment> \<open>\<open>case p.tasks <- task\<close>\<close>
  | CountSubmitted       \<comment> \<open>\<open>submittedTotal + 1\<close>, return nil\<close>
  | Abandon 'a           \<comment> \<open>\<open>case <-ctx.Done()\<close> or \<open>case <-p.done\<close>\<close>
  | UncountAbandoned     \<comment> \<open>\<open>queued - 1\<close>\<close>
  | CountRejected        \<comment> \<open>\<open>rejectedTotal + 1\<close>, return the error\<close>
  | CloseFlag            \<comment> \<open>the compare-and-swap of \<open>Close\<close>\<close>
  | CloseDone            \<comment> \<open>\<open>close(p.done)\<close>\<close>
  | Take 'a              \<comment> \<open>\<open>case task := <-p.tasks\<close>\<close>
  | CountTaken 'a        \<comment> \<open>\<open>queued - 1\<close>, then the task runs\<close>
  | Finish 'a            \<comment> \<open>the task returned or panicked: \<open>completedTotal + 1\<close>\<close>
  | Stop                 \<comment> \<open>a worker's \<open>case <-p.done\<close>\<close>

fun pool_next :: "'a pool_event \<Rightarrow> 'a pool \<Rightarrow> 'a pool option" where
  "pool_next Refuse p =
     (if wp_closed p then Some (p\<lparr>wp_rejected := wp_rejected p + 1\<rparr>) else None)"
| "pool_next (Enter t) p =
     (if \<not> wp_closed p then Some (p\<lparr>wp_entering := t # wp_entering p\<rparr>) else None)"
| "pool_next (CountQueued t) p =
     (if t \<in> set (wp_entering p)
      then Some (p\<lparr>wp_entering := remove1 t (wp_entering p), wp_queued := wp_queued p + 1,
                   wp_waiting := t # wp_waiting p\<rparr>)
      else None)"
| "pool_next (Send t) p =
     (if t \<in> set (wp_waiting p) \<and> length (wp_tasks p) < wp_capacity p
      then Some (p\<lparr>wp_waiting := remove1 t (wp_waiting p), wp_tasks := wp_tasks p @ [t],
                   wp_sent := Suc (wp_sent p), wp_accepted := wp_accepted p @ [t]\<rparr>)
      else None)"
| "pool_next CountSubmitted p =
     (if 0 < wp_sent p
      then Some (p\<lparr>wp_sent := wp_sent p - 1, wp_submitted := wp_submitted p + 1\<rparr>) else None)"
| "pool_next (Abandon t) p =
     (if t \<in> set (wp_waiting p)
      then Some (p\<lparr>wp_waiting := remove1 t (wp_waiting p), wp_leaving := Suc (wp_leaving p)\<rparr>)
      else None)"
| "pool_next UncountAbandoned p =
     (if 0 < wp_leaving p
      then Some (p\<lparr>wp_leaving := wp_leaving p - 1, wp_queued := wp_queued p - 1,
                   wp_rejecting := Suc (wp_rejecting p)\<rparr>)
      else None)"
| "pool_next CountRejected p =
     (if 0 < wp_rejecting p
      then Some (p\<lparr>wp_rejecting := wp_rejecting p - 1, wp_rejected := wp_rejected p + 1\<rparr>) else None)"
| "pool_next CloseFlag p = (if \<not> wp_closed p then Some (p\<lparr>wp_closed := True\<rparr>) else None)"
| "pool_next CloseDone p =
     (if wp_closed p \<and> \<not> wp_done p then Some (p\<lparr>wp_done := True\<rparr>) else None)"
| "pool_next (Take t) p =
     (case wp_tasks p of
        [] \<Rightarrow> None
      | u # rest \<Rightarrow>
          if t = u \<and> 0 < wp_idle p
          then Some (p\<lparr>wp_tasks := rest, wp_idle := wp_idle p - 1, wp_taken := t # wp_taken p,
                       wp_started := wp_started p @ [t]\<rparr>)
          else None)"
| "pool_next (CountTaken t) p =
     (if t \<in> set (wp_taken p)
      then Some (p\<lparr>wp_taken := remove1 t (wp_taken p), wp_queued := wp_queued p - 1,
                   wp_running := t # wp_running p\<rparr>)
      else None)"
| "pool_next (Finish t) p =
     (if t \<in> set (wp_running p)
      then Some (p\<lparr>wp_running := remove1 t (wp_running p), wp_completed := wp_completed p + 1,
                   wp_idle := Suc (wp_idle p), wp_finished := wp_finished p @ [t]\<rparr>)
      else None)"
| "pool_next Stop p =
     (if wp_done p \<and> 0 < wp_idle p
      then Some (p\<lparr>wp_idle := wp_idle p - 1, wp_stopped := Suc (wp_stopped p)\<rparr>) else None)"

inductive pool_reachable :: "'a pool \<Rightarrow> 'a pool \<Rightarrow> bool" for start where
  pool_start: "pool_reachable start start"
| pool_step: "pool_reachable start p \<Longrightarrow> pool_next e p = Some q \<Longrightarrow> pool_reachable start q"

text \<open>\<open>Stats\<close>; the ratio is exact (the \<open>float64\<close> quotient compares with 0.95 in the same way for every
  capacity below \<open>2 ^ 48\<close>). The goroutine count is the runtime's.\<close>

record pool_stats =
  ps_name :: string
  ps_goroutines :: int
  ps_queued :: i64
  ps_queue_capacity :: nat
  ps_queue_ratio :: rat
  ps_workers :: nat
  ps_submitted :: i64
  ps_completed :: i64
  ps_rejected :: i64
  ps_closed :: bool

definition pool_stats_of :: "int \<Rightarrow> 'a pool option \<Rightarrow> pool_stats" where
  "pool_stats_of goroutines po =
     (case po of
        None \<Rightarrow> \<lparr>ps_name = [], ps_goroutines = 0, ps_queued = 0, ps_queue_capacity = 0, ps_queue_ratio = 0,
                 ps_workers = 0, ps_submitted = 0, ps_completed = 0, ps_rejected = 0, ps_closed = False\<rparr>
      | Some p \<Rightarrow>
          \<lparr>ps_name = wp_name p, ps_goroutines = goroutines, ps_queued = wp_queued p,
           ps_queue_capacity = wp_capacity p,
           ps_queue_ratio = (if 0 < wp_capacity p
             then of_int (sint (wp_queued p)) / of_nat (wp_capacity p) else 0),
           ps_workers = wp_workers p, ps_submitted = wp_submitted p, ps_completed = wp_completed p,
           ps_rejected = wp_rejected p, ps_closed = wp_closed p\<rparr>)"

section \<open>The invariant\<close>

definition pool_inv :: "'a pool \<Rightarrow> bool" where
  "pool_inv p \<longleftrightarrow>
     wp_queued p = of_nat (length (wp_waiting p) + wp_leaving p + length (wp_tasks p) + length (wp_taken p)) \<and>
     wp_submitted p + of_nat (wp_sent p) = of_nat (length (wp_accepted p)) \<and>
     wp_completed p = of_nat (length (wp_finished p)) \<and>
     length (wp_tasks p) \<le> wp_capacity p \<and>
     wp_idle p + length (wp_taken p) + length (wp_running p) + wp_stopped p = wp_workers p \<and>
     wp_accepted p = wp_started p @ wp_tasks p \<and>
     mset (wp_started p) = mset (wp_taken p) + mset (wp_running p) + mset (wp_finished p) \<and>
     (wp_done p \<longrightarrow> wp_closed p) \<and> (\<not> wp_done p \<longrightarrow> wp_stopped p = 0)"

lemma pool_inv_new: "pool_inv (new_pool name workers queue_size)"
  by (simp add: pool_inv_def new_pool_def Let_def)

lemma length_remove1_in: "x \<in> set xs \<Longrightarrow> Suc (length (remove1 x xs)) = length xs"
  by (simp add: length_remove1) (metis One_nat_def Suc_pred length_pos_if_in_set)

lemma of_nat_length_remove1:
  "x \<in> set xs \<Longrightarrow> (of_nat (length (remove1 x xs)) :: i64) = of_nat (length xs) - 1"
  using length_remove1_in [of x xs] by (metis add_diff_cancel_left' of_nat_Suc)

lemma remove1_split: "t \<in> set xs \<Longrightarrow> \<exists>us vs. xs = us @ t # vs \<and> remove1 t xs = us @ vs"
proof -
  assume "t \<in> set xs"
  then obtain us vs where "xs = us @ t # vs" "t \<notin> set us" using split_list_first by metis
  then show ?thesis by (intro exI [of _ us] exI [of _ vs]) (simp add: remove1_append)
qed

lemma pool_inv_take:
  assumes inv: "pool_inv p" and step: "pool_next (CountTaken t) p = Some q"
  shows "pool_inv q"
proof -
  from step have "t \<in> set (wp_taken p)" by (simp split: if_splits)
  then obtain us vs where xs: "wp_taken p = us @ t # vs" "remove1 t (wp_taken p) = us @ vs"
    using remove1_split by metis
  with step have q: "q = p\<lparr>wp_taken := us @ vs, wp_queued := wp_queued p - 1, wp_running := t # wp_running p\<rparr>"
    by simp
  from inv show ?thesis unfolding q pool_inv_def by (simp add: xs(1))
qed

lemma pool_inv_finish:
  assumes inv: "pool_inv p" and step: "pool_next (Finish t) p = Some q"
  shows "pool_inv q"
proof -
  from step have "t \<in> set (wp_running p)" by (simp split: if_splits)
  then obtain us vs where xs: "wp_running p = us @ t # vs" "remove1 t (wp_running p) = us @ vs"
    using remove1_split by metis
  with step have q: "q = p\<lparr>wp_running := us @ vs, wp_completed := wp_completed p + 1,
      wp_idle := Suc (wp_idle p), wp_finished := wp_finished p @ [t]\<rparr>"
    by simp
  from inv show ?thesis unfolding q pool_inv_def by (simp add: xs(1))
qed

lemma pool_inv_step:
  assumes inv: "pool_inv p" and step: "pool_next e p = Some q"
  shows "pool_inv q"
proof (cases e)
  case (CountTaken t)
  show ?thesis by (rule pool_inv_take [OF inv step [unfolded CountTaken]])
next
  case (Finish t)
  show ?thesis by (rule pool_inv_finish [OF inv step [unfolded Finish]])
qed (use assms in \<open>auto simp: pool_inv_def of_nat_length_remove1 of_nat_diff split: if_splits list.splits\<close>)

lemma pool_reachable_inv: "pool_reachable p q \<Longrightarrow> pool_inv p \<Longrightarrow> pool_inv q"
  by (induction rule: pool_reachable.induct) (auto intro: pool_inv_step)

lemma pool_next_static:
  "pool_next e p = Some q \<Longrightarrow>
     wp_capacity q = wp_capacity p \<and> wp_workers q = wp_workers p \<and> (wp_closed p \<longrightarrow> wp_closed q) \<and>
     (wp_done p \<longrightarrow> wp_done q)"
  by (cases e) (auto split: if_splits list.splits)

lemma pool_reachable_static:
  "pool_reachable p q \<Longrightarrow> wp_capacity q = wp_capacity p \<and> wp_workers q = wp_workers p"
  by (induction rule: pool_reachable.induct) (auto dest: pool_next_static)

section \<open>Properties\<close>

text \<open>
  C21. In every interleaving of submitters, workers and shutdown, the pool never holds more tasks than
  its queue capacity, never runs more than the configured number of workers (100 and twice the
  workers when not configured), starts accepted tasks in the order they were accepted and each at
  most once, and its counters are exact: \<open>queued\<close> counts waiting submitters, queued tasks and
  tasks just handed to a worker, and every accepted task is queued, running or finished.
\<close>

theorem pool_bounded_and_exact:
  assumes "pool_reachable (new_pool name workers queue_size) p"
  shows "length (wp_tasks p) \<le> nat (if queue_size \<le> 0 then 2 * (if workers \<le> 0 then 100 else workers) else queue_size) \<and>
    length (wp_running p) \<le> nat (if workers \<le> 0 then 100 else workers) \<and>
    wp_accepted p = wp_started p @ wp_tasks p \<and>
    mset (wp_started p) = mset (wp_taken p) + mset (wp_running p) + mset (wp_finished p) \<and>
    wp_queued p = of_nat (length (wp_waiting p) + wp_leaving p + length (wp_tasks p) + length (wp_taken p)) \<and>
    wp_submitted p + of_nat (wp_sent p)
      = wp_completed p + of_nat (length (wp_tasks p) + length (wp_taken p) + length (wp_running p))"
proof -
  have inv: "pool_inv p" using assms pool_reachable_inv pool_inv_new by blast
  have cap: "wp_capacity p = nat (if queue_size \<le> 0 then 2 * (if workers \<le> 0 then 100 else workers) else queue_size)"
    "wp_workers p = nat (if workers \<le> 0 then 100 else workers)"
    using pool_reachable_static [OF assms] by (auto simp: new_pool_def Let_def default_workers_def mult.commute)
  have "length (wp_running p) \<le> wp_workers p" using inv by (simp add: pool_inv_def)
  moreover have "length (wp_started p) = length (wp_taken p) + length (wp_running p) + length (wp_finished p)"
    using inv unfolding pool_inv_def by (metis size_mset size_union)
  then have "wp_submitted p + of_nat (wp_sent p)
      = wp_completed p + of_nat (length (wp_tasks p) + length (wp_taken p) + length (wp_running p))"
    using inv by (simp add: pool_inv_def)
  ultimately show ?thesis using inv unfolding pool_inv_def cap by blast
qed

text \<open>One submitter, one worker: accepted, taken and finished, while a second submitter gives up.\<close>

definition sample_pool_run :: "nat pool_event list" where
  "sample_pool_run =
     [Enter 1, CountQueued 1, Enter 2, CountQueued 2, Send 1, Take 1, CountSubmitted, Abandon 2, CountTaken 1,
      UncountAbandoned, CountRejected, Finish 1]"

fun pool_run :: "'a pool_event list \<Rightarrow> 'a pool \<Rightarrow> 'a pool option" where
  "pool_run [] p = Some p"
| "pool_run (e # es) p = (case pool_next e p of None \<Rightarrow> None | Some q \<Rightarrow> pool_run es q)"

lemma pool_run_reachable: "pool_reachable start p \<Longrightarrow> pool_run es p = Some q \<Longrightarrow> pool_reachable start q"
  by (induction es arbitrary: p) (auto split: option.splits intro: pool_step)

lemma sample_pool_runs:
  "\<exists>p. pool_run sample_pool_run (new_pool ''kafka'' 2 0) = Some p \<and> wp_finished p = [1] \<and>
     wp_queued p = 0 \<and> wp_submitted p = 1 \<and> wp_rejected p = 1"
  by (simp add: sample_pool_run_def new_pool_def Let_def)

theorem pool_bounded_and_exact_witness:
  "\<exists>p. pool_run sample_pool_run (new_pool ''kafka'' 2 0) = Some p \<and>
    (length (wp_tasks p) \<le> nat (if (0::int) \<le> 0 then 2 * (if (2::int) \<le> 0 then 100 else 2) else 0) \<and>
    length (wp_running p) \<le> nat (if (2::int) \<le> 0 then 100 else 2) \<and>
    wp_accepted p = wp_started p @ wp_tasks p \<and>
    mset (wp_started p) = mset (wp_taken p) + mset (wp_running p) + mset (wp_finished p) \<and>
    wp_queued p = of_nat (length (wp_waiting p) + wp_leaving p + length (wp_tasks p) + length (wp_taken p)) \<and>
    wp_submitted p + of_nat (wp_sent p)
      = wp_completed p + of_nat (length (wp_tasks p) + length (wp_taken p) + length (wp_running p)))"
proof -
  obtain p where p: "pool_run sample_pool_run (new_pool ''kafka'' 2 0) = Some p"
    using sample_pool_runs by blast
  have "pool_reachable (new_pool ''kafka'' 2 0) p"
    using pool_run_reachable [OF pool_start p] .
  from pool_bounded_and_exact [OF this] p show ?thesis by blast
qed

text \<open>
  Shutdown is final: once \<open>Close\<close> has set the flag no new submission is let in and every later
  one is refused, and once \<open>done\<close> is closed, a state in which nothing can move any more has stopped
  all its workers.
\<close>

theorem pool_shutdown:
  assumes "pool_reachable (new_pool name workers queue_size) p" and "wp_closed p"
  shows "pool_next (Enter t) p = None \<and> pool_next Refuse p = Some (p\<lparr>wp_rejected := wp_rejected p + 1\<rparr>) \<and>
    (wp_done p \<and> (\<forall>e. e \<noteq> Refuse \<longrightarrow> pool_next e p = None) \<longrightarrow>
       wp_stopped p = wp_workers p \<and> wp_running p = [] \<and> wp_waiting p = [])"
proof -
  have inv: "pool_inv p" using assms(1) pool_reachable_inv pool_inv_new by blast
  have "wp_stopped p = wp_workers p \<and> wp_running p = [] \<and> wp_waiting p = []"
    if d: "wp_done p" and stuck: "\<forall>e. e \<noteq> Refuse \<longrightarrow> pool_next e p = None"
  proof -
    have "wp_idle p = 0" using stuck [rule_format, of Stop] d by (simp split: if_splits)
    moreover have "wp_taken p = []"
      using stuck [rule_format, of "CountTaken (hd (wp_taken p))"] by (cases "wp_taken p") auto
    moreover have "wp_running p = []"
      using stuck [rule_format, of "Finish (hd (wp_running p))"] by (cases "wp_running p") auto
    moreover have "wp_waiting p = []"
      using stuck [rule_format, of "Abandon (hd (wp_waiting p))"] by (cases "wp_waiting p") auto
    ultimately show ?thesis using inv by (simp add: pool_inv_def)
  qed
  with assms(2) show ?thesis by auto
qed

theorem pool_shutdown_witness:
  "\<exists>p. pool_run [CloseFlag, CloseDone, Stop, Stop] (new_pool ''kafka'' 2 0 :: nat pool) = Some p \<and>
    (pool_next (Enter 7) p = None \<and> pool_next Refuse p = Some (p\<lparr>wp_rejected := wp_rejected p + 1\<rparr>) \<and>
    (wp_done p \<and> (\<forall>e. e \<noteq> Refuse \<longrightarrow> pool_next e p = None) \<longrightarrow>
       wp_stopped p = wp_workers p \<and> wp_running p = [] \<and> wp_waiting p = []))"
proof -
  obtain p where p: "pool_run [CloseFlag, CloseDone, Stop, Stop] (new_pool ''kafka'' 2 0 :: nat pool) = Some p"
    "wp_closed p"
    by (simp add: new_pool_def Let_def)
  have "pool_reachable (new_pool ''kafka'' 2 0) p"
    using pool_run_reachable [OF pool_start p(1)] .
  from pool_shutdown [OF this p(2)] p(1) show ?thesis by blast
qed

end
