(* ===== verification/Kafka_Protector.thy ===== *)
theory Kafka_Protector
  imports Kafka_Process Kafka_Pool
begin

text \<open>
  Package \<open>eventbus/kafka\<close>, file \<open>protector.go\<close> and the diagnostic snapshots of \<open>bus.go\<close>: the guard
  that pauses Sarama's partitions under hard local pressure and resumes them when it is gone, and
  the projections of the provider's state into \<open>Stats\<close>.

  \<open>observe\<close> and \<open>reconcile\<close> hold the protector's mutex, so each is one atomic step; both return the
  \<open>Pause\<close> and \<open>Resume\<close> calls they make. A nil protector or consumer group is \<^const>\<open>None\<close>, \<^const>\<open>False\<close>.

  The lemmas relate the protector to the partitions that Sarama really has paused, over every
  sequence of observations and rebalances.
\<close>

section \<open>Pressure\<close>

definition default_hard_pending_count :: int where "default_hard_pending_count = 10000"
definition default_hard_gate_count :: i64 where "default_hard_gate_count = 10000"
definition default_hard_queue_ratio :: rat where "default_hard_queue_ratio = 95 / 100"

record consumption_snapshot =
  co_commits :: "commit_snapshot list"
  co_gate :: gate_tracker
  co_pool :: pool_stats

type_synonym partitions = "(string \<times> i32 list) list"

record protector =
  pp_paused :: partitions
  pp_metrics :: "kafka_metrics option"
  pp_hard_pending :: int
  pp_hard_gate :: i64
  pp_hard_queue_ratio :: rat

datatype group_call = Pause partitions | Resume partitions

definition new_protector :: "kafka_metrics option \<Rightarrow> protector" where
  "new_protector metrics =
     \<lparr>pp_paused = [], pp_metrics = metrics, pp_hard_pending = default_hard_pending_count,
      pp_hard_gate = default_hard_gate_count, pp_hard_queue_ratio = default_hard_queue_ratio\<rparr>"

definition has_hard_pressure :: "protector \<Rightarrow> consumption_snapshot \<Rightarrow> bool" where
  "has_hard_pressure p sn \<longleftrightarrow>
     sge (gt_in_flight (co_gate sn)) (pp_hard_gate p) \<or> sge (gt_waiting (co_gate sn)) (pp_hard_gate p) \<or>
     pp_hard_queue_ratio p \<le> ps_queue_ratio (co_pool sn) \<or>
     list_ex (\<lambda>c. pp_hard_pending p \<le> sn_pending_count c) (co_commits sn)"

definition add_partition :: "commit_snapshot \<Rightarrow> partitions \<Rightarrow> partitions" where
  "add_partition c ps =
     (case split_commit_key (sn_key c) of
        (topic, part, ok) \<Rightarrow>
          if \<not> ok then ps
          else AList.update topic ((case map_of ps topic of None \<Rightarrow> [] | Some xs \<Rightarrow> xs) @ [part]) ps)"

definition paused_partitions :: "consumption_snapshot \<Rightarrow> partitions" where
  "paused_partitions sn = fold add_partition (co_commits sn) []"

text \<open>\<open>copyPartitions\<close>: a copy has the same value; the model has no aliasing.\<close>

definition copy_partitions :: "partitions \<Rightarrow> partitions" where
  "copy_partitions ps = map (\<lambda>(topic, xs). (topic, xs)) ps"

definition track_pause :: "protector \<Rightarrow> protector" where
  "track_pause p = p\<lparr>pp_metrics := map_option (mx_pause_transitions_update (\<lambda>n. n + 1)) (pp_metrics p)\<rparr>"

definition track_resume :: "protector \<Rightarrow> protector" where
  "track_resume p = p\<lparr>pp_metrics := map_option (mx_resume_transitions_update (\<lambda>n. n + 1)) (pp_metrics p)\<rparr>"

section \<open>Observing and reconciling\<close>

definition observe ::
  "bool \<Rightarrow> consumption_snapshot \<Rightarrow> protector option \<Rightarrow> protector option \<times> group_call list" where
  "observe grp sn po =
     (case po of
        None \<Rightarrow> (None, [])
      | Some p \<Rightarrow>
          if \<not> grp then (Some p, [])
          else if has_hard_pressure p sn \<and> pp_paused p = []
          then
            let ps = paused_partitions sn
            in if ps \<noteq> []
               then (Some (track_pause (p\<lparr>pp_paused := ps\<rparr>)), [Pause (copy_partitions ps)])
               else (Some p, [])
          else if \<not> has_hard_pressure p sn \<and> pp_paused p \<noteq> []
          then (Some (track_resume (p\<lparr>pp_paused := []\<rparr>)), [Resume (copy_partitions (pp_paused p))])
          else (Some p, []))"

definition reconcile ::
  "bool \<Rightarrow> consumption_snapshot \<Rightarrow> protector option \<Rightarrow> protector option \<times> group_call list" where
  "reconcile grp sn po =
     (case po of
        None \<Rightarrow> (None, [])
      | Some p \<Rightarrow>
          if \<not> grp then (Some p, [])
          else if has_hard_pressure p sn \<and> pp_paused p \<noteq> []
          then (Some p, [Pause (copy_partitions (pp_paused p))])
          else if \<not> has_hard_pressure p sn \<and> pp_paused p \<noteq> []
          then (Some (track_resume (p\<lparr>pp_paused := []\<rparr>)), [Resume (copy_partitions (pp_paused p))])
          else (Some p, []))"

definition protector_snapshot :: "protector option \<Rightarrow> partitions option" where
  "protector_snapshot po = map_option (\<lambda>p. copy_partitions (pp_paused p)) po"

section \<open>Public statistics\<close>

record ordered_commit_stats =
  os_topic :: string
  os_partition :: i32
  os_initialized :: bool
  os_next_offset :: i64
  os_high_water :: i64
  os_lag :: i64
  os_pending_count :: int
  os_done_count :: int
  os_oldest_pending :: i64
  os_largest_gap :: i64

definition public_commit_stats :: "commit_snapshot \<Rightarrow> ordered_commit_stats list" where
  "public_commit_stats c =
     (case split_commit_key (sn_key c) of
        (topic, part, ok) \<Rightarrow>
          if \<not> ok then []
          else
            [\<lparr>os_topic = topic, os_partition = part, os_initialized = sn_initialized c,
              os_next_offset = sn_next_offset c, os_high_water = sn_high_water c,
              os_lag = (if slt (sn_next_offset c) (sn_high_water c)
                then sn_high_water c - sn_next_offset c else 0),
              os_pending_count = sn_pending_count c, os_done_count = sn_done_count c,
              os_oldest_pending = sn_oldest_pending c, os_largest_gap = sn_largest_gap c\<rparr>])"

definition public_ordered_commit_stats :: "commit_snapshot list \<Rightarrow> ordered_commit_stats list" where
  "public_ordered_commit_stats sns = concat (map public_commit_stats sns)"

definition count_partitions :: "partitions \<Rightarrow> i64" where
  "count_partitions ps = foldl (\<lambda>total (topic, xs). total + of_nat (length xs)) 0 ps"

record metrics_stats =
  ms_counters :: kafka_metrics
  ms_paused_partitions :: i64

definition public_metrics_stats :: "kafka_metrics \<Rightarrow> partitions \<Rightarrow> metrics_stats" where
  "public_metrics_stats mx paused =
     \<lparr>ms_counters = mx, ms_paused_partitions = count_partitions paused\<rparr>"

section \<open>What Sarama has paused\<close>

definition partition_set :: "partitions \<Rightarrow> (string \<times> i32) set" where
  "partition_set ps = {(topic, part). \<exists>xs. (topic, xs) \<in> set ps \<and> part \<in> set xs}"

fun group_effect :: "group_call \<Rightarrow> (string \<times> i32) set \<Rightarrow> (string \<times> i32) set" where
  "group_effect (Pause ps) S = S \<union> partition_set ps"
| "group_effect (Resume ps) S = S - partition_set ps"

text \<open>A rebalance drops Sarama's pauses; \<open>Setup\<close> then reconciles.\<close>

datatype protector_event = Observed consumption_snapshot | Rebalanced consumption_snapshot

fun protector_step ::
  "protector_event \<Rightarrow> protector \<times> (string \<times> i32) set \<Rightarrow> protector \<times> (string \<times> i32) set" where
  "protector_step (Observed sn) (p, S) =
     (let r = observe True sn (Some p) in (the (fst r), fold group_effect (snd r) S))"
| "protector_step (Rebalanced sn) (p, S) =
     (let r = reconcile True sn (Some p) in (the (fst r), fold group_effect (snd r) {}))"

fun event_snapshot :: "protector_event \<Rightarrow> consumption_snapshot" where
  "event_snapshot (Observed sn) = sn"
| "event_snapshot (Rebalanced sn) = sn"

lemma copy_partitions_id [simp]: "copy_partitions ps = ps"
  by (simp add: copy_partitions_def)

lemma partition_set_Nil [simp]: "partition_set [] = {}"
  by (simp add: partition_set_def)

lemma pressure_thresholds:
  "has_hard_pressure (track_pause p) sn = has_hard_pressure p sn"
  "has_hard_pressure (track_resume p) sn = has_hard_pressure p sn"
  "has_hard_pressure (p\<lparr>pp_paused := ps\<rparr>) sn = has_hard_pressure p sn"
  by (simp_all add: has_hard_pressure_def track_pause_def track_resume_def)

lemma track_paused [simp]: "pp_paused (track_pause p) = pp_paused p" "pp_paused (track_resume p) = pp_paused p"
  by (simp_all add: track_pause_def track_resume_def)

lemmas protector_defs = observe_def reconcile_def Let_def

lemma protector_step_thresholds:
  "has_hard_pressure (fst (protector_step e (p, S))) sn = has_hard_pressure p sn"
  by (cases e) (auto simp: protector_defs pressure_thresholds)

lemma protector_step_mirrors:
  "S = partition_set (pp_paused p) \<Longrightarrow>
     snd (protector_step e (p, S)) = partition_set (pp_paused (fst (protector_step e (p, S))))"
  by (cases e) (auto simp: protector_defs)

lemma protector_step_decides:
  "pp_paused (fst (protector_step e (p, S))) \<noteq> [] \<Longrightarrow> has_hard_pressure p (event_snapshot e)"
  by (cases e) (auto simp: protector_defs split: if_splits)

lemma protector_run:
  assumes "S = partition_set (pp_paused p)"
  shows "snd (fold protector_step es (p, S)) = partition_set (pp_paused (fst (fold protector_step es (p, S)))) \<and>
    (\<forall>sn. has_hard_pressure (fst (fold protector_step es (p, S))) sn = has_hard_pressure p sn)"
  using assms
proof (induction es arbitrary: p S)
  case (Cons e es)
  obtain p1 S1 where s: "protector_step e (p, S) = (p1, S1)" by fastforce
  with protector_step_mirrors [OF Cons.prems, of e] have "S1 = partition_set (pp_paused p1)" by simp
  moreover have "has_hard_pressure p1 sn = has_hard_pressure p sn" for sn
    using protector_step_thresholds [of e p S sn] s by simp
  ultimately show ?case using Cons.IH [of S1 p1] s by simp
qed simp

lemma fold_add_partition_keys:
  "c \<in> set cs \<Longrightarrow> split_commit_key (sn_key c) = (topic, part, True) \<Longrightarrow> fold add_partition cs ps \<noteq> []"
proof -
  have keep: "ps \<noteq> [] \<Longrightarrow> add_partition c ps \<noteq> []" for c ps
  proof -
    assume "ps \<noteq> []"
    then show ?thesis
      by (cases ps; cases "split_commit_key (sn_key c)") (auto simp: add_partition_def)
  qed
  have keeps: "ps \<noteq> [] \<Longrightarrow> fold add_partition cs ps \<noteq> []" for cs ps
    by (induction cs arbitrary: ps) (simp_all add: keep)
  have new: "split_commit_key (sn_key c) = (topic, part, True) \<Longrightarrow> add_partition c ps \<noteq> []" for c ps
    by (cases ps) (auto simp: add_partition_def)
  show "c \<in> set cs \<Longrightarrow> split_commit_key (sn_key c) = (topic, part, True) \<Longrightarrow> fold add_partition cs ps \<noteq> []"
    by (induction cs arbitrary: ps) (auto simp: keeps new)
qed

section \<open>Properties\<close>

text \<open>
  After any sequence of observations and rebalances, the partitions that Sarama has paused are
  exactly those the protector records, so it never resumes what it did not pause; and it holds
  partitions paused only if the last event saw hard pressure: one quiet observation resumes
  everything.
\<close>

theorem protector_mirrors_consumer:
  "let r = fold protector_step (es @ [e]) (new_protector metrics, {})
   in snd r = partition_set (pp_paused (fst r)) \<and>
      (pp_paused (fst r) = [] \<or> has_hard_pressure (new_protector metrics) (event_snapshot e))"
proof -
  obtain p S where s: "fold protector_step es (new_protector metrics, {}) = (p, S)" by fastforce
  have start: "{} = partition_set (pp_paused (new_protector metrics))" by (simp add: new_protector_def)
  from protector_run [OF start, of es] s
  have m: "S = partition_set (pp_paused p)" and "\<forall>sn. has_hard_pressure p sn = has_hard_pressure (new_protector metrics) sn"
    by simp_all
  with protector_step_mirrors [OF m, of e] protector_step_decides [of e p S] s show ?thesis
    by (auto simp: Let_def)
qed

text \<open>
  Gates that are never closed disable the consumer for good: once the tracker holds ten thousand
  in-flight messages, every observation and every rebalance leaves paused partitions paused, whatever
  the queue and the commits look like.
\<close>

theorem leaked_gates_never_resume:
  assumes "\<forall>e \<in> set es. sge (gt_in_flight (co_gate (event_snapshot e))) 10000"
    and "pp_paused p \<noteq> []" and "pp_hard_gate p = default_hard_gate_count"
  shows "fst (fold protector_step es (p, partition_set (pp_paused p))) = p \<and>
    snd (fold protector_step es (p, partition_set (pp_paused p))) = partition_set (pp_paused p)"
  using assms
proof (induction es)
  case (Cons e es)
  have "has_hard_pressure p (event_snapshot e)"
    using Cons.prems by (simp add: has_hard_pressure_def default_hard_gate_count_def)
  then have "protector_step e (p, partition_set (pp_paused p)) = (p, partition_set (pp_paused p))"
    using Cons.prems(2) by (cases e) (auto simp: protector_defs)
  with Cons show ?case by simp
qed simp

definition sample_snapshot :: consumption_snapshot where
  "sample_snapshot =
     \<lparr>co_commits = [], co_gate = \<lparr>gt_in_flight = 10000, gt_waiting = 10000, gt_completed = 3\<rparr>,
      co_pool = pool_stats_of 0 (None :: unit pool option)\<rparr>"

theorem leaked_gates_never_resume_witness:
  "fst (fold protector_step [Observed sample_snapshot, Rebalanced sample_snapshot]
      ((new_protector None)\<lparr>pp_paused := [(''t'', [0])]\<rparr>,
       partition_set (pp_paused ((new_protector None)\<lparr>pp_paused := [(''t'', [0])]\<rparr>))))
     = (new_protector None)\<lparr>pp_paused := [(''t'', [0])]\<rparr> \<and>
   snd (fold protector_step [Observed sample_snapshot, Rebalanced sample_snapshot]
      ((new_protector None)\<lparr>pp_paused := [(''t'', [0])]\<rparr>,
       partition_set (pp_paused ((new_protector None)\<lparr>pp_paused := [(''t'', [0])]\<rparr>))))
     = partition_set (pp_paused ((new_protector None)\<lparr>pp_paused := [(''t'', [0])]\<rparr>))"
  by (rule leaked_gates_never_resume) (simp_all add: sample_snapshot_def sge_def new_protector_def)

end
