(* ===== verification/Kafka_Consumer.thy ===== *)
theory Kafka_Consumer
  imports Kafka_Protector
begin

text \<open>
  Package \<open>eventbus/kafka\<close>, the rest of \<open>bus.go\<close>: the state of a \<open>Bus\<close>, \<open>ConsumeClaim\<close>, the tasks
  it hands to the worker pool, and \<open>Setup\<close>.

  \<open>claim_step\<close> is one turn of the claim's \<open>select\<close> loop and \<open>run_task\<close> one task executed by a worker;
  \<open>bus_run\<close> interleaves them in any order. A task is run as one step: it touches the committer only
  in the single atomic \<open>Complete\<close> at its end, and the counters by atomic additions that commute, so
  every concurrent execution has the effect of the one that runs each task at its completion point.
  What the pool decides (accept or refuse a submission, its statistics) comes with each event; package
  theory \<open>Kafka_Pool\<close> models the pool itself. \<open>bu_received\<close> and \<open>bu_delivered\<close> record history.

  The main result joins the layers: over every interleaving the offsets marked in Sarama are the
  longest prefix of the received messages all of which were delivered to the handler or to the
  dead-letter topic.
\<close>

section \<open>The bus\<close>

type_synonym owned_message = "consumer_group \<times> kafka_message"

record claim_task =
  tk_group :: consumer_group
  tk_topic :: string
  tk_partition :: i32
  tk_message :: kafka_message
  tk_gate :: gate

record bus =
  bu_commits :: "owned_message commit_manager"
  bu_tracker :: gate_tracker
  bu_protector :: "protector option"
  bu_metrics :: kafka_metrics
  bu_tasks :: "claim_task list"
  bu_marks :: "owned_message list"
  bu_calls :: "group_call list"
  bu_received :: "owned_message list"
  bu_delivered :: "owned_message list"

definition new_bus :: bus where
  "new_bus =
     \<lparr>bu_commits = [], bu_tracker = new_tracker, bu_protector = Some (new_protector (Some no_metrics)),
      bu_metrics = no_metrics, bu_tasks = [], bu_marks = [], bu_calls = [], bu_received = [],
      bu_delivered = []\<rparr>"

definition bus_snapshot :: "pool_stats \<Rightarrow> bus \<Rightarrow> consumption_snapshot" where
  "bus_snapshot pool b =
     \<lparr>co_commits = manager_snapshots (bu_commits b), co_gate = tracker_snapshot (Some (bu_tracker b)),
      co_pool = pool\<rparr>"

text \<open>The protector's \<open>metrics\<close> field points at the bus's counters.\<close>

definition with_protector ::
  "(protector option \<Rightarrow> protector option \<times> group_call list) \<Rightarrow> bus \<Rightarrow> bus" where
  "with_protector f b =
     (let r = f (map_option (pp_metrics_update (\<lambda>_. Some (bu_metrics b))) (bu_protector b))
      in b\<lparr>bu_protector := fst r,
           bu_metrics := (case fst r of None \<Rightarrow> bu_metrics b
             | Some p \<Rightarrow> (case pp_metrics p of None \<Rightarrow> bu_metrics b | Some mx \<Rightarrow> mx)),
           bu_calls := bu_calls b @ snd r\<rparr>)"

definition bus_observe :: "pool_stats \<Rightarrow> bus \<Rightarrow> bus" where
  "bus_observe pool b = with_protector (observe True (bus_snapshot pool b)) b"

text \<open>\<open>Setup\<close> of the session adapter.\<close>

definition session_setup :: "pool_stats \<Rightarrow> bus \<Rightarrow> bus" where
  "session_setup pool b = with_protector (reconcile True (bus_snapshot pool b)) b"

text \<open>The committer of one partition with what its operations share.\<close>

definition pipe_of :: "string \<Rightarrow> i32 \<Rightarrow> bus \<Rightarrow> owned_message pipeline" where
  "pipe_of topic part b =
     \<lparr>pl_tracker = Some (bu_tracker b), pl_committer = fst (manager_get topic part (bu_commits b)),
      pl_marks = bu_marks b\<rparr>"

definition put_pipe :: "string \<Rightarrow> i32 \<Rightarrow> owned_message pipeline \<Rightarrow> bus \<Rightarrow> bus" where
  "put_pipe topic part p b =
     b\<lparr>bu_commits := manager_put topic part (pl_committer p) (snd (manager_get topic part (bu_commits b))),
       bu_tracker := (case pl_tracker p of None \<Rightarrow> bu_tracker b | Some t \<Rightarrow> t),
       bu_marks := pl_marks p\<rparr>"

section \<open>Consuming a claim\<close>

datatype claim_input =
    SessionDone
  | MessagesClosed
  | NextMessage kafka_message i64 "go_error option" pool_stats

datatype claim_result = Continue bus | Return "go_error option" bus

text \<open>What happens to a message before it is submitted to the pool.\<close>

definition receive_message ::
  "consumer_group \<Rightarrow> string \<Rightarrow> i32 \<Rightarrow> i32 \<Rightarrow> kafka_message \<Rightarrow> i64 \<Rightarrow> bus \<Rightarrow> gate \<times> bus" where
  "receive_message grp topic part generation msg hw b =
     (let b1 = b\<lparr>bu_commits := manager_record_high_water_mark (km_topic msg) (km_partition msg) hw (bu_commits b),
                 bu_metrics := (bu_metrics b)\<lparr>mx_consumed := mx_consumed (bu_metrics b) + 1\<rparr>,
                 bu_received := bu_received b @ [(grp, msg)]\<rparr>;
          p1 = pipe_of topic part b1;
          p2 = p1\<lparr>pl_committer := register (km_offset msg) generation (Some (grp, msg)) (pl_committer p1)\<rparr>;
          r = new_gate (km_offset msg) generation p2
      in (fst r, put_pipe topic part (snd r) b1))"

definition abort_claim :: "string \<Rightarrow> i32 \<Rightarrow> i32 \<Rightarrow> bus \<Rightarrow> bus" where
  "abort_claim topic part generation b =
     (let p = pipe_of topic part b
      in put_pipe topic part (p\<lparr>pl_committer := abort_generation generation (pl_committer p)\<rparr>) b)"

fun claim_step :: "consumer_group \<Rightarrow> string \<Rightarrow> i32 \<Rightarrow> i32 \<Rightarrow> claim_input \<Rightarrow> bus \<Rightarrow> claim_result" where
  "claim_step grp topic part generation SessionDone b = Return None (abort_claim topic part generation b)"
| "claim_step grp topic part generation MessagesClosed b = Return None (abort_claim topic part generation b)"
| "claim_step grp topic part generation (NextMessage msg hw submitted pool) b =
     (case receive_message grp topic part generation msg hw b of
        (g, b1) \<Rightarrow>
          (case submitted of
             Some e \<Rightarrow> Return (if is_canceled e then None else Some e) (abort_claim topic part generation b1)
           | None \<Rightarrow> Continue (bus_observe pool (b1\<lparr>bu_tasks := bu_tasks b1 @
               [\<lparr>tk_group = grp, tk_topic = topic, tk_partition = part, tk_message = msg, tk_gate = g\<rparr>]\<rparr>))))"

text \<open>The task that \<open>ConsumeClaim\<close> submits, at position \<open>i\<close> of the accepted ones.\<close>

definition run_task ::
  "nat \<Rightarrow> kafka_env \<Rightarrow> 'tls kafka_options \<Rightarrow> nat \<Rightarrow> pool_stats \<Rightarrow> bus \<Rightarrow> bus option" where
  "run_task fuel env opts i pool b =
     (if length (bu_tasks b) \<le> i then None
      else
        let t = bu_tasks b ! i
        in (case process_message fuel env opts (tk_group t) (tk_message t)
              \<lparr>pr_history = [], pr_metrics = bu_metrics b, pr_gate = Some (tk_gate t),
               pr_pipe = pipe_of (tk_topic t) (tk_partition t) b\<rparr> of
             None \<Rightarrow> None
           | Some s \<Rightarrow>
               Some (bus_observe pool (put_pipe (tk_topic t) (tk_partition t) (pr_pipe s)
                 (b\<lparr>bu_metrics := pr_metrics s,
                    bu_tasks := take i (bu_tasks b) @ drop (Suc i) (bu_tasks b),
                    bu_delivered := bu_delivered b @
                      (if delivered opts (pr_history s) then [(tk_group t, tk_message t)] else [])\<rparr>)))))"

section \<open>Interleavings\<close>

datatype bus_event =
    Receive kafka_message i64 pool_stats       \<comment> \<open>the claim receives a message, the pool accepts it\<close>
  | Work nat kafka_env nat pool_stats          \<comment> \<open>fuel, environment, position of the task\<close>

fun bus_step ::
  "'tls kafka_options \<Rightarrow> consumer_group \<Rightarrow> string \<Rightarrow> i32 \<Rightarrow> i32 \<Rightarrow> bus_event \<Rightarrow> bus \<Rightarrow> bus option" where
  "bus_step opts grp topic part generation (Receive msg hw pool) b =
     (case claim_step grp topic part generation (NextMessage msg hw None pool) b of
        Continue b1 \<Rightarrow> Some b1 | Return e b1 \<Rightarrow> None)"
| "bus_step opts grp topic part generation (Work fuel env i pool) b =
     run_task fuel env opts i pool b"

fun bus_run ::
  "'tls kafka_options \<Rightarrow> consumer_group \<Rightarrow> string \<Rightarrow> i32 \<Rightarrow> i32 \<Rightarrow> bus_event list \<Rightarrow> bus \<Rightarrow> bus option" where
  "bus_run opts grp topic part generation [] b = Some b"
| "bus_run opts grp topic part generation (e # es) b =
     (case bus_step opts grp topic part generation e b of
        None \<Rightarrow> None | Some b1 \<Rightarrow> bus_run opts grp topic part generation es b1)"

fun received_messages :: "bus_event list \<Rightarrow> kafka_message list" where
  "received_messages [] = []"
| "received_messages (Receive msg hw pool # es) = msg # received_messages es"
| "received_messages (Work fuel env i pool # es) = received_messages es"

section \<open>Lemmas\<close>

lemma bus_observe_fields [simp]:
  "bu_commits (bus_observe pool b) = bu_commits b" "bu_tasks (bus_observe pool b) = bu_tasks b"
  "bu_marks (bus_observe pool b) = bu_marks b" "bu_received (bus_observe pool b) = bu_received b"
  "bu_delivered (bus_observe pool b) = bu_delivered b" "bu_tracker (bus_observe pool b) = bu_tracker b"
  by (simp_all add: bus_observe_def with_protector_def Let_def)

lemma manager_get_put [simp]: "fst (manager_get topic part (manager_put topic part c m)) = c"
  by (simp add: manager_get_def manager_put_def AList.update_conv')

lemma manager_get_get [simp]: "fst (manager_get topic part (snd (manager_get topic part m))) = fst (manager_get topic part m)"
  by (simp add: manager_get_def split: option.splits)

lemma manager_high_water:
  "fst (manager_get topic part (manager_record_high_water_mark topic part hw m)) =
     (if sint hw \<le> 0 then fst (manager_get topic part m)
      else record_high_water_mark hw (fst (manager_get topic part m)))"
  by (simp add: manager_record_high_water_mark_def Let_def)

lemma pipe_put_pipe [simp]:
  "pl_committer (pipe_of topic part (put_pipe topic part p b)) = pl_committer p"
  "bu_marks (put_pipe topic part p b) = pl_marks p" "bu_tasks (put_pipe topic part p b) = bu_tasks b"
  "bu_received (put_pipe topic part p b) = bu_received b"
  "bu_delivered (put_pipe topic part p b) = bu_delivered b"
  by (simp_all add: pipe_of_def put_pipe_def)

abbreviation committer_of :: "string \<Rightarrow> i32 \<Rightarrow> bus \<Rightarrow> owned_message committer" where
  "committer_of topic part b \<equiv> pl_committer (pipe_of topic part b)"

lemma pipe_of_observe [simp]: "pipe_of topic part (bus_observe pool b) = pipe_of topic part b"
  by (simp add: pipe_of_def)

lemma receive_message_effect:
  assumes "receive_message grp topic part generation msg hw b = (g, b1)"
    and "km_topic msg = topic" and "km_partition msg = part"
  shows "g = \<lparr>ga_offset = km_offset msg, ga_generation = generation, ga_remaining = 0, ga_completed = False\<rparr> \<and>
    bu_marks b1 = bu_marks b \<and> bu_tasks b1 = bu_tasks b \<and> bu_received b1 = bu_received b @ [(grp, msg)] \<and>
    bu_delivered b1 = bu_delivered b \<and>
    committer_of topic part b1 = register (km_offset msg) generation (Some (grp, msg))
      (if sint hw \<le> 0 then committer_of topic part b
       else record_high_water_mark hw (committer_of topic part b))"
  using assms
  by (auto simp: receive_message_def Let_def new_gate_def on_tracker_def pipe_of_def put_pipe_def manager_high_water)

text \<open>The bus simulates the committer's abstract run: message \<open>i\<close> of the claim is \<open>msgs i\<close>.\<close>

definition session_task :: "consumer_group \<Rightarrow> string \<Rightarrow> i32 \<Rightarrow> i32 \<Rightarrow> i64 \<Rightarrow> (nat \<Rightarrow> kafka_message) \<Rightarrow> nat \<Rightarrow> claim_task" where
  "session_task grp topic part generation base msgs i =
     \<lparr>tk_group = grp, tk_topic = topic, tk_partition = part, tk_message = msgs i,
      tk_gate = \<lparr>ga_offset = offset_at base i, ga_generation = generation, ga_remaining = 0, ga_completed = False\<rparr>\<rparr>"

definition bus_sim ::
  "consumer_group \<Rightarrow> string \<Rightarrow> i32 \<Rightarrow> i32 \<Rightarrow> i64 \<Rightarrow> (nat \<Rightarrow> kafka_message) \<Rightarrow> nat \<Rightarrow> bus \<Rightarrow> bool" where
  "bus_sim grp topic part generation base msgs n b \<longleftrightarrow>
     (\<exists>cr. refines generation base (\<lambda>i. (grp, msgs i)) cr \<and> cr_registered cr = n \<and>
        committer_of topic part b = cr_committer cr \<and> bu_marks b = cr_marks cr \<and>
        bu_received b = map (\<lambda>i. (grp, msgs i)) [0..<n] \<and>
        set (bu_delivered b) = (\<lambda>i. (grp, msgs i)) ` set (cr_completed cr) \<and>
        (\<forall>t \<in> set (bu_tasks b). \<exists>i < n. t = session_task grp topic part generation base msgs i))"

lemma bus_sim_receive:
  assumes sim: "bus_sim grp topic part generation base msgs n b" and n: "Suc n < 2 ^ 64"
    and msg: "km_topic (msgs n) = topic" "km_partition (msgs n) = part" "km_offset (msgs n) = offset_at base n"
    and step: "bus_step opts grp topic part generation (Receive (msgs n) hw pool) b = Some b'"
  shows "bus_sim grp topic part generation base msgs (Suc n) b'"
proof -
  from sim obtain cr where cr: "refines generation base (\<lambda>i. (grp, msgs i)) cr" "cr_registered cr = n"
    "committer_of topic part b = cr_committer cr" "bu_marks b = cr_marks cr"
    "bu_received b = map (\<lambda>i. (grp, msgs i)) [0..<n]" "set (bu_delivered b) = (\<lambda>i. (grp, msgs i)) ` set (cr_completed cr)"
    and tasks: "\<forall>t \<in> set (bu_tasks b). \<exists>i < n. t = session_task grp topic part generation base msgs i"
    by (auto simp: bus_sim_def)
  obtain g b1 where r: "receive_message grp topic part generation (msgs n) hw b = (g, b1)" by fastforce
  note eff = receive_message_effect [OF r msg(1,2)]
  have b': "b' = bus_observe pool (b1\<lparr>bu_tasks := bu_tasks b1 @
      [\<lparr>tk_group = grp, tk_topic = topic, tk_partition = part, tk_message = msgs n, tk_gate = g\<rparr>]\<rparr>)"
    using step r by simp
  define cr1 where "cr1 = (if sint hw \<le> 0 then cr else run_event generation base (\<lambda>i. (grp, msgs i)) cr (ObserveHighWater hw))"
  have cr1: "refines generation base (\<lambda>i. (grp, msgs i)) cr1" "cr_registered cr1 = n" "cr_marks cr1 = cr_marks cr"
    "cr_completed cr1 = cr_completed cr"
    "cr_committer cr1 = (if sint hw \<le> 0 then cr_committer cr else record_high_water_mark hw (cr_committer cr))"
    using cr(1,2) run_event_refines [OF cr(1), of "ObserveHighWater hw"] by (simp_all add: cr1_def)
  define cr2 where "cr2 = run_event generation base (\<lambda>i. (grp, msgs i)) cr1 RegisterNext"
  have "refines generation base (\<lambda>i. (grp, msgs i)) cr2"
    using run_event_refines [OF cr1(1), of RegisterNext] n cr1(2) by (simp add: cr2_def)
  moreover have "pipe_of topic part (b1\<lparr>bu_tasks := ts\<rparr>) = pipe_of topic part b1" for ts
    by (simp add: pipe_of_def)
  ultimately show ?thesis
    unfolding bus_sim_def b'
    using eff cr cr1 tasks msg
    by (intro exI [of _ cr2]) (auto simp: cr2_def Let_def less_Suc_eq session_task_def)
qed

lemma bus_sim_work:
  assumes sim: "bus_sim grp topic part generation base msgs n b"
    and step: "run_task fuel env opts i pool b = Some b'"
  shows "bus_sim grp topic part generation base msgs n b'"
proof -
  from sim obtain cr where cr: "refines generation base (\<lambda>i. (grp, msgs i)) cr" "cr_registered cr = n"
    "committer_of topic part b = cr_committer cr" "bu_marks b = cr_marks cr"
    "bu_received b = map (\<lambda>i. (grp, msgs i)) [0..<n]" "set (bu_delivered b) = (\<lambda>i. (grp, msgs i)) ` set (cr_completed cr)"
    and tasks: "\<forall>t \<in> set (bu_tasks b). \<exists>i < n. t = session_task grp topic part generation base msgs i"
    by (auto simp: bus_sim_def)
  from step have i: "i < length (bu_tasks b)" by (auto simp: run_task_def split: if_splits)
  with tasks nth_mem [OF i] obtain j where j: "j < n" "bu_tasks b ! i = session_task grp topic part generation base msgs j"
    by blast
  let ?g = "tk_gate (session_task grp topic part generation base msgs j)"
  define s0 where "s0 = \<lparr>pr_history = [], pr_metrics = bu_metrics b, pr_gate = Some ?g, pr_pipe = pipe_of topic part b\<rparr>"
  from step i j(2) obtain s where run: "process_message fuel env opts grp (msgs j) s0 = Some s"
    and b': "b' = bus_observe pool (put_pipe topic part (pr_pipe s)
        (b\<lparr>bu_metrics := pr_metrics s, bu_tasks := take i (bu_tasks b) @ drop (Suc i) (bu_tasks b),
           bu_delivered := bu_delivered b @ (if delivered opts (pr_history s) then [(grp, msgs j)] else [])\<rparr>))"
    by (auto simp: run_task_def s0_def Let_def session_task_def split: option.splits if_splits)
  have "fresh_gate (pr_gate s0) ?g" by (simp add: fresh_gate_def s0_def session_task_def)
  from process_message_outcome [OF run this]
  have out: "if delivered opts (pr_history s)
    then completes_offset ?g (pr_pipe s0) (pr_gate s) (pr_pipe s)
    else leaves_offset (pr_pipe s0) (pr_gate s) (pr_pipe s)"
    by (auto simp: s0_def delivered_append)
  have rest: "set (bu_tasks b') \<subseteq> set (bu_tasks b)"
    unfolding b' by (auto dest: in_set_takeD in_set_dropD)
  show ?thesis
  proof (cases "delivered opts (pr_history s)")
    case True
    define cr1 where "cr1 = run_event generation base (\<lambda>i. (grp, msgs i)) cr (CompleteIndex j)"
    have "refines generation base (\<lambda>i. (grp, msgs i)) cr1"
      using run_event_refines [OF cr(1), of "CompleteIndex j"] j(1) cr(2) by (simp add: cr1_def)
    moreover have "pl_committer (pr_pipe s) = cr_committer cr1" "pl_marks (pr_pipe s) = cr_marks cr1"
      using out True cr(3,4) j by (simp_all add: completes_offset_def cr1_def Let_def s0_def pipe_of_def session_task_def)
    ultimately show ?thesis
      unfolding bus_sim_def
      using True cr tasks rest
      by (intro exI [of _ cr1]) (auto simp: cr1_def Let_def b')
  next
    case False
    then have "pl_committer (pr_pipe s) = cr_committer cr" "pl_marks (pr_pipe s) = cr_marks cr"
      using out cr(3,4) by (simp_all add: leaves_offset_def s0_def pipe_of_def)
    then show ?thesis
      unfolding bus_sim_def
      using False cr tasks rest
      by (intro exI [of _ cr]) (auto simp: b')
  qed
qed

lemma bus_sim_run:
  assumes "bus_sim grp topic part generation base msgs n b"
    and "bus_run opts grp topic part generation es b = Some b'"
    and "received_messages es = map msgs [n..<n + length (received_messages es)]"
    and "n + length (received_messages es) < 2 ^ 64"
    and "\<forall>i. km_topic (msgs i) = topic \<and> km_partition (msgs i) = part \<and> km_offset (msgs i) = offset_at base i"
  shows "bus_sim grp topic part generation base msgs (n + length (received_messages es)) b'"
  using assms(1-4)
proof (induction es arbitrary: n b)
  case (Cons e es)
  from Cons.prems(2) obtain b1 where b1: "bus_step opts grp topic part generation e b = Some b1"
    "bus_run opts grp topic part generation es b1 = Some b'"
    by (auto split: option.splits)
  show ?case
  proof (cases e)
    case (Receive msg hw pool)
    with Cons.prems(3) have m: "msg = msgs n"
      and rest: "received_messages es = map msgs [Suc n..<Suc n + length (received_messages es)]"
      by (simp_all add: upt_conv_Cons del: upt_Suc)
    have "bus_sim grp topic part generation base msgs (Suc n) b1"
      using bus_sim_receive [OF Cons.prems(1)] Cons.prems(4) assms(5) b1(1) Receive m by simp
    from Cons.IH [OF this b1(2) rest] Cons.prems(4) Receive show ?thesis by simp
  next
    case (Work fuel env i pool)
    then have "bus_sim grp topic part generation base msgs n b1"
      using bus_sim_work [OF Cons.prems(1)] b1(1) by simp
    from Cons.IH [OF this b1(2)] Cons.prems(3,4) Work show ?thesis by simp
  qed
qed simp

lemma takeWhile_done_prefix:
  "takeWhile (\<lambda>i. i \<in> set D) [0..<n] = [0..<done_prefix D n]"
proof -
  have "takeWhile (\<lambda>i. i \<in> set D) [0..<n] = take (done_prefix D n) [0..<n]"
    unfolding done_prefix_def by (rule takeWhile_eq_take)
  moreover have "done_prefix D n \<le> n"
    using length_takeWhile_le [of "\<lambda>i. i \<in> set D" "[0..<n]"] by (simp add: done_prefix_def)
  ultimately show ?thesis by simp
qed

lemma bus_sim_marks:
  assumes "bus_sim grp topic part generation base msgs n b" and "inj_on msgs {..<n}"
  shows "bu_marks b = takeWhile (\<lambda>m. m \<in> set (bu_delivered b)) (bu_received b)"
proof -
  from assms(1) obtain cr where cr: "refines generation base (\<lambda>i. (grp, msgs i)) cr" "cr_registered cr = n"
    "bu_marks b = cr_marks cr" "bu_received b = map (\<lambda>i. (grp, msgs i)) [0..<n]"
    "set (bu_delivered b) = (\<lambda>i. (grp, msgs i)) ` set (cr_completed cr)"
    by (auto simp: bus_sim_def)
  from cr(1,2) have D: "set (cr_completed cr) \<subseteq> {..<n}" by (auto simp: refines_def Let_def)
  have "takeWhile (\<lambda>m. m \<in> set (bu_delivered b)) (bu_received b)
      = map (\<lambda>i. (grp, msgs i)) (takeWhile (\<lambda>i. (grp, msgs i) \<in> (\<lambda>i. (grp, msgs i)) ` set (cr_completed cr)) [0..<n])"
    by (simp add: takeWhile_map comp_def cr(4,5))
  also have "takeWhile (\<lambda>i. (grp, msgs i) \<in> (\<lambda>i. (grp, msgs i)) ` set (cr_completed cr)) [0..<n]
      = takeWhile (\<lambda>i. i \<in> set (cr_completed cr)) [0..<n]"
    using assms(2) D by (intro takeWhile_cong) (auto simp: inj_on_def)
  finally show ?thesis
    using refines_marks [OF cr(1)] cr(2,3) by (simp add: takeWhile_done_prefix)
qed

lemma bus_sim_new: "bus_sim grp topic part generation base msgs 0 new_bus"
  unfolding bus_sim_def
  by (intro exI [of _ run_start])
     (simp add: refines_start, simp add: run_start_def new_bus_def pipe_of_def manager_get_def)

section \<open>Properties\<close>

text \<open>
  C8. The consumer is at-least-once end to end: take any interleaving of receiving a partition's
  consecutive offsets and of workers running the accepted tasks, with any handler, any dead-letter
  producer, any cancellations and any retries. The messages marked in Sarama are then, in offset
  order, the longest prefix of the received messages all of which were delivered to the handler or
  to the dead-letter topic; no mark passes an undelivered message.
\<close>

theorem consumer_marks_delivered_prefix:
  assumes "bus_run opts grp topic part generation es new_bus = Some b"
    and "\<forall>i < length (received_messages es). km_topic (received_messages es ! i) = topic \<and>
      km_partition (received_messages es ! i) = part \<and> km_offset (received_messages es ! i) = offset_at base i"
    and "length (received_messages es) < 2 ^ 64"
  shows "bu_received b = map (Pair grp) (received_messages es) \<and>
    bu_marks b = takeWhile (\<lambda>m. m \<in> set (bu_delivered b)) (bu_received b)"
proof -
  let ?R = "received_messages es"
  define msgs where "msgs = (\<lambda>i. if i < length ?R then ?R ! i
    else \<lparr>km_topic = topic, km_partition = part, km_offset = offset_at base i, km_key = [], km_payload = []\<rparr>)"
  have R: "?R = map msgs [0..<length ?R]" by (rule nth_equalityI) (simp_all add: msgs_def)
  have "bus_sim grp topic part generation base msgs (0 + length ?R) b"
  proof (rule bus_sim_run [OF bus_sim_new assms(1)])
    show "?R = map msgs [0..<0 + length ?R]" using R by simp
    show "0 + length ?R < 2 ^ 64" using assms(3) by simp
    show "\<forall>i. km_topic (msgs i) = topic \<and> km_partition (msgs i) = part \<and> km_offset (msgs i) = offset_at base i"
      using assms(2) by (simp add: msgs_def)
  qed
  then have sim: "bus_sim grp topic part generation base msgs (length ?R) b" by simp
  have "inj_on msgs {..<length ?R}"
  proof (rule inj_onI)
    fix i j
    assume "i \<in> {..<length ?R}" "j \<in> {..<length ?R}" "msgs i = msgs j"
    then have ij: "i < length ?R" "j < length ?R" "?R ! i = ?R ! j" by (simp_all add: msgs_def)
    with assms(2) have "offset_at base i = offset_at base j" by metis
    with ij have "offset_at base i = offset_at base j" "i < length ?R" "j < length ?R" by blast+
    then show "i = j" using assms(3) offset_at_eq_iff [of i j base] by simp
  qed
  from bus_sim_marks [OF sim this] R sim show ?thesis by (auto simp: bus_sim_def) (metis (no_types, lifting) list.map_comp comp_apply map_cong)
qed

text \<open>Two messages; the second one is delivered first.\<close>

definition sample_pool_stats :: pool_stats where
  "sample_pool_stats = pool_stats_of 1 (None :: unit pool option)"

definition sample_message :: "nat \<Rightarrow> kafka_message" where
  "sample_message i =
     \<lparr>km_topic = ''t'', km_partition = 0, km_offset = offset_at 10 i, km_key = [], km_payload = ''{}''\<rparr>"

definition sample_bus_events :: "bus_event list" where
  "sample_bus_events =
     [Receive (sample_message 0) 12 sample_pool_stats, Receive (sample_message 1) 12 sample_pool_stats,
      Work 2 sample_env 1 sample_pool_stats]"

definition sample_group :: consumer_group where "sample_group = \<lparr>cg_name = ''g'', cg_consumer = ''c''\<rparr>"

lemma sample_bus_run: "\<exists>b. bus_run sample_normalized sample_group ''t'' 0 1 sample_bus_events new_bus = Some b"
proof -
  have "bus_run sample_normalized sample_group ''t'' 0 1 sample_bus_events new_bus \<noteq> None" by code_simp
  then show ?thesis by simp
qed

theorem consumer_marks_delivered_prefix_witness:
  "\<exists>b. bus_run sample_normalized sample_group ''t'' 0 1 sample_bus_events new_bus = Some b \<and>
    bu_received b = map (Pair sample_group) (received_messages sample_bus_events) \<and>
    bu_marks b = takeWhile (\<lambda>m. m \<in> set (bu_delivered b)) (bu_received b)"
proof -
  obtain b where b: "bus_run sample_normalized sample_group ''t'' 0 1 sample_bus_events new_bus = Some b"
    using sample_bus_run by blast
  have "bu_received b = map (Pair sample_group) (received_messages sample_bus_events) \<and>
    bu_marks b = takeWhile (\<lambda>m. m \<in> set (bu_delivered b)) (bu_received b)"
    by (rule consumer_marks_delivered_prefix [OF b, where base = 10])
       (auto simp: sample_bus_events_def sample_message_def less_Suc_eq)
  with b show ?thesis by blast
qed

end
