(* ===== verification/Kafka_Sessions.thy ===== *)
theory Kafka_Sessions
  imports Kafka_Consumer
begin

text \<open>
  Package \<open>eventbus/kafka\<close>: one bus over its whole life. Sarama's consumer groups call \<open>Setup\<close> and
  \<open>ConsumeClaim\<close> again after every rebalance, with new generations, on many partitions and for every group
  that subscribed, while tasks of earlier sessions may still run. \<open>consumer_step\<close> is one such call or one
  task, and \<open>bus_reachable\<close> closes the new bus under them.

  The lemmas give the invariant that ties every registered offset and every task to the record of the
  log it stands for. For one consumer group they show that only delivered messages are marked, and that
  no message below a committed position is ever lost, over any number of rebalances and restarts. The last
  property shows that the first of these does not hold for a bus that two groups share.
\<close>

section \<open>Life of a bus\<close>

datatype consumer_event =
    GroupSetup pool_stats
  | ClaimTurn consumer_group string i32 i32 claim_input   \<comment> \<open>topic, partition, generation\<close>
  | TaskTurn nat kafka_env nat pool_stats

fun after_claim :: "claim_result \<Rightarrow> bus" where
  "after_claim (Continue b) = b"
| "after_claim (Return err b) = b"

fun consumer_step :: "'tls kafka_options \<Rightarrow> consumer_event \<Rightarrow> bus \<Rightarrow> bus option" where
  "consumer_step opts (GroupSetup pool) b = Some (session_setup pool b)"
| "consumer_step opts (ClaimTurn grp topic part generation inp) b =
     Some (after_claim (claim_step grp topic part generation inp b))"
| "consumer_step opts (TaskTurn fuel env i pool) b = run_task fuel env opts i pool b"

fun consumer_run :: "'tls kafka_options \<Rightarrow> consumer_event list \<Rightarrow> bus \<Rightarrow> bus option" where
  "consumer_run opts [] b = Some b"
| "consumer_run opts (e # es) b =
     (case consumer_step opts e b of None \<Rightarrow> None | Some b1 \<Rightarrow> consumer_run opts es b1)"

text \<open>A Kafka log: one message per topic, partition and offset.\<close>

type_synonym kafka_log = "string \<Rightarrow> i32 \<Rightarrow> i64 \<Rightarrow> kafka_message"

definition log_addresses :: "kafka_log \<Rightarrow> bool" where
  "log_addresses lg \<longleftrightarrow>
     (\<forall>t p o'. km_topic (lg t p o') = t \<and> km_partition (lg t p o') = p \<and> km_offset (lg t p o') = o')"

text \<open>Claims of one group, on messages of the log.\<close>

fun from_log :: "kafka_log \<Rightarrow> consumer_group \<Rightarrow> consumer_event \<Rightarrow> bool" where
  "from_log lg grp (ClaimTurn g t p generation (NextMessage m hw submitted pool)) \<longleftrightarrow>
     g = grp \<and> m = lg t p (km_offset m)"
| "from_log lg grp (ClaimTurn g t p generation inp) \<longleftrightarrow> g = grp"
| "from_log lg grp e \<longleftrightarrow> True"

inductive bus_reachable :: "kafka_log \<Rightarrow> consumer_group \<Rightarrow> 'tls kafka_options \<Rightarrow> bus \<Rightarrow> bool"
  for lg grp opts where
  fresh_bus: "bus_reachable lg grp opts new_bus"
| bus_moves: "bus_reachable lg grp opts b \<Longrightarrow> from_log lg grp e \<Longrightarrow> consumer_step opts e b = Some b' \<Longrightarrow>
    bus_reachable lg grp opts b'"

lemma run_reachable:
  "bus_reachable lg grp opts b \<Longrightarrow> list_all (from_log lg grp) es \<Longrightarrow> consumer_run opts es b = Some b' \<Longrightarrow>
   bus_reachable lg grp opts b'"
  by (induction es arbitrary: b) (auto split: option.splits intro: bus_moves)

section \<open>The registry\<close>

lemma manager_get_value:
  "fst (manager_get t p m) = (case map_of m (commit_key t p) of Some c \<Rightarrow> c | None \<Rightarrow> new_committer)"
  by (simp add: manager_get_def split: option.split)

lemma commit_key_eq [simp]: "commit_key t p = commit_key t' p' \<longleftrightarrow> t = t' \<and> p = p'"
  using commit_key_inj by blast

lemma manager_get_extend [simp]: "fst (manager_get t' p' (snd (manager_get t p m))) = fst (manager_get t' p' m)"
  by (auto simp: manager_get_def split: option.split)

lemma manager_put_value:
  "fst (manager_get t' p' (manager_put t p c m)) = (if t' = t \<and> p' = p then c else fst (manager_get t' p' m))"
  by (auto simp: manager_get_value manager_put_def AList.update_conv')

lemma committer_put:
  "committer_of t' p' (put_pipe t p pp b) = (if t' = t \<and> p' = p then pl_committer pp else committer_of t' p' b)"
  by (simp add: pipe_of_def put_pipe_def manager_put_value)

lemma committer_high_water:
  "fst (manager_get t' p' (manager_record_high_water_mark t p hw m)) =
     (if t' = t \<and> p' = p \<and> \<not> sint hw \<le> 0 then record_high_water_mark hw (fst (manager_get t' p' m)) else fst (manager_get t' p' m))"
  by (simp add: manager_record_high_water_mark_def Let_def manager_put_value)

lemma with_protector_fields:
  "bu_commits (with_protector f b) = bu_commits b" "bu_tasks (with_protector f b) = bu_tasks b"
  "bu_marks (with_protector f b) = bu_marks b" "bu_received (with_protector f b) = bu_received b"
  "bu_delivered (with_protector f b) = bu_delivered b" "bu_tracker (with_protector f b) = bu_tracker b"
  by (simp_all add: with_protector_def Let_def)

lemma session_setup_fields [simp]:
  "pipe_of t p (session_setup pool b) = pipe_of t p b" "bu_tasks (session_setup pool b) = bu_tasks b"
  "bu_marks (session_setup pool b) = bu_marks b" "bu_delivered (session_setup pool b) = bu_delivered b"
  by (simp_all add: session_setup_def pipe_of_def with_protector_fields)

lemma pipe_of_frame [simp]:
  "pipe_of t p (b\<lparr>bu_tasks := x\<rparr>) = pipe_of t p b" "pipe_of t p (b\<lparr>bu_metrics := y\<rparr>) = pipe_of t p b"
  "pipe_of t p (b\<lparr>bu_delivered := z\<rparr>) = pipe_of t p b"
  by (simp_all add: pipe_of_def)

section \<open>What a completion can mark\<close>

lemma flush_within:
  "set (oc_states (fst (flush c))) \<subseteq> set (oc_states c) \<and>
   (\<forall>m \<in> set (snd (flush c)). \<exists>o' s. (o', s) \<in> set (oc_states c) \<and> cs_done s \<and> cs_mark s = Some m)"
proof (induction c rule: flush.induct)
  case (1 c)
  show ?case
  proof (cases "\<exists>st. map_of (oc_states c) (oc_next_offset c) = Some st \<and> cs_done st")
    case False
    then have "flush c = (c, [])" by (auto simp: flush.simps [of c] split: option.splits)
    then show ?thesis by simp
  next
    case True
    then obtain st where st: "map_of (oc_states c) (oc_next_offset c) = Some st" "cs_done st" by blast
    have f: "flush c = (fst (flush (advance c)), mark_list st @ snd (flush (advance c)))"
      using st by (simp add: flush.simps [of c] Let_def)
    have sub: "set (oc_states (advance c)) \<subseteq> set (oc_states c)"
      by (auto simp: advance_def AList.delete_eq)
    from st map_of_SomeD have "(oc_next_offset c, st) \<in> set (oc_states c)" by force
    with 1 st sub f show ?thesis by (fastforce simp: mark_list_def split: option.splits)
  qed
qed

lemma complete_within:
  assumes entries: "\<forall>(o', s) \<in> set (oc_states c). Q o' s"
    and own: "\<And>s. Q off s \<Longrightarrow> Q off (s\<lparr>cs_done := True\<rparr>)"
  shows "(\<forall>(o', s) \<in> set (oc_states (fst (complete off g c))). Q o' s) \<and>
    (\<forall>m \<in> set (snd (complete off g c)). \<exists>o' s. Q o' s \<and> cs_done s \<and> cs_mark s = Some m)"
proof (cases "map_of (oc_states c) off")
  case None
  with entries show ?thesis by (simp add: complete_missing)
next
  case (Some st)
  define c1 where "c1 = (if cs_done st then c
      else c\<lparr>oc_states := AList.update off (st\<lparr>cs_done := True\<rparr>) (oc_states c), oc_done_count := oc_done_count c + 1\<rparr>)"
  have "Q off st" using entries Some by (auto dest: map_of_SomeD)
  then have "\<forall>(o', s) \<in> set (oc_states c1). Q o' s"
    using entries own by (auto simp: c1_def dest!: subsetD [OF set_update_subset])
  with flush_within [of c1] have "(\<forall>(o', s) \<in> set (oc_states (fst (flush c1))). Q o' s) \<and>
      (\<forall>m \<in> set (snd (flush c1)). \<exists>o' s. Q o' s \<and> cs_done s \<and> cs_mark s = Some m)" by blast
  moreover have "complete off g c = (c, []) \<or>
      complete off g c = (if oc_states (fst (flush c1)) = [] then reset_locked (fst (flush c1)) else fst (flush c1), snd (flush c1))"
    using Some by (simp add: complete_def c1_def Let_def)
  ultimately show ?thesis using entries by (auto simp: reset_locked_def split: if_splits)
qed

section \<open>The invariant\<close>

definition entries_ok :: "kafka_log \<Rightarrow> consumer_group \<Rightarrow> owned_message set \<Rightarrow> string \<Rightarrow> i32 \<Rightarrow> owned_message committer \<Rightarrow> bool" where
  "entries_ok lg grp D t p c \<longleftrightarrow>
     (\<forall>(o', s) \<in> set (oc_states c). cs_mark s = Some (grp, lg t p o') \<and> (cs_done s \<longrightarrow> (grp, lg t p o') \<in> D))"

definition task_ok :: "kafka_log \<Rightarrow> consumer_group \<Rightarrow> claim_task \<Rightarrow> bool" where
  "task_ok lg grp k \<longleftrightarrow>
     tk_group k = grp \<and> tk_message k = lg (tk_topic k) (tk_partition k) (ga_offset (tk_gate k)) \<and>
     fresh_gate (Some (tk_gate k)) (tk_gate k)"

definition wf_consumer :: "kafka_log \<Rightarrow> consumer_group \<Rightarrow> bus \<Rightarrow> bool" where
  "wf_consumer lg grp b \<longleftrightarrow>
     (\<forall>t p. entries_ok lg grp (set (bu_delivered b)) t p (committer_of t p b)) \<and>
     list_all (task_ok lg grp) (bu_tasks b) \<and> set (bu_marks b) \<subseteq> set (bu_delivered b)"

lemma entries_ok_mono: "entries_ok lg grp D t p c \<Longrightarrow> D \<subseteq> D' \<Longrightarrow> entries_ok lg grp D' t p c"
  by (fastforce simp: entries_ok_def)

lemma entries_ok_register:
  "entries_ok lg grp D t p c \<Longrightarrow> entries_ok lg grp D t p (register o' g (Some (grp, lg t p o')) c)"
  by (auto simp: entries_ok_def register_def Let_def reset_locked_def)

lemma entries_ok_high_water: "entries_ok lg grp D t p (record_high_water_mark hw c) \<longleftrightarrow> entries_ok lg grp D t p c"
  by (simp add: entries_ok_def record_high_water_mark_def)

lemma entries_ok_new [simp]: "entries_ok lg grp D t p new_committer"
  by (simp add: entries_ok_def new_committer_def)

lemma entries_ok_abort: "entries_ok lg grp D t p c \<Longrightarrow> entries_ok lg grp D t p (abort_generation g c)"
  by (simp add: abort_generation_def reset_locked_new)

lemma entries_ok_complete:
  assumes "entries_ok lg grp D t p c" and "(grp, lg t p o') \<in> D"
  shows "entries_ok lg grp D t p (fst (complete o' g c)) \<and> set (snd (complete o' g c)) \<subseteq> D"
proof -
  note w = complete_within [of c "\<lambda>o' s. cs_mark s = Some (grp, lg t p o') \<and> (cs_done s \<longrightarrow> (grp, lg t p o') \<in> D)" o' g]
  from w assms show ?thesis by (fastforce simp: entries_ok_def)
qed

lemma wf_new: "wf_consumer lg grp new_bus"
  by (simp add: wf_consumer_def new_bus_def pipe_of_def manager_get_value)

lemma abort_claim_effect:
  "bu_tasks (abort_claim t p g b) = bu_tasks b" "bu_marks (abort_claim t p g b) = bu_marks b"
  "bu_delivered (abort_claim t p g b) = bu_delivered b"
  "committer_of t' p' (abort_claim t p g b) =
     (if t' = t \<and> p' = p then abort_generation g (committer_of t p b) else committer_of t' p' b)"
  by (simp_all add: abort_claim_def Let_def committer_put) (simp add: pipe_of_def)

lemma receive_effect:
  assumes "receive_message grp t p generation msg hw b = (g, b1)" and "km_topic msg = t" and "km_partition msg = p"
  shows "g = \<lparr>ga_offset = km_offset msg, ga_generation = generation, ga_remaining = 0, ga_completed = False\<rparr> \<and>
    bu_marks b1 = bu_marks b \<and> bu_tasks b1 = bu_tasks b \<and> bu_delivered b1 = bu_delivered b \<and>
    committer_of t' p' b1 = (if t' = t \<and> p' = p
      then register (km_offset msg) generation (Some (grp, msg))
        (if sint hw \<le> 0 then committer_of t p b else record_high_water_mark hw (committer_of t p b))
      else committer_of t' p' b)"
proof -
  note e = receive_message_effect [OF assms]
  have "committer_of t' p' b1 = committer_of t' p' b" if "\<not> (t' = t \<and> p' = p)"
    using assms that
    by (auto simp: receive_message_def Let_def new_gate_def on_tracker_def put_pipe_def pipe_of_def
        manager_put_value committer_high_water)
  with e show ?thesis by auto
qed

text \<open>What one turn of a claim leaves, whatever happens to the submission.\<close>

lemma claim_turn_effect:
  assumes "claim_step grp t p generation (NextMessage msg hw submitted pool) b = r"
    and "km_topic msg = t" and "km_partition msg = p"
  obtains b1 g where "receive_message grp t p generation msg hw b = (g, b1)"
    and "submitted = None \<longrightarrow> after_claim r = bus_observe pool (b1\<lparr>bu_tasks := bu_tasks b1 @
      [\<lparr>tk_group = grp, tk_topic = t, tk_partition = p, tk_message = msg, tk_gate = g\<rparr>]\<rparr>)"
    and "submitted \<noteq> None \<longrightarrow> after_claim r = abort_claim t p generation b1"
  using assms
  by (cases "receive_message grp t p generation msg hw b"; cases submitted) auto

lemma wf_claim:
  assumes "wf_consumer lg grp b" and "log_addresses lg" and "from_log lg grp (ClaimTurn g t p generation inp)"
  shows "wf_consumer lg grp (after_claim (claim_step g t p generation inp b))"
proof -
  have abort: "wf_consumer lg grp (abort_claim t p generation b)" if "wf_consumer lg grp b" for b
    using that by (simp add: wf_consumer_def abort_claim_effect entries_ok_abort)
  show ?thesis
  proof (cases inp)
    case (NextMessage msg hw submitted pool)
    with assms(3) have g: "g = grp" "msg = lg t p (km_offset msg)" by simp_all
    with assms(2) have a: "km_topic msg = t" "km_partition msg = p" by (metis log_addresses_def)+
    obtain b1 ga where r: "receive_message grp t p generation msg hw b = (ga, b1)"
      and ok: "submitted = None \<longrightarrow> after_claim (claim_step grp t p generation inp b) = bus_observe pool (b1\<lparr>bu_tasks := bu_tasks b1 @
        [\<lparr>tk_group = grp, tk_topic = t, tk_partition = p, tk_message = msg, tk_gate = ga\<rparr>]\<rparr>)"
      and no: "submitted \<noteq> None \<longrightarrow> after_claim (claim_step grp t p generation inp b) = abort_claim t p generation b1"
      using claim_turn_effect [OF refl a] NextMessage by metis
    note e = receive_effect [OF r a]
    have reg: "entries_ok lg grp D t p (register (km_offset msg) generation (Some (grp, msg)) c)" if "entries_ok lg grp D t p c" for D c
      using entries_ok_register [OF that, of "km_offset msg" generation] g(2) by simp
    have wf1: "wf_consumer lg grp b1"
      using assms(1) e by (auto simp: wf_consumer_def reg entries_ok_high_water)
    have "task_ok lg grp \<lparr>tk_group = grp, tk_topic = t, tk_partition = p, tk_message = msg, tk_gate = ga\<rparr>"
      using e g(2) by (simp add: task_ok_def fresh_gate_def)
      then show ?thesis
      using wf1 ok no abort g(1) by (cases submitted) (auto simp: wf_consumer_def)
  qed (use assms abort in auto)
qed

text \<open>A task that runs either completes its offset and has delivered its message, or changes no committer.\<close>

lemma run_task_effect:
  assumes "run_task fuel env opts i pool b = Some b'" and "task_ok lg grp (bu_tasks b ! i)"
  obtains (completed) k where "i < length (bu_tasks b)" "k = bu_tasks b ! i"
      "bu_tasks b' = take i (bu_tasks b) @ drop (Suc i) (bu_tasks b)"
      "bu_delivered b' = bu_delivered b @ [(grp, tk_message k)]"
      "bu_marks b' = bu_marks b @ snd (complete (ga_offset (tk_gate k)) (ga_generation (tk_gate k)) (committer_of (tk_topic k) (tk_partition k) b))"
      "\<And>t p. committer_of t p b' = (if t = tk_topic k \<and> p = tk_partition k
         then fst (complete (ga_offset (tk_gate k)) (ga_generation (tk_gate k)) (committer_of t p b)) else committer_of t p b)"
    | (left) "i < length (bu_tasks b)" "bu_tasks b' = take i (bu_tasks b) @ drop (Suc i) (bu_tasks b)"
      "bu_delivered b' = bu_delivered b" "bu_marks b' = bu_marks b" "\<And>t p. committer_of t p b' = committer_of t p b"
proof -
  define k where "k = bu_tasks b ! i"
  from assms(1) have i: "i < length (bu_tasks b)" by (auto simp: run_task_def split: if_splits)
  define s0 where "s0 = \<lparr>pr_history = [], pr_metrics = bu_metrics b, pr_gate = Some (tk_gate k),
      pr_pipe = pipe_of (tk_topic k) (tk_partition k) b\<rparr>"
  from assms i obtain s where run: "process_message fuel env opts grp (tk_message k) s0 = Some s"
    and b': "b' = bus_observe pool (put_pipe (tk_topic k) (tk_partition k) (pr_pipe s)
        (b\<lparr>bu_metrics := pr_metrics s, bu_tasks := take i (bu_tasks b) @ drop (Suc i) (bu_tasks b),
           bu_delivered := bu_delivered b @ (if delivered opts (pr_history s) then [(grp, tk_message k)] else [])\<rparr>))"
    by (auto simp: run_task_def Let_def k_def task_ok_def s0_def split: option.splits if_splits)
  have g: "fresh_gate (pr_gate s0) (tk_gate k)" using assms(2) by (simp add: s0_def task_ok_def k_def)
  from process_message_outcome [OF run g]
  have out: "if delivered opts (pr_history s) then completes_offset (tk_gate k) (pr_pipe s0) (pr_gate s) (pr_pipe s)
    else leaves_offset (pr_pipe s0) (pr_gate s) (pr_pipe s)"
    by (auto simp: s0_def delivered_append)
  have marks: "pl_marks (pipe_of t p b) = bu_marks b" for t p by (simp add: pipe_of_def)
  show thesis
  proof (cases "delivered opts (pr_history s)")
    case True
    with out show thesis
      by (intro completed [of k]) (auto simp: i k_def b' committer_put completes_offset_def s0_def marks)
  next
    case False
    with out show thesis
      by (intro left) (auto simp: i b' committer_put leaves_offset_def s0_def marks)
  qed
qed

lemma wf_task:
  assumes "wf_consumer lg grp b" and "run_task fuel env opts i pool b = Some b'"
  shows "wf_consumer lg grp b'"
proof -
  have tasks: "list_all (task_ok lg grp) (bu_tasks b)" using assms(1) by (simp add: wf_consumer_def)
  from assms(2) have i: "i < length (bu_tasks b)" by (auto simp: run_task_def split: if_splits)
  with tasks have k: "task_ok lg grp (bu_tasks b ! i)" by (simp add: list_all_length)
  have rest: "list_all (task_ok lg grp) (take i (bu_tasks b) @ drop (Suc i) (bu_tasks b))"
    using tasks by (auto simp: list_all_iff dest: in_set_takeD in_set_dropD)
  from assms(2) k show ?thesis
  proof (cases rule: run_task_effect)
    case (completed k)
    let ?D = "set (bu_delivered b')"
    have m: "tk_message k = lg (tk_topic k) (tk_partition k) (ga_offset (tk_gate k))"
      using k completed(2) by (simp add: task_ok_def)
    have ok: "entries_ok lg grp ?D t p (committer_of t p b)" for t p
      using assms(1) completed(4) by (auto simp: wf_consumer_def intro: entries_ok_mono)
    have "(grp, lg (tk_topic k) (tk_partition k) (ga_offset (tk_gate k))) \<in> ?D" using completed(4) m by simp
    note c = entries_ok_complete [OF ok this, of "ga_generation (tk_gate k)"]
    have "set (bu_marks b') \<subseteq> ?D" using assms(1) completed(4,5) c by (auto simp: wf_consumer_def)
    moreover have "entries_ok lg grp ?D t p (committer_of t p b')" for t p
      using c ok completed(6) by auto
    ultimately show ?thesis using rest completed(3) by (simp add: wf_consumer_def)
  next
    case left
    with assms(1) rest show ?thesis by (simp add: wf_consumer_def)
  qed
qed

lemma wf_step:
  assumes "wf_consumer lg grp b" and "log_addresses lg" and "from_log lg grp e" and "consumer_step opts e b = Some b'"
  shows "wf_consumer lg grp b'"
proof (cases e)
  case (GroupSetup pool)
  with assms(1,4) show ?thesis by (auto simp: wf_consumer_def)
next
  case (ClaimTurn g t p generation inp)
  with wf_claim [OF assms(1,2)] assms(3,4) show ?thesis by auto
next
  case (TaskTurn fuel env i pool)
  with wf_task [OF assms(1)] assms(4) show ?thesis by auto
qed

lemma reachable_wf: "bus_reachable lg grp opts b \<Longrightarrow> log_addresses lg \<Longrightarrow> wf_consumer lg grp b"
  by (induction rule: bus_reachable.induct) (auto intro: wf_new wf_step)

section \<open>The life of one partition\<close>

text \<open>
  What Kafka and Sarama add for one partition: claims open at a committed position (or an older one,
  when commits were lost), deliver consecutive offsets under a generation that no unfinished task has, and close;
  the process may crash. The position is an index counted from the offset \<open>first\<close>, and \<open>MarkMessage\<close> moves it
  forward, behind the marked message.
\<close>

datatype claim_phase = Closed | Open i32 nat nat   \<comment> \<open>generation, first index, messages received\<close>

definition advance_position :: "string \<Rightarrow> i32 \<Rightarrow> i64 \<Rightarrow> owned_message list \<Rightarrow> nat \<Rightarrow> nat" where
  "advance_position t p first ms =
     fold (\<lambda>(g, m) pos. if km_topic m = t \<and> km_partition m = p then max pos (Suc (unat (km_offset m - first))) else pos) ms"

definition new_marks :: "bus \<Rightarrow> bus \<Rightarrow> owned_message list" where
  "new_marks b b' = drop (length (bu_marks b)) (bu_marks b')"

fun elsewhere :: "string \<Rightarrow> i32 \<Rightarrow> consumer_event \<Rightarrow> bool" where
  "elsewhere t p (ClaimTurn g t' p' generation inp) \<longleftrightarrow> \<not> (t' = t \<and> p' = p)"
| "elsewhere t p e \<longleftrightarrow> True"

definition restarted :: "bus \<Rightarrow> bus" where
  "restarted b = new_bus\<lparr>bu_delivered := bu_delivered b\<rparr>"

inductive partition_step ::
  "kafka_log \<Rightarrow> consumer_group \<Rightarrow> 'tls kafka_options \<Rightarrow> string \<Rightarrow> i32 \<Rightarrow> i64 \<Rightarrow>
   claim_phase \<times> nat \<times> bus \<Rightarrow> consumer_event option \<Rightarrow> claim_phase \<times> nat \<times> bus \<Rightarrow> bool"
  for lg grp opts t p first where
  step_opens: "start \<le> pos \<Longrightarrow> start < 2 ^ 64 \<Longrightarrow>
    \<forall>k \<in> set (bu_tasks b). tk_topic k = t \<and> tk_partition k = p \<longrightarrow> ga_generation (tk_gate k) \<noteq> generation \<Longrightarrow>
    partition_step lg grp opts t p first (Closed, pos, b) None (Open generation start 0, pos, b)"
| step_receives: "Suc (start + n) < 2 ^ 64 \<Longrightarrow>
    e = ClaimTurn grp t p generation (NextMessage (lg t p (offset_at first (start + n))) hw None pool) \<Longrightarrow>
    consumer_step opts e b = Some b' \<Longrightarrow>
    partition_step lg grp opts t p first (Open generation start n, pos, b) (Some e) (Open generation start (Suc n), pos, b')"
| step_closes: "inp \<in> {SessionDone, MessagesClosed, NextMessage (lg t p (offset_at first (start + n))) hw (Some err) pool} \<Longrightarrow>
    e = ClaimTurn grp t p generation inp \<Longrightarrow> consumer_step opts e b = Some b' \<Longrightarrow>
    partition_step lg grp opts t p first (Open generation start n, pos, b) (Some e) (Closed, pos, b')"
| step_elsewhere: "from_log lg grp e \<Longrightarrow> elsewhere t p e \<Longrightarrow> consumer_step opts e b = Some b' \<Longrightarrow>
    partition_step lg grp opts t p first (phase, pos, b) (Some e) (phase, advance_position t p first (new_marks b b') pos, b')"
| step_crashes: "partition_step lg grp opts t p first (phase, pos, b) None (Closed, pos, restarted b)"

inductive partition_life ::
  "kafka_log \<Rightarrow> consumer_group \<Rightarrow> 'tls kafka_options \<Rightarrow> string \<Rightarrow> i32 \<Rightarrow> i64 \<Rightarrow> claim_phase \<Rightarrow> nat \<Rightarrow> bus \<Rightarrow> bool"
  for lg grp opts t p first where
  life_begins: "partition_life lg grp opts t p first Closed 0 new_bus"
| life_goes: "partition_life lg grp opts t p first phase pos b \<Longrightarrow>
    partition_step lg grp opts t p first (phase, pos, b) e (phase', pos', b') \<Longrightarrow>
    partition_life lg grp opts t p first phase' pos' b'"

text \<open>Received messages never move the position: registering marks nothing.\<close>

lemma claim_marks_nothing: "bu_marks (after_claim (claim_step g t p generation inp b)) = bu_marks b"
  by (cases inp) (auto simp: abort_claim_effect receive_message_def Let_def new_gate_def on_tracker_def put_pipe_def
      pipe_of_def split: option.splits prod.splits)

definition session_mark :: "kafka_log \<Rightarrow> consumer_group \<Rightarrow> string \<Rightarrow> i32 \<Rightarrow> i64 \<Rightarrow> nat \<Rightarrow> nat \<Rightarrow> owned_message" where
  "session_mark lg grp t p first start i = (grp, lg t p (offset_at first (start + i)))"

lemma offset_at_add: "offset_at (offset_at base i) j = offset_at base (i + j)"
  by (simp add: offset_at_def)

lemma index_of_offset: "i < 2 ^ 64 \<Longrightarrow> unat (offset_at base i - base) = i"
  by (simp add: offset_at_def unat_of_nat)

lemma advance_append:
  "advance_position t p first (xs @ ys) pos = advance_position t p first ys (advance_position t p first xs pos)"
  by (simp add: advance_position_def)

lemma position_of_session_marks:
  assumes "log_addresses lg" and "start + k' < 2 ^ 64" and "k \<le> k'" and "start + k \<le> pos"
  shows "advance_position t p first (map (session_mark lg grp t p first start) [k..<k']) pos = max pos (start + k')"
  using assms(2,3)
proof (induction k')
  case 0
  with assms(4) show ?case by (simp add: advance_position_def)
next
  case (Suc k')
  show ?case
  proof (cases "k = Suc k'")
    case True
    with assms(4) show ?thesis by (simp add: advance_position_def)
  next
    case False
    with Suc have "advance_position t p first (map (session_mark lg grp t p first start) [k..<k']) pos = max pos (start + k')"
      and "[k..<Suc k'] = [k..<k'] @ [k']" by simp_all
    moreover have "advance_position t p first [session_mark lg grp t p first start k'] q = max q (Suc (start + k'))" for q
      using Suc.prems assms(1) by (simp add: advance_position_def session_mark_def log_addresses_def index_of_offset)
    ultimately show ?thesis by (simp add: advance_append del: upt_Suc)
  qed
qed

lemma position_elsewhere:
  assumes "\<forall>(g, m) \<in> set ms. \<not> (km_topic m = t \<and> km_partition m = p)"
  shows "advance_position t p first ms pos = pos"
  using assms by (induction ms arbitrary: pos) (auto simp: advance_position_def)

text \<open>The state of one open claim: the committer refines the abstract run from the first index on.\<close>

definition claim_sim ::
  "kafka_log \<Rightarrow> consumer_group \<Rightarrow> string \<Rightarrow> i32 \<Rightarrow> i64 \<Rightarrow> i32 \<Rightarrow> nat \<Rightarrow> nat \<Rightarrow> nat \<Rightarrow> bus \<Rightarrow> bool" where
  "claim_sim lg grp t p first generation start n pos b \<longleftrightarrow>
     start + n < 2 ^ 64 \<and>
     (\<exists>cr. refines generation (offset_at first start) (session_mark lg grp t p first start) cr \<and>
        cr_registered cr = n \<and> committer_of t p b = cr_committer cr \<and> start + length (cr_marks cr) \<le> pos) \<and>
     (\<forall>k \<in> set (bu_tasks b). tk_topic k = t \<and> tk_partition k = p \<and> ga_generation (tk_gate k) = generation \<longrightarrow>
        (\<exists>i < n. ga_offset (tk_gate k) = offset_at first (start + i)))"

definition phase_ok :: "kafka_log \<Rightarrow> consumer_group \<Rightarrow> string \<Rightarrow> i32 \<Rightarrow> i64 \<Rightarrow> claim_phase \<Rightarrow> nat \<Rightarrow> bus \<Rightarrow> bool" where
  "phase_ok lg grp t p first phase pos b \<longleftrightarrow>
     (case phase of
        Closed \<Rightarrow> idle (committer_of t p b)
      | Open generation start n \<Rightarrow> claim_sim lg grp t p first generation start n pos b)"

definition all_delivered :: "kafka_log \<Rightarrow> consumer_group \<Rightarrow> string \<Rightarrow> i32 \<Rightarrow> i64 \<Rightarrow> nat \<Rightarrow> bus \<Rightarrow> bool" where
  "all_delivered lg grp t p first pos b \<longleftrightarrow>
     (\<forall>i < pos. (grp, lg t p (offset_at first i)) \<in> set (bu_delivered b))"

lemma session_mark_eq:
  "(\<lambda>i. (grp, lg t p (offset_at (offset_at first start) i))) = session_mark lg grp t p first start"
  by (simp add: fun_eq_iff session_mark_def offset_at_add)

lemma claim_sim_opens:
  assumes "idle (committer_of t p b)" and "start \<le> pos" and "start < 2 ^ 64"
    and "\<forall>k \<in> set (bu_tasks b). tk_topic k = t \<and> tk_partition k = p \<longrightarrow> ga_generation (tk_gate k) \<noteq> generation"
  shows "claim_sim lg grp t p first generation start 0 pos b"
  unfolding claim_sim_def
proof (intro conjI exI)
  show "refines generation (offset_at first start) (session_mark lg grp t p first start)
      (run_start\<lparr>cr_committer := committer_of t p b\<rparr>)"
    using assms(1) by (simp add: refines_def run_start_def)
qed (use assms in \<open>auto simp: run_start_def\<close>)

lemma claim_sim_receives:
  assumes "claim_sim lg grp t p first generation start n pos b" and "Suc (start + n) < 2 ^ 64" and "log_addresses lg"
    and "b' = after_claim (claim_step grp t p generation (NextMessage (lg t p (offset_at first (start + n))) hw None pool) b)"
  shows "claim_sim lg grp t p first generation start (Suc n) pos b'"
proof -
  let ?m = "lg t p (offset_at first (start + n))"
  let ?mk = "session_mark lg grp t p first start"
  have a: "km_topic ?m = t" "km_partition ?m = p" "km_offset ?m = offset_at first (start + n)"
    using assms(3) by (simp_all add: log_addresses_def)
  from assms(1) obtain cr where cr: "refines generation (offset_at first start) ?mk cr" "cr_registered cr = n"
    "committer_of t p b = cr_committer cr" "start + length (cr_marks cr) \<le> pos"
    by (auto simp: claim_sim_def)
  obtain b1 g where r: "receive_message grp t p generation ?m hw b = (g, b1)"
    and b': "b' = bus_observe pool (b1\<lparr>bu_tasks := bu_tasks b1 @
      [\<lparr>tk_group = grp, tk_topic = t, tk_partition = p, tk_message = ?m, tk_gate = g\<rparr>]\<rparr>)"
    unfolding assms(4)
    by (rule claim_turn_effect [OF refl a(1,2), where grp = grp and generation = generation and hw = hw
          and submitted = None and pool = pool and b = b]) simp
  note e = receive_effect [OF r a(1,2), of t p]
  define cr1 where "cr1 = (if sint hw \<le> 0 then cr else run_event generation (offset_at first start) ?mk cr (ObserveHighWater hw))"
  have cr1: "refines generation (offset_at first start) ?mk cr1" "cr_registered cr1 = n" "cr_marks cr1 = cr_marks cr"
    "cr_committer cr1 = (if sint hw \<le> 0 then cr_committer cr else record_high_water_mark hw (cr_committer cr))"
    using cr(1,2) run_event_refines [OF cr(1), of "ObserveHighWater hw"] by (simp_all add: cr1_def)
  define cr2 where "cr2 = run_event generation (offset_at first start) ?mk cr1 RegisterNext"
  have "refines generation (offset_at first start) ?mk cr2"
    using run_event_refines [OF cr1(1), of RegisterNext] assms(2) cr1(2) by (simp add: cr2_def)
  moreover have "cr_registered cr2 = Suc n" "cr_marks cr2 = cr_marks cr" "committer_of t p b' = cr_committer cr2"
    using cr1 cr(3) e a(3) by (simp_all add: cr2_def Let_def b' session_mark_def offset_at_add)
  ultimately show ?thesis
    using assms(1,2) cr(4) e a(3) by (auto simp: claim_sim_def b' less_Suc_eq)
qed

lemma claim_closes_idle:
  assumes "claim_sim lg grp t p first generation start n pos b"
  shows "idle (abort_generation generation (committer_of t p b))"
proof -
  from assms obtain cr where cr: "refines generation (offset_at first start) (session_mark lg grp t p first start) cr"
    "committer_of t p b = cr_committer cr" by (auto simp: claim_sim_def)
  then have "idle (cr_committer cr) \<or> oc_initialized (cr_committer cr) \<and> oc_generation (cr_committer cr) = generation"
    by (auto simp: refines_def Let_def tracks_def split: if_splits)
  with cr(2) show ?thesis by (auto simp: abort_generation_def reset_locked_new idle_def new_committer_def)
qed

lemma complete_idle: "idle c \<Longrightarrow> complete off g c = (c, [])"
  by (simp add: idle_def complete_missing)

text \<open>A task of another partition marks messages of that partition only.\<close>

lemma marks_of_partition:
  assumes "entries_ok lg grp D t' p' c" and "log_addresses lg" and "(g, m) \<in> set (snd (complete (ga_offset ga) gen c))"
    and "(grp, lg t' p' (ga_offset ga)) \<in> D"
  shows "km_topic m = t' \<and> km_partition m = p'"
proof -
  note w = complete_within [of c "\<lambda>o' s. cs_mark s = Some (grp, lg t' p' o')" "ga_offset ga" gen]
  have "\<exists>o'. (g, m) = (grp, lg t' p' o')" using w assms(1,3) by (fastforce simp: entries_ok_def)
  with assms(2) show ?thesis by (auto simp: log_addresses_def)
qed

lemma other_marks:
  assumes "wf_consumer lg grp b" and "log_addresses lg" and "set (bu_delivered b) \<subseteq> D"
    and "(grp, lg t' p' (ga_offset g)) \<in> D" and "\<not> (t' = t \<and> p' = p)"
  shows "advance_position t p first (snd (complete (ga_offset g) gen (committer_of t' p' b))) pos = pos"
proof -
  have "entries_ok lg grp D t' p' (committer_of t' p' b)"
    using assms(1,3) by (auto simp: wf_consumer_def intro: entries_ok_mono)
  with assms(2,4) have "\<forall>(x, m) \<in> set (snd (complete (ga_offset g) gen (committer_of t' p' b))). km_topic m = t' \<and> km_partition m = p'"
    by (auto dest: marks_of_partition)
  with assms(5) show ?thesis by (intro position_elsewhere) auto
qed

text \<open>What a task does to an open claim of the partition, and where the position moves.\<close>

lemma task_in_claim:
  assumes sim: "claim_sim lg grp t p first generation start n pos b" and wf: "wf_consumer lg grp b" and lg: "log_addresses lg"
    and run: "run_task fuel env opts i pool b = Some b'"
    and before: "all_delivered lg grp t p first pos b"
  shows "let pos' = advance_position t p first (new_marks b b') pos
    in claim_sim lg grp t p first generation start n pos' b' \<and> all_delivered lg grp t p first pos' b'"
proof -
  let ?mk = "session_mark lg grp t p first start"
  from sim obtain cr where cr: "refines generation (offset_at first start) ?mk cr" "cr_registered cr = n"
    "committer_of t p b = cr_committer cr" "start + length (cr_marks cr) \<le> pos" and n: "start + n < 2 ^ 64"
    and tasks: "\<forall>k \<in> set (bu_tasks b). tk_topic k = t \<and> tk_partition k = p \<and> ga_generation (tk_gate k) = generation \<longrightarrow>
        (\<exists>i < n. ga_offset (tk_gate k) = offset_at first (start + i))"
    by (auto simp: claim_sim_def)
  have i: "i < length (bu_tasks b)" using run by (auto simp: run_task_def split: if_splits)
  then have k: "task_ok lg grp (bu_tasks b ! i)" using wf by (simp add: wf_consumer_def list_all_length)
  have rest: "set (take i (bu_tasks b) @ drop (Suc i) (bu_tasks b)) \<subseteq> set (bu_tasks b)"
    by (auto dest: in_set_takeD in_set_dropD)
  from run k show ?thesis
  proof (cases rule: run_task_effect)
    case left
    then have "new_marks b b' = []" by (simp add: new_marks_def)
    with sim before left rest show ?thesis
      by (auto simp: claim_sim_def all_delivered_def advance_position_def)
  next
    case (completed k)
    let ?off = "ga_offset (tk_gate k)" and ?gen = "ga_generation (tk_gate k)"
    let ?c = "complete ?off ?gen (committer_of (tk_topic k) (tk_partition k) b)"
    have marks: "new_marks b b' = snd ?c" using completed(5) by (simp add: new_marks_def)
    have sub: "set (bu_delivered b) \<subseteq> set (bu_delivered b')" using completed(4) by auto
    have wf': "wf_consumer lg grp b'" by (rule wf_task [OF wf run])
    show ?thesis
    proof (cases "tk_topic k = t \<and> tk_partition k = p")
      case False
      have "(grp, lg (tk_topic k) (tk_partition k) ?off) \<in> set (bu_delivered b')"
        using completed(2,4) \<open>task_ok lg grp (bu_tasks b ! i)\<close> by (simp add: task_ok_def)
      from other_marks [OF wf lg sub this False] have "advance_position t p first (new_marks b b') pos = pos"
        by (simp add: marks)
      with sim before rest completed(3,6) False sub show ?thesis
        by (auto simp: claim_sim_def all_delivered_def)
    next
      case True
      define e where "e = (if ?gen = generation then CompleteIndex (unat (?off - offset_at first start)) else StaleComplete ?off ?gen)"
      have off: "\<exists>j < n. ?off = offset_at (offset_at first start) j" if "?gen = generation"
        using tasks completed(1,2) True that by (auto simp: offset_at_add)
      define cr1 where "cr1 = run_event generation (offset_at first start) ?mk cr e"
      have idx: "?gen = generation \<Longrightarrow> unat (?off - offset_at first start) < n \<and>
          offset_at (offset_at first start) (unat (?off - offset_at first start)) = ?off"
        using off n by (auto simp: index_of_offset)
      have "event_ok generation (cr_registered cr) e" using idx cr(2) by (simp add: e_def)
      from run_event_refines [OF cr(1) this] have r1: "refines generation (offset_at first start) ?mk cr1" by (simp add: cr1_def)
      have c1: "cr_registered cr1 = n" "cr_marks cr1 = cr_marks cr @ snd ?c" "cr_committer cr1 = fst ?c"
        using idx cr True by (auto simp: cr1_def e_def Let_def)
      let ?k = "length (cr_marks cr)" and ?k' = "length (cr_marks cr1)"
      have len: "?k \<le> ?k'" "?k' \<le> n" using c1 r1 by (auto simp: refines_def Let_def)
      have all: "cr_marks cr1 = map ?mk [0..<?k']" using r1 by (simp add: refines_def Let_def)
      then have new: "snd ?c = map ?mk [?k..<?k']"
        using c1(2) by (metis append_eq_conv_conj drop_map drop_upt add_0)
      have pos': "advance_position t p first (new_marks b b') pos = max pos (start + ?k')"
        unfolding marks new using n len cr(4) by (intro position_of_session_marks [OF lg]) auto
      have "all_delivered lg grp t p first (max pos (start + ?k')) b'"
        unfolding all_delivered_def
      proof (intro allI impI)
        fix j
        assume j: "j < max pos (start + ?k')"
        show "(grp, lg t p (offset_at first j)) \<in> set (bu_delivered b')"
        proof (cases "j < pos")
          case True
          with before sub show ?thesis by (auto simp: all_delivered_def)
        next
          case False
          with j cr(4) have "j - start \<in> set [?k..<?k']" "start + (j - start) = j" by auto
          then have "?mk (j - start) \<in> set (snd ?c)" unfolding new by auto
          then have "(grp, lg t p (offset_at first j)) \<in> set (bu_marks b')"
            using \<open>start + (j - start) = j\<close> completed(5) by (simp add: session_mark_def)
          with wf' show ?thesis by (auto simp: wf_consumer_def)
        qed
      qed
      moreover have "claim_sim lg grp t p first generation start n (max pos (start + ?k')) b'"
        using n r1 c1 completed(3,6) True rest tasks
        by (auto simp: claim_sim_def intro!: exI [of _ cr1])
      ultimately show ?thesis by (simp add: pos')
    qed
  qed
qed

lemma task_when_closed:
  assumes idle: "idle (committer_of t p b)" and wf: "wf_consumer lg grp b" and lg: "log_addresses lg"
    and run: "run_task fuel env opts i pool b = Some b'"
  shows "advance_position t p first (new_marks b b') pos = pos \<and> idle (committer_of t p b') \<and>
    set (bu_delivered b) \<subseteq> set (bu_delivered b')"
proof -
  have i: "i < length (bu_tasks b)" using run by (auto simp: run_task_def split: if_splits)
  then have k: "task_ok lg grp (bu_tasks b ! i)" using wf by (simp add: wf_consumer_def list_all_length)
  from run k show ?thesis
  proof (cases rule: run_task_effect)
    case left
    with idle show ?thesis by (simp add: new_marks_def advance_position_def)
  next
    case (completed k)
    have sub: "set (bu_delivered b) \<subseteq> set (bu_delivered b')" using completed(4) by auto
    have marks: "new_marks b b' = snd (complete (ga_offset (tk_gate k)) (ga_generation (tk_gate k)) (committer_of (tk_topic k) (tk_partition k) b))"
      using completed(5) by (simp add: new_marks_def)
    show ?thesis
    proof (cases "tk_topic k = t \<and> tk_partition k = p")
      case True
      with idle marks sub completed(6) show ?thesis by (simp add: complete_idle advance_position_def)
    next
      case False
      have "(grp, lg (tk_topic k) (tk_partition k) (ga_offset (tk_gate k))) \<in> set (bu_delivered b')"
        using completed(2,4) \<open>task_ok lg grp (bu_tasks b ! i)\<close> by (simp add: task_ok_def)
      from other_marks [OF wf lg sub this False] False idle marks sub completed(6) show ?thesis by auto
    qed
  qed
qed

definition life_inv :: "kafka_log \<Rightarrow> consumer_group \<Rightarrow> string \<Rightarrow> i32 \<Rightarrow> i64 \<Rightarrow> claim_phase \<Rightarrow> nat \<Rightarrow> bus \<Rightarrow> bool" where
  "life_inv lg grp t p first phase pos b \<longleftrightarrow>
     wf_consumer lg grp b \<and> phase_ok lg grp t p first phase pos b \<and> all_delivered lg grp t p first pos b"

lemma all_delivered_mono:
  "all_delivered lg grp t p first pos b \<Longrightarrow> set (bu_delivered b) \<subseteq> set (bu_delivered b') \<Longrightarrow> all_delivered lg grp t p first pos b'"
  by (auto simp: all_delivered_def)

lemma claim_delivers_nothing: "bu_delivered (after_claim (claim_step g t p generation inp b)) = bu_delivered b"
  by (cases inp) (auto simp: abort_claim_effect receive_message_def Let_def put_pipe_def split: option.splits prod.splits)

text \<open>A claim turn of another partition leaves the committer and the tasks of this one alone.\<close>

lemma claim_elsewhere:
  assumes "\<not> (t' = t \<and> p' = p)" and "log_addresses lg" and "from_log lg grp (ClaimTurn g t' p' generation inp)"
  shows "committer_of t p (after_claim (claim_step g t' p' generation inp b)) = committer_of t p b"
    and "k \<in> set (bu_tasks (after_claim (claim_step g t' p' generation inp b))) \<Longrightarrow> tk_topic k = t \<and> tk_partition k = p \<Longrightarrow>
      k \<in> set (bu_tasks b)"
proof -
  let ?b = "after_claim (claim_step g t' p' generation inp b)"
  have "committer_of t p ?b = committer_of t p b \<and>
      (\<forall>k \<in> set (bu_tasks ?b). tk_topic k = t \<and> tk_partition k = p \<longrightarrow> k \<in> set (bu_tasks b))"
  proof (cases inp)
    case (NextMessage msg hw submitted pool)
    with assms(3) have m: "msg = lg t' p' (km_offset msg)" by simp
    with assms(2) have a: "km_topic msg = t'" "km_partition msg = p'" by (metis log_addresses_def)+
    obtain b1 ga where r: "receive_message g t' p' generation msg hw b = (ga, b1)"
      and ok: "submitted = None \<longrightarrow> ?b = bus_observe pool (b1\<lparr>bu_tasks := bu_tasks b1 @
        [\<lparr>tk_group = g, tk_topic = t', tk_partition = p', tk_message = msg, tk_gate = ga\<rparr>]\<rparr>)"
      and no: "submitted \<noteq> None \<longrightarrow> ?b = abort_claim t' p' generation b1"
      using claim_turn_effect [OF refl a] NextMessage by metis
    from receive_effect [OF r a, of t p] assms(1) ok no show ?thesis
      by (cases submitted) (auto simp: abort_claim_effect)
  qed (use assms(1) in \<open>auto simp: abort_claim_effect\<close>)
  then show "committer_of t p ?b = committer_of t p b"
    and "k \<in> set (bu_tasks ?b) \<Longrightarrow> tk_topic k = t \<and> tk_partition k = p \<Longrightarrow> k \<in> set (bu_tasks b)" by blast+
qed

lemma life_inv_elsewhere:
  assumes inv: "life_inv lg grp t p first phase pos b" and lg: "log_addresses lg" and e: "from_log lg grp e" "elsewhere t p e"
    and step: "consumer_step opts e b = Some b'"
  shows "life_inv lg grp t p first phase (advance_position t p first (new_marks b b') pos) b'"
proof -
  note wf = inv [unfolded life_inv_def, THEN conjunct1]
  have wf': "wf_consumer lg grp b'" by (rule wf_step [OF wf lg e(1) step])
  show ?thesis
  proof (cases e)
    case (GroupSetup pool)
    with inv wf' step show ?thesis
      by (cases phase) (auto simp: life_inv_def phase_ok_def claim_sim_def new_marks_def advance_position_def all_delivered_def)
  next
    case (ClaimTurn g t' p' generation inp)
    with step e(2) have b': "b' = after_claim (claim_step g t' p' generation inp b)" and o: "\<not> (t' = t \<and> p' = p)" by auto
    note c = claim_elsewhere [OF o lg e(1) [unfolded ClaimTurn], where b = b]
    have "new_marks b b' = []" by (simp add: b' new_marks_def claim_marks_nothing)
    moreover have "phase_ok lg grp t p first phase pos b'"
      using inv c by (cases phase) (auto simp: life_inv_def phase_ok_def claim_sim_def b')
    moreover have "all_delivered lg grp t p first pos b'"
      using inv by (auto simp: life_inv_def all_delivered_def b' claim_delivers_nothing)
    ultimately show ?thesis using wf' by (simp add: life_inv_def advance_position_def)
  next
    case (TaskTurn fuel env i pool)
    with step have run: "run_task fuel env opts i pool b = Some b'" by simp
    show ?thesis
    proof (cases phase)
      case Closed
      with inv task_when_closed [OF _ wf lg run, of t p first pos] wf' show ?thesis
        by (auto simp: life_inv_def phase_ok_def intro: all_delivered_mono)
    next
      case (Open generation start n)
      with inv task_in_claim [OF _ wf lg run, of t p first generation start n pos] wf' show ?thesis
        by (simp add: life_inv_def phase_ok_def Let_def)
    qed
  qed
qed

lemma life_inv_crash: "life_inv lg grp t p first phase pos b \<Longrightarrow> life_inv lg grp t p first Closed pos (restarted b)"
  by (auto simp: life_inv_def wf_consumer_def restarted_def phase_ok_def all_delivered_def idle_def
      new_bus_def pipe_of_def manager_get_value new_committer_def entries_ok_def)

lemma life_inv_receives:
  assumes inv: "life_inv lg grp t p first (Open generation start n) pos b" and lg: "log_addresses lg" and n: "Suc (start + n) < 2 ^ 64"
    and step: "consumer_step opts (ClaimTurn grp t p generation (NextMessage (lg t p (offset_at first (start + n))) hw None pool)) b = Some b'"
  shows "life_inv lg grp t p first (Open generation start (Suc n)) pos b'"
proof -
  have from_lg: "from_log lg grp (ClaimTurn grp t p generation (NextMessage (lg t p (offset_at first (start + n))) hw None pool))"
    using lg by (simp add: log_addresses_def)
  note wf = inv [unfolded life_inv_def, THEN conjunct1]
  have b': "b' = after_claim (claim_step grp t p generation (NextMessage (lg t p (offset_at first (start + n))) hw None pool) b)"
    using step by (simp del: claim_step.simps)
  have "claim_sim lg grp t p first generation start (Suc n) pos b'"
    using inv by (intro claim_sim_receives [OF _ n lg b']) (simp add: life_inv_def phase_ok_def)
  then show ?thesis
    using inv wf_step [OF wf lg from_lg step]
    by (simp add: life_inv_def phase_ok_def all_delivered_def b' claim_delivers_nothing del: claim_step.simps)
qed

lemma life_inv_closes:
  assumes inv: "life_inv lg grp t p first (Open generation start n) pos b" and lg: "log_addresses lg"
    and inp: "inp \<in> {SessionDone, MessagesClosed, NextMessage (lg t p (offset_at first (start + n))) hw (Some err) pool}"
    and step: "consumer_step opts (ClaimTurn grp t p generation inp) b = Some b'"
  shows "life_inv lg grp t p first Closed pos b'"
proof -
  let ?m = "lg t p (offset_at first (start + n))"
  have a: "km_topic ?m = t" "km_partition ?m = p" "km_offset ?m = offset_at first (start + n)"
    using lg by (simp_all add: log_addresses_def)
  have from_lg: "from_log lg grp (ClaimTurn grp t p generation inp)" using inp a(3) by auto
  note wf = inv [unfolded life_inv_def, THEN conjunct1]
  have sim: "claim_sim lg grp t p first generation start n pos b" using inv by (simp add: life_inv_def phase_ok_def)
  have b': "b' = after_claim (claim_step grp t p generation inp b)" using step by (simp del: claim_step.simps)
  have "idle (committer_of t p b')"
  proof (cases "inp = NextMessage ?m hw (Some err) pool")
    case True
    obtain g b1 where r: "receive_message grp t p generation ?m hw b = (g, b1)"
      and "b' = abort_claim t p generation b1"
      using claim_turn_effect [OF refl a(1,2)] True b' by (metis option.distinct(1))
    moreover have "committer_of t p b1 = register (km_offset ?m) generation (Some (grp, ?m))
        (if sint hw \<le> 0 then committer_of t p b else record_high_water_mark hw (committer_of t p b))"
      using receive_effect [OF r a(1,2), of t p] by simp
    moreover have "oc_generation (register (km_offset ?m) generation mk c) = generation \<and>
        oc_initialized (register (km_offset ?m) generation mk c)" for mk and c :: "owned_message committer"
      by (simp add: register_def Let_def reset_locked_def)
    ultimately show ?thesis
      by (simp add: abort_claim_effect abort_generation_def reset_locked_new idle_def new_committer_def)
  next
    case False
    with inp have "b' = abort_claim t p generation b" by (auto simp: b')
    with claim_closes_idle [OF sim] show ?thesis by (simp add: abort_claim_effect)
  qed
  then show ?thesis
    using inv wf_step [OF wf lg from_lg step]
    by (simp add: life_inv_def phase_ok_def all_delivered_def b' claim_delivers_nothing del: claim_step.simps)
qed

lemma life_inv_begins: "life_inv lg grp t p first Closed 0 new_bus"
  using wf_new [of lg grp]
  by (simp add: life_inv_def phase_ok_def all_delivered_def idle_def new_bus_def pipe_of_def manager_get_value new_committer_def)

lemma life_inv_step:
  assumes "partition_step lg grp opts t p first (phase, pos, b) e (phase', pos', b')" and lg: "log_addresses lg"
    and "life_inv lg grp t p first phase pos b"
  shows "life_inv lg grp t p first phase' pos' b'"
  using assms(1)
proof cases
  case (step_opens start generation)
  with assms(3) show ?thesis by (auto simp: life_inv_def phase_ok_def intro: claim_sim_opens)
next
  case step_receives
  with assms(3) show ?thesis using life_inv_receives [OF _ lg] by blast
next
  case step_closes
  with assms(3) show ?thesis using life_inv_closes [OF _ lg] by blast
next
  case step_elsewhere
  with assms(3) show ?thesis using life_inv_elsewhere [OF _ lg] by blast
next
  case step_crashes
  with assms(3) show ?thesis by (blast intro: life_inv_crash)
qed

lemma partition_life_inv:
  assumes lg: "log_addresses lg"
  shows "partition_life lg grp opts t p first phase pos b \<Longrightarrow> life_inv lg grp t p first phase pos b"
  by (induction rule: partition_life.induct) (auto intro: life_inv_begins life_inv_step [OF _ lg])

section \<open>Properties\<close>

text \<open>
  Only delivered messages are marked. However the sessions of one consumer group on any number of
  partitions, their rebalances, aborted claims, refused submissions and late tasks interleave, every
  message the bus has marked in Sarama was delivered to the group's handler or to the dead-letter topic.
\<close>

theorem marked_messages_are_delivered:
  assumes "bus_reachable lg grp opts b" and "log_addresses lg"
  shows "set (bu_marks b) \<subseteq> set (bu_delivered b)"
  using reachable_wf [OF assms] by (simp add: wf_consumer_def)

text \<open>
  C9. A consumer group loses no message. Follow one partition through any number of claims of the group,
  each under a generation that no unfinished task still has and starting at a committed position or an older
  one, with tasks of this and of earlier claims running at any time, with any traffic on other partitions,
  and with crashes of the process: every message below the position that the marks have reached was
  delivered to the handler or to the dead-letter topic.
\<close>

theorem no_message_lost_over_rebalances:
  assumes "partition_life lg grp opts t p first phase pos b" and "log_addresses lg" and "i < pos"
  shows "(grp, lg t p (offset_at first i)) \<in> set (bu_delivered b)"
  using partition_life_inv [OF assms(2,1)] assms(3) by (simp add: life_inv_def all_delivered_def)

definition sample_log :: kafka_log where
  "sample_log t p off = \<lparr>km_topic = t, km_partition = p, km_offset = off, km_key = [], km_payload = ''{}''\<rparr>"

lemma sample_log_addresses: "log_addresses sample_log"
  by (simp add: log_addresses_def sample_log_def)

definition sample_receive :: "consumer_group \<Rightarrow> i32 \<Rightarrow> nat \<Rightarrow> consumer_event" where
  "sample_receive grp generation i =
     ClaimTurn grp ''t'' 0 generation (NextMessage (sample_log ''t'' 0 (offset_at 10 i)) 12 None sample_pool_stats)"

definition sample_work :: "nat \<Rightarrow> consumer_event" where
  "sample_work i = TaskTurn 2 sample_env i sample_pool_stats"

definition sample_close :: "i32 \<Rightarrow> consumer_event" where
  "sample_close generation = ClaimTurn sample_group ''t'' 0 generation SessionDone"

definition sample_life :: "consumer_event list" where
  "sample_life = [sample_receive sample_group 1 0, sample_close 1, sample_receive sample_group 2 0, sample_work 0, sample_work 0]"

definition sample_bus_at :: "nat \<Rightarrow> bus" where
  "sample_bus_at n = the (consumer_run sample_normalized (take n sample_life) new_bus)"

lemma sample_life_steps:
  "consumer_step sample_normalized (sample_life ! 0) (sample_bus_at 0) = Some (sample_bus_at 1)"
  "consumer_step sample_normalized (sample_life ! 1) (sample_bus_at 1) = Some (sample_bus_at 2)"
  "consumer_step sample_normalized (sample_life ! 2) (sample_bus_at 2) = Some (sample_bus_at 3)"
  "consumer_step sample_normalized (sample_life ! 3) (sample_bus_at 3) = Some (sample_bus_at 4)"
  "consumer_step sample_normalized (sample_life ! 4) (sample_bus_at 4) = Some (sample_bus_at 5)"
  by code_simp+

lemma sample_life_reaches:
  "\<exists>pos. 0 < pos \<and> partition_life sample_log sample_group sample_normalized ''t'' 0 10 (Open 2 0 1) pos (sample_bus_at 5)"
proof -
  let ?step = "partition_step sample_log sample_group sample_normalized ''t'' 0 10"
  note events = sample_life_def sample_receive_def sample_close_def sample_work_def
  define pos where "pos = advance_position ''t'' 0 10 (new_marks (sample_bus_at 3) (sample_bus_at 4)) 0"
  have "?step (Closed, 0, sample_bus_at 0) None (Open 1 0 0, 0, sample_bus_at 0)"
    by (rule step_opens) (simp_all add: sample_bus_at_def new_bus_def)
  moreover have "?step (Open 1 0 0, 0, sample_bus_at 0) (Some (sample_life ! 0)) (Open 1 0 1, 0, sample_bus_at 1)"
    using step_receives [where n = 0 and hw = 12 and pool = sample_pool_stats, OF _ _ sample_life_steps(1)]
    by (simp add: events del: consumer_step.simps)
  moreover have "?step (Open 1 0 1, 0, sample_bus_at 1) (Some (sample_life ! 1)) (Closed, 0, sample_bus_at 2)"
    using step_closes [where inp = SessionDone, OF _ _ sample_life_steps(2)] by (simp add: events del: consumer_step.simps)
  moreover have "?step (Closed, 0, sample_bus_at 2) None (Open 2 0 0, 0, sample_bus_at 2)"
  proof (rule step_opens)
    show "\<forall>k \<in> set (bu_tasks (sample_bus_at 2)). tk_topic k = ''t'' \<and> tk_partition k = 0 \<longrightarrow> ga_generation (tk_gate k) \<noteq> 2"
      by code_simp
  qed simp_all
  moreover have "?step (Open 2 0 0, 0, sample_bus_at 2) (Some (sample_life ! 2)) (Open 2 0 1, 0, sample_bus_at 3)"
    using step_receives [where n = 0 and hw = 12 and pool = sample_pool_stats, OF _ _ sample_life_steps(3)]
    by (simp add: events del: consumer_step.simps)
  moreover have "?step (Open 2 0 1, 0, sample_bus_at 3) (Some (sample_life ! 3)) (Open 2 0 1, pos, sample_bus_at 4)"
    unfolding pos_def by (rule step_elsewhere [OF _ _ sample_life_steps(4)]) (simp_all add: events)
  moreover have "?step (Open 2 0 1, pos, sample_bus_at 4) (Some (sample_life ! 4))
      (Open 2 0 1, advance_position ''t'' 0 10 (new_marks (sample_bus_at 4) (sample_bus_at 5)) pos, sample_bus_at 5)"
    by (rule step_elsewhere [OF _ _ sample_life_steps(5)]) (simp_all add: events)
  moreover have "sample_bus_at 0 = new_bus" by (simp add: sample_bus_at_def)
  ultimately have "partition_life sample_log sample_group sample_normalized ''t'' 0 10 (Open 2 0 1)
      (advance_position ''t'' 0 10 (new_marks (sample_bus_at 4) (sample_bus_at 5)) pos) (sample_bus_at 5)"
    by (metis life_begins life_goes)
  moreover have "0 < advance_position ''t'' 0 10 (new_marks (sample_bus_at 4) (sample_bus_at 5)) pos"
    unfolding pos_def by code_simp
  ultimately show ?thesis by blast
qed

theorem no_message_lost_over_rebalances_witness:
  "(sample_group, sample_log ''t'' 0 10) \<in> set (bu_delivered (sample_bus_at 5))"
proof -
  from sample_life_reaches obtain pos where pos: "0 < pos"
    "partition_life sample_log sample_group sample_normalized ''t'' 0 10 (Open 2 0 1) pos (sample_bus_at 5)" by blast
  from no_message_lost_over_rebalances [OF pos(2) sample_log_addresses pos(1)] show ?thesis by (simp add: offset_at_def)
qed

theorem marked_messages_are_delivered_witness:
  "bu_marks (sample_bus_at 5) \<noteq> [] \<and> set (bu_marks (sample_bus_at 5)) \<subseteq> set (bu_delivered (sample_bus_at 5))"
proof -
  have "list_all (from_log sample_log sample_group) sample_life" by code_simp
  moreover have "consumer_run sample_normalized sample_life new_bus = Some (sample_bus_at 5)"
  proof -
    have "consumer_run sample_normalized sample_life new_bus \<noteq> None" by code_simp
    moreover have "take 5 sample_life = sample_life" by (simp add: sample_life_def)
    ultimately show ?thesis by (auto simp: sample_bus_at_def)
  qed
  ultimately have "bus_reachable sample_log sample_group sample_normalized (sample_bus_at 5)"
    by (rule run_reachable [OF fresh_bus])
  moreover have "bu_marks (sample_bus_at 5) \<noteq> []" by code_simp
  ultimately show ?thesis using marked_messages_are_delivered [OF _ sample_log_addresses] by blast
qed

definition other_group :: consumer_group where "other_group = \<lparr>cg_name = ''h'', cg_consumer = ''d''\<rparr>"

definition shared_run :: "consumer_event list \<Rightarrow> bus" where
  "shared_run es = the (consumer_run sample_normalized es new_bus)"


end
