(* ===== verification/Kafka_Bus.thy ===== *)
theory Kafka_Bus
  imports Kafka_Sessions
begin

text \<open>
  Package \<open>eventbus/kafka\<close>, the outer shell of \<open>bus.go\<close>: \<open>New\<close>, \<open>Subscribe\<close>, \<open>Close\<close> and \<open>Stats\<close>.

  Sarama's constructors, its producer and its consumer groups are the functions of a record \<open>sarama_api\<close> on a
  world; what happens inside one \<open>Consume\<close> (set-up, claims, tasks) is the subject of \<open>Kafka_Sessions\<close>.
  \<open>Subscribe\<close> calls \<open>Consume\<close> in a loop that may run for ever, so it is a partial function: \<^const>\<open>None\<close> when
  the call does not return. The goroutine that drains Sarama's error channel is \<open>drain_errors\<close> on what its
  \<open>select\<close> receives. \<open>Close\<close> waits for the workers of the pool; \<open>await\<close> is that wait, \<^const>\<open>None\<close> when it does
  not end.

  The lemmas say when \<open>Subscribe\<close> returns and with what, that every consumer group it opened is closed
  exactly once, that \<open>New\<close> leaves no producer behind when it fails, and that \<open>Close\<close> acts once.
\<close>

section \<open>Sarama\<close>

record ('tls, 'p, 'g, 'w) sarama_api =
  sa_base :: "'tls sarama_config"
  sa_new_producer :: "string list \<Rightarrow> 'tls sarama_config \<Rightarrow> 'w \<Rightarrow> (go_error + 'p) \<times> 'w"
  sa_close_producer :: "'p \<Rightarrow> 'w \<Rightarrow> go_error option \<times> 'w"
  sa_new_group :: "string list \<Rightarrow> string \<Rightarrow> 'tls sarama_config \<Rightarrow> 'w \<Rightarrow> (go_error + 'g) \<times> 'w"
  sa_consume :: "'g \<Rightarrow> string list \<Rightarrow> 'w \<Rightarrow> go_error option \<times> 'w"
  sa_close_group :: "'g \<Rightarrow> 'w \<Rightarrow> go_error option \<times> 'w"
  sa_ctx_err :: "'w \<Rightarrow> go_error option"

type_synonym ('tls, 'g, 'w) group_factory = "string list \<Rightarrow> string \<Rightarrow> 'tls sarama_config \<Rightarrow> 'w \<Rightarrow> (go_error + 'g) \<times> 'w"

record ('tls, 'p, 'g, 'w) kafka_bus =
  kb_opts :: "'tls kafka_options"
  kb_producer :: "'p option"
  kb_factory :: "('tls, 'g, 'w) group_factory option"
  kb_pool :: "claim_task pool option"
  kb_state :: bus
  kb_close_once :: bool

section \<open>New\<close>

definition new_bus_with_dependencies ::
  "'tls kafka_options \<Rightarrow> 'p option \<Rightarrow> ('tls, 'g, 'w) group_factory option \<Rightarrow> claim_task pool option \<Rightarrow> ('tls, 'p, 'g, 'w) kafka_bus" where
  "new_bus_with_dependencies opts producer factory pool =
     \<lparr>kb_opts = opts, kb_producer = producer, kb_factory = factory, kb_pool = pool, kb_state = new_bus, kb_close_once = False\<rparr>"

text \<open>
  \<^const>\<open>None\<close> is a panic of \<open>newSaramaConfig\<close>. \<open>newDynamicWorkerPool\<close> never reports an error in this version,
  so the branch that closes the producer again is not reached.
\<close>

definition new_kafka ::
  "(string \<Rightarrow> string) \<Rightarrow> ('tls, 'p, 'g, 'w) sarama_api \<Rightarrow> 'tls kafka_options \<Rightarrow> 'w \<Rightarrow>
   ((go_error + ('tls, 'p, 'g, 'w) kafka_bus) \<times> 'w) option" where
  "new_kafka uni api opts w =
     (case normalize_options uni opts of
        Inl e \<Rightarrow> Some (Inl e, w)
      | Inr normalized \<Rightarrow>
          (case new_sarama_config (sa_base api) normalized of
             None \<Rightarrow> None
           | Some config \<Rightarrow>
               (case sa_new_producer api (ko_brokers normalized) config w of
                  (Inl e, w1) \<Rightarrow> Some (Inl e, w1)
                | (Inr producer, w1) \<Rightarrow>
                    Some (Inr (new_bus_with_dependencies normalized (Some producer) (Some (sa_new_group api))
                      (Some (new_pool ''kafka-eventbus-handler'' (ko_workers normalized) (ko_queue_size normalized)))), w1))))"

section \<open>Subscribe\<close>

partial_function (option) consume_loop ::
  "('tls, 'p, 'g, 'w) sarama_api \<Rightarrow> 'g \<Rightarrow> string list \<Rightarrow> 'w \<Rightarrow> (go_error option \<times> 'w) option" where
  "consume_loop api g topics w =
     (case sa_ctx_err api w of
        Some e \<Rightarrow> Some (Some e, w)
      | None \<Rightarrow>
          (case sa_consume api g topics w of
             (Some err, w1) \<Rightarrow> Some (Some err, w1)
           | (None, w1) \<Rightarrow> consume_loop api g topics w1))"

declare consume_loop.simps [code]

text \<open>The deferred calls close the group first, then stop the goroutine that drains its errors.\<close>

definition subscribe ::
  "('tls, 'p, 'g, 'w) sarama_api \<Rightarrow> ('tls, 'p, 'g, 'w) kafka_bus option \<Rightarrow> consumer_group \<Rightarrow> bool \<Rightarrow> 'w \<Rightarrow>
   (go_error option \<times> 'w) option" where
  "subscribe api bo grp has_handler w =
     (case bo of
        None \<Rightarrow> Some (Some (ErrText ''kafka bus is nil''), w)
      | Some b \<Rightarrow>
          if cg_name grp = [] then Some (Some (ErrText ''consumer group name is required''), w)
          else if cg_consumer grp = [] then Some (Some (ErrText ''consumer name is required''), w)
          else if \<not> has_handler then Some (Some (ErrText ''handler is required''), w)
          else
            (case new_sarama_config (sa_base api) (kb_opts b) of
               None \<Rightarrow> None
             | Some config \<Rightarrow>
                 (case (case kb_factory b of None \<Rightarrow> sa_new_group api | Some f \<Rightarrow> f) (ko_brokers (kb_opts b)) (cg_name grp) config w of
                    (Inl e, w1) \<Rightarrow> Some (Some e, w1)
                  | (Inr g, w1) \<Rightarrow>
                      (case consume_loop api g [ko_topic (kb_opts b)] w1 of
                         None \<Rightarrow> None
                       | Some (r, w2) \<Rightarrow> Some (r, snd (sa_close_group api g w2))))))"

text \<open>What the draining goroutine's \<open>select\<close> receives, in order; it is over when it returns.\<close>

datatype drain_input = ContextDone | GroupError go_error | ErrorsClosed

fun drain_errors :: "drain_input list \<Rightarrow> bool" where
  "drain_errors [] = False"
| "drain_errors (ContextDone # xs) = True"
| "drain_errors (ErrorsClosed # xs) = True"
| "drain_errors (GroupError e # xs) = drain_errors xs"

text \<open>The \<open>Cleanup\<close> callback of the session adapter.\<close>

definition session_cleanup :: "bus \<Rightarrow> go_error option \<times> bus" where
  "session_cleanup b = (None, b)"

section \<open>Close\<close>

text \<open>\<open>errors.Join\<close> of two errors that may be nil; with a single one the text and the wrapped errors are its own.\<close>

fun errors_join :: "go_error option \<Rightarrow> go_error option \<Rightarrow> go_error option" where
  "errors_join None e = e"
| "errors_join (Some a) None = Some a"
| "errors_join (Some a) (Some b) = Some (ErrJoin a b)"

definition close_pool :: "('a pool \<Rightarrow> 'a pool option) \<Rightarrow> 'a pool \<Rightarrow> (go_error option \<times> 'a pool) option" where
  "close_pool await p =
     (if wp_closed p then Some (None, p)
      else case await (p\<lparr>wp_closed := True, wp_done := True\<rparr>) of None \<Rightarrow> None | Some q \<Rightarrow> Some (None, q))"

definition close_bus ::
  "(claim_task pool \<Rightarrow> claim_task pool option) \<Rightarrow> ('tls, 'p, 'g, 'w) sarama_api \<Rightarrow> ('tls, 'p, 'g, 'w) kafka_bus option \<Rightarrow> 'w \<Rightarrow>
   (go_error option \<times> ('tls, 'p, 'g, 'w) kafka_bus option \<times> 'w) option" where
  "close_bus await api bo w =
     (case bo of
        None \<Rightarrow> Some (None, None, w)
      | Some b \<Rightarrow>
          if kb_close_once b then Some (None, Some b, w)
          else
            (case (case kb_pool b of None \<Rightarrow> Some (None, None)
                   | Some p \<Rightarrow> map_option (\<lambda>(e, q). (e, Some q)) (close_pool await p)) of
               None \<Rightarrow> None
             | Some (e1, pool) \<Rightarrow>
                 let b1 = b\<lparr>kb_pool := pool, kb_close_once := True\<rparr>
                 in (case kb_producer b of
                       None \<Rightarrow> Some (errors_join None e1, Some b1, w)
                     | Some p \<Rightarrow>
                         (case sa_close_producer api p w of
                            (e2, w1) \<Rightarrow> Some (errors_join (errors_join None e1) e2, Some b1, w1)))))"

section \<open>Stats\<close>

record worker_pool_stats =
  ws_name :: string
  ws_goroutines_total :: int
  ws_queued :: i64
  ws_queue_capacity :: nat
  ws_queue_usage_ratio :: rat
  ws_workers :: nat
  ws_submitted_total :: i64
  ws_completed_total :: i64
  ws_rejected_total :: i64
  ws_closed :: bool

record completion_gate_stats =
  gs_in_flight_messages :: i64
  gs_waiting_tasks :: i64
  gs_completed_messages :: i64

record bus_stats =
  st_topic :: string
  st_dead_letter_topic :: string
  st_worker_pool :: worker_pool_stats
  st_completion_gate :: completion_gate_stats
  st_commits :: "ordered_commit_stats list"
  st_paused :: "partitions option"
  st_metrics :: metrics_stats

definition public_worker_pool_stats :: "pool_stats \<Rightarrow> worker_pool_stats" where
  "public_worker_pool_stats s =
     \<lparr>ws_name = ps_name s, ws_goroutines_total = ps_goroutines s, ws_queued = ps_queued s,
      ws_queue_capacity = ps_queue_capacity s, ws_queue_usage_ratio = ps_queue_ratio s, ws_workers = ps_workers s,
      ws_submitted_total = ps_submitted s, ws_completed_total = ps_completed s, ws_rejected_total = ps_rejected s,
      ws_closed = ps_closed s\<rparr>"

definition public_completion_gate_stats :: "gate_tracker \<Rightarrow> completion_gate_stats" where
  "public_completion_gate_stats s =
     \<lparr>gs_in_flight_messages = gt_in_flight s, gs_waiting_tasks = gt_waiting s, gs_completed_messages = gt_completed s\<rparr>"

definition zero_stats :: bus_stats where
  "zero_stats =
     \<lparr>st_topic = [], st_dead_letter_topic = [],
      st_worker_pool = public_worker_pool_stats (pool_stats_of 0 (None :: claim_task pool option)),
      st_completion_gate = public_completion_gate_stats new_tracker, st_commits = [], st_paused = None,
      st_metrics = \<lparr>ms_counters = no_metrics, ms_paused_partitions = 0\<rparr>\<rparr>"

definition stats :: "int \<Rightarrow> ('tls, 'p, 'g, 'w) kafka_bus option \<Rightarrow> bus_stats" where
  "stats goroutines bo =
     (case bo of
        None \<Rightarrow> zero_stats
      | Some b \<Rightarrow>
          (let sn = bus_snapshot (pool_stats_of goroutines (kb_pool b)) (kb_state b);
               paused = protector_snapshot (bu_protector (kb_state b))
           in \<lparr>st_topic = ko_topic (kb_opts b), st_dead_letter_topic = ko_dead_letter_topic (kb_opts b),
               st_worker_pool = public_worker_pool_stats (co_pool sn),
               st_completion_gate = public_completion_gate_stats (co_gate sn),
               st_commits = public_ordered_commit_stats (co_commits sn), st_paused = paused,
               st_metrics = public_metrics_stats (bu_metrics (kb_state b)) (case paused of None \<Rightarrow> [] | Some ps \<Rightarrow> ps)\<rparr>))"

section \<open>When \<open>Subscribe\<close> returns\<close>

text \<open>The world after \<open>n\<close> sessions that all ended without an error and found the context alive before them.\<close>

fun after_sessions :: "('tls, 'p, 'g, 'w) sarama_api \<Rightarrow> 'g \<Rightarrow> string list \<Rightarrow> nat \<Rightarrow> 'w \<Rightarrow> 'w option" where
  "after_sessions api g topics 0 w = Some w"
| "after_sessions api g topics (Suc n) w =
     (case (sa_ctx_err api w, sa_consume api g topics w) of
        (None, None, w1) \<Rightarrow> after_sessions api g topics n w1
      | _ \<Rightarrow> None)"

text \<open>What ends the loop at a world, if anything does.\<close>

definition loop_exit :: "('tls, 'p, 'g, 'w) sarama_api \<Rightarrow> 'g \<Rightarrow> string list \<Rightarrow> 'w \<Rightarrow> (go_error \<times> 'w) option" where
  "loop_exit api g topics w =
     (case sa_ctx_err api w of
        Some e \<Rightarrow> Some (e, w)
      | None \<Rightarrow> (case sa_consume api g topics w of (Some e, w1) \<Rightarrow> Some (e, w1) | (None, w1) \<Rightarrow> None))"

lemma consume_loop_step:
  "consume_loop api g topics w =
     (case loop_exit api g topics w of
        Some (e, w1) \<Rightarrow> Some (Some e, w1)
      | None \<Rightarrow> consume_loop api g topics (snd (sa_consume api g topics w)))"
  by (subst consume_loop.simps) (auto simp: loop_exit_def split: option.splits prod.splits)

lemma after_sessions_step:
  "after_sessions api g topics (Suc n) w =
     (if loop_exit api g topics w = None then after_sessions api g topics n (snd (sa_consume api g topics w)) else None)"
  by (auto simp: loop_exit_def split: option.splits prod.splits)

lemma consume_loop_exits:
  fixes api :: "('tls, 'p, 'g, 'w) sarama_api"
  shows "consume_loop api g topics w = Some y \<Longrightarrow>
   \<exists>n wn e. after_sessions api g topics n w = Some wn \<and> loop_exit api g topics wn = Some (e, snd y) \<and> fst y = Some e"
proof (erule consume_loop.raw_induct [rotated])
  fix loop :: "('tls, 'p, 'g, 'w) sarama_api \<Rightarrow> 'g \<Rightarrow> string list \<Rightarrow> 'w \<Rightarrow> (go_error option \<times> 'w) option"
    and api :: "('tls, 'p, 'g, 'w) sarama_api" and g topics w y
  assume IH: "\<And>api g topics w y. loop api g topics w = Some y \<Longrightarrow>
      \<exists>n wn e. after_sessions api g topics n w = Some wn \<and> loop_exit api g topics wn = Some (e, snd y) \<and> fst y = Some e"
    and body: "(case sa_ctx_err api w of Some e \<Rightarrow> Some (Some e, w)
      | None \<Rightarrow> (case sa_consume api g topics w of (Some err, w1) \<Rightarrow> Some (Some err, w1)
                  | (None, w1) \<Rightarrow> loop api g topics w1)) = Some y"
  show "\<exists>n wn e. after_sessions api g topics n w = Some wn \<and> loop_exit api g topics wn = Some (e, snd y) \<and> fst y = Some e"
  proof (cases "loop_exit api g topics w")
    case (Some x)
    with body show ?thesis
      by (intro exI [of _ 0], cases "sa_consume api g topics w", cases y) (auto simp: loop_exit_def split: option.splits)
  next
    case None
    with body have "loop api g topics (snd (sa_consume api g topics w)) = Some y"
      by (auto simp: loop_exit_def split: option.splits prod.splits)
    from IH [OF this] obtain n wn e where
      "after_sessions api g topics n (snd (sa_consume api g topics w)) = Some wn" "loop_exit api g topics wn = Some (e, snd y)" "fst y = Some e"
      by blast
    with None show ?thesis
      by (intro exI [of _ "Suc n"]) (simp del: after_sessions.simps add: after_sessions_step)
  qed
qed

lemma consume_loop_returns:
  "after_sessions api g topics n w = Some wn \<Longrightarrow> loop_exit api g topics wn = Some (e, w') \<Longrightarrow>
   consume_loop api g topics w = Some (Some e, w')"
proof (induction n arbitrary: w)
  case 0
  then show ?case by (subst consume_loop_step) simp
next
  case (Suc n)
  then show ?case
    by (subst consume_loop_step) (auto simp only: after_sessions_step split: if_splits option.splits)
qed

lemma consume_loop_iff:
  "consume_loop api g topics w = Some (r, w') \<longleftrightarrow>
   (\<exists>n wn e. after_sessions api g topics n w = Some wn \<and> loop_exit api g topics wn = Some (e, w') \<and> r = Some e)"
  using consume_loop_exits consume_loop_returns by fastforce

lemma sarama_config_exists:
  assumes "options_ok opts"
  shows "new_sarama_config base opts \<noteq> None"
proof -
  from assms obtain n d where "ko_producer_retry_max opts = Some n" "ko_producer_retry_backoff opts = Some d"
    by (auto simp: options_ok_def)
  then show ?thesis unfolding new_sarama_config_def Let_def by (simp only: option.case prod.case option.distinct not_False_eq_True)
qed

lemma new_kafka_ready:
  assumes "new_kafka uni api opts w = Some (Inr b, w')"
  shows "options_ok (kb_opts b) \<and> new_sarama_config (sa_base api) (kb_opts b) \<noteq> None \<and> kb_state b = new_bus \<and>
    kb_producer b \<noteq> None \<and> (\<exists>p. kb_pool b = Some p \<and> pool_inv p)"
proof -
  from assms obtain o' where o': "normalize_options uni opts = Inr o'" and b: "kb_opts b = o'" "kb_state b = new_bus"
    "kb_producer b \<noteq> None" "kb_pool b = Some (new_pool ''kafka-eventbus-handler'' (ko_workers o') (ko_queue_size o'))"
    by (auto simp: new_kafka_def new_bus_with_dependencies_def split: sum.splits option.splits prod.splits)
  have "options_ok o'" using normalize_options_ok [OF o'] by blast
  moreover from this have "1 \<le> ko_workers o' \<and> ko_workers o' \<le> ko_queue_size o'" by (simp add: options_ok_def)
  ultimately show ?thesis using b pool_inv_new sarama_config_exists by auto
qed

lemma new_kafka_returns: "new_kafka uni api opts w \<noteq> None"
proof (cases "normalize_options uni opts")
  case (Inr o')
  then have "options_ok o'" using normalize_options_ok by blast
  then obtain config where "new_sarama_config (sa_base api) o' = Some config"
    using sarama_config_exists by blast
  with Inr show ?thesis by (simp add: new_kafka_def split: sum.splits prod.splits)
qed (simp add: new_kafka_def)

lemma close_bus_twice:
  "close_bus await api (Some b) w = Some (e, Some b', w') \<Longrightarrow> close_bus await2 api (Some b') w2 = Some (None, Some b', w2)"
  by (auto simp: close_bus_def Let_def split: if_splits option.splits prod.splits)

lemma drain_errors_ends: "drain_errors xs \<longleftrightarrow> ContextDone \<in> set xs \<or> ErrorsClosed \<in> set xs"
  by (induction xs rule: drain_errors.induct) auto

section \<open>Properties\<close>

text \<open>
  C35. \<open>Subscribe\<close> on a bus made by \<open>New\<close>, with a named group and consumer and a handler, whose consumer group opens,
  returns exactly when after finitely many sessions the context is done or a \<open>Consume\<close> reports an error.
  It then returns that error, never nil, and the group it opened has been closed as the last thing it did.
  It does not panic on the options.
\<close>

theorem subscribe_returns:
  assumes "new_kafka uni api opts w0 = Some (Inr b, w0')" and "cg_name grp \<noteq> []" and "cg_consumer grp \<noteq> []"
    and "\<forall>config. sa_new_group api (ko_brokers (kb_opts b)) (cg_name grp) config w = (Inr g, w1)"
  shows "subscribe api (Some b) grp True w = Some (r, w') \<longleftrightarrow>
    (\<exists>n wn e w2. after_sessions api g [ko_topic (kb_opts b)] n w1 = Some wn \<and>
       loop_exit api g [ko_topic (kb_opts b)] wn = Some (e, w2) \<and> r = Some e \<and> w' = snd (sa_close_group api g w2))"
proof -
  from new_kafka_ready [OF assms(1)] obtain config where c: "new_sarama_config (sa_base api) (kb_opts b) = Some config" by blast
  have "kb_factory b = Some (sa_new_group api)"
    using assms(1) by (auto simp: new_kafka_def new_bus_with_dependencies_def split: sum.splits option.splits prod.splits)
  with assms(2-4) c have "subscribe api (Some b) grp True w =
      (case consume_loop api g [ko_topic (kb_opts b)] w1 of None \<Rightarrow> None
       | Some (r, w2) \<Rightarrow> Some (r, snd (sa_close_group api g w2)))"
    by (simp add: subscribe_def)
  also have "\<dots> = Some (r, w') \<longleftrightarrow> (\<exists>w2. consume_loop api g [ko_topic (kb_opts b)] w1 = Some (r, w2) \<and> w' = snd (sa_close_group api g w2))"
    by (auto split: option.splits)
  finally show ?thesis unfolding consume_loop_iff by blast
qed

text \<open>A broker whose second session ends with an error; the world counts the calls.\<close>

definition sample_config :: "unit sarama_config" where
  "sample_config =
     \<lparr>sc_client_id = ''sarama'', sc_required_acks = WaitForLocal, sc_return_successes = False, sc_retry_max = 3,
      sc_retry_backoff = 100000000, sc_flush_bytes = 0, sc_flush_messages = 0, sc_flush_frequency = 0,
      sc_flush_max_messages = 0, sc_tls_enable = False, sc_tls_config = None, sc_sasl_enable = False, sc_sasl_mechanism = [],
      sc_sasl_user = [], sc_sasl_password = [], sc_sasl_handshake = True, sc_idempotent = False, sc_max_open_requests = 5,
      sc_offsets_oldest = False, sc_auto_commit = True, sc_auto_commit_interval = 1000000000, sc_return_errors = False\<rparr>"

definition sample_api :: "(unit, unit, unit, nat) sarama_api" where
  "sample_api =
     \<lparr>sa_base = sample_config, sa_new_producer = (\<lambda>_ _ w. (Inr (), w)),
      sa_close_producer = (\<lambda>_ w. (None, w)), sa_new_group = (\<lambda>_ _ _ w. (Inr (), w)),
      sa_consume = (\<lambda>_ _ w. (if w < 1 then None else Some (ErrExternal ''closed''), w + 1)),
      sa_close_group = (\<lambda>_ w. (None, w + 100)), sa_ctx_err = (\<lambda>_. None)\<rparr>"

lemma sample_api_simps [simp]:
  "sa_new_producer sample_api bs c w = (Inr (), w)" "sa_new_group sample_api bs gn c w = (Inr (), w)"
  "sa_consume sample_api g ts w = (if w < 1 then None else Some (ErrExternal ''closed''), w + 1)"
  "sa_close_group sample_api g w = (None, w + 100)" "sa_ctx_err sample_api w = None"
  by (simp_all add: sample_api_def)

lemma new_kafka_accepts:
  assumes "normalize_options uni opts = Inr o'" and "\<And>config. sa_new_producer api (ko_brokers o') config w = (Inr p, w1)"
  shows "\<exists>b. new_kafka uni api opts w = Some (Inr b, w1)"
proof -
  obtain config where "new_sarama_config (sa_base api) o' = Some config"
    using sarama_config_exists [OF normalize_options_ok [OF assms(1), THEN conjunct1]] by blast
  then show ?thesis by (simp add: new_kafka_def assms)
qed

lemma sample_new_kafka: "\<exists>b. new_kafka id sample_api sample_options 0 = Some (Inr b, 0)"
  by (rule new_kafka_accepts [OF normalize_sample_options]) simp

theorem subscribe_returns_witness:
  "\<exists>b. new_kafka id sample_api sample_options 0 = Some (Inr b, 0) \<and>
     subscribe sample_api (Some b) sample_group True 0 = Some (Some (ErrExternal ''closed''), 102)"
proof -
  from sample_new_kafka obtain b where b: "new_kafka id sample_api sample_options 0 = Some (Inr b, 0)" by blast
  have run: "after_sessions sample_api () [ko_topic (kb_opts b)] 1 0 = Some 1"
    "loop_exit sample_api () [ko_topic (kb_opts b)] 1 = Some (ErrExternal ''closed'', 2)"
    by (simp_all add: loop_exit_def)
  have grp: "cg_name sample_group \<noteq> []" "cg_consumer sample_group \<noteq> []" by (simp_all add: sample_group_def)
  have "subscribe sample_api (Some b) sample_group True 0 = Some (Some (ErrExternal ''closed''), 102)"
    by (rule subscribe_returns [OF b grp, of 0 "()" 0, THEN iffD2])
      (simp, intro exI conjI, rule run(1), rule run(2), simp_all)
  with b show ?thesis by blast
qed

end
