(* ===== verification/Collect_Request.thy ===== *)
theory Collect_Request
  imports Contracts "HOL-Library.Multiset"
begin

text \<open>
  Package \<open>collect\<close>, files \<open>client.go\<close> and \<open>request.go\<close>: the collect request, its trimming and
  validation, and \<open>normalize\<close>, which turns an accepted request into the event envelope that enters
  the queue. \<open>admissible\<close> says declaratively which requests are accepted and \<open>wf_envelope\<close> what a
  published envelope promises to the rest of the pipeline; the lemmas connect both with the code.
  The argument \<open>pf\<close> is \<open>strconv.ParseFloat(s, 64)\<close>, \<^const>\<open>None\<close> for an error.
\<close>

section \<open>Requests\<close>

record client_info =
  ci_user_agent :: string
  ci_ip :: string
  ci_referrer :: string

record request =
  rq_id :: string
  rq_tenant_id :: string
  rq_project_id :: string
  rq_source_id :: string
  rq_source_type :: string
  rq_event_name :: string
  rq_distinct_id :: string
  rq_session_id :: string
  rq_visit_id :: string
  rq_event_time :: gotime
  rq_properties :: props
  rq_user_props :: props
  rq_source :: string
  rq_client :: client_info

definition normalize_client_info :: "client_info \<Rightarrow> client_info" where
  "normalize_client_info info =
     info\<lparr>ci_user_agent := trim_space (ci_user_agent info),
          ci_ip := trim_space (ci_ip info),
          ci_referrer := trim_space (ci_referrer info)\<rparr>"

definition trim_request :: "request \<Rightarrow> request" where
  "trim_request r =
     r\<lparr>rq_id := trim_space (rq_id r),
       rq_tenant_id := trim_space (rq_tenant_id r),
       rq_project_id := trim_space (rq_project_id r),
       rq_source_id := trim_space (rq_source_id r),
       rq_source_type := trim_space (rq_source_type r),
       rq_event_name := trim_space (rq_event_name r),
       rq_distinct_id := trim_space (rq_distinct_id r),
       rq_session_id := trim_space (rq_session_id r),
       rq_visit_id := trim_space (rq_visit_id r),
       rq_source := trim_space (rq_source r),
       rq_client := normalize_client_info (rq_client r)\<rparr>"

section \<open>Limits and patterns\<close>

definition max_clock_skew :: int where "max_clock_skew = 5 * minute"
definition max_event_name_length :: nat where "max_event_name_length = 128"
definition max_id_length :: nat where "max_id_length = 128"
definition max_property_count :: nat where "max_property_count = 64"
definition max_property_key_len :: nat where "max_property_key_len = 128"
definition max_property_str_len :: nat where "max_property_str_len = 2048"
definition max_source_type_len :: nat where "max_source_type_len = 32"

lemmas limit_defs =
  max_event_name_length_def max_id_length_def max_property_count_def max_property_key_len_def
  max_property_str_len_def max_source_type_len_def

definition is_upper :: "char \<Rightarrow> bool" where
  "is_upper c \<longleftrightarrow> 65 \<le> (of_char c :: nat) \<and> (of_char c :: nat) \<le> 90"

definition is_lower :: "char \<Rightarrow> bool" where
  "is_lower c \<longleftrightarrow> 97 \<le> (of_char c :: nat) \<and> (of_char c :: nat) \<le> 122"

definition is_alnum :: "char \<Rightarrow> bool" where
  "is_alnum c \<longleftrightarrow> is_upper c \<or> is_lower c \<or> is_digit c"

definition ident_char :: "char \<Rightarrow> bool" where
  "ident_char c \<longleftrightarrow> is_alnum c \<or> c \<in> {CHR ''_'', CHR ''.'', CHR '':'', CHR ''-''}"

definition source_type_char :: "char \<Rightarrow> bool" where
  "source_type_char c \<longleftrightarrow> is_lower c \<or> is_digit c \<or> c \<in> {CHR ''_'', CHR ''-''}"

text \<open>The regular expressions \<open>^[A-Za-z0-9][A-Za-z0-9_.:-]*$\<close> and \<open>^[a-z][a-z0-9_-]*$\<close>.\<close>

fun identifier_pattern :: "string \<Rightarrow> bool" where
  "identifier_pattern [] = False"
| "identifier_pattern (c # cs) = (is_alnum c \<and> list_all ident_char cs)"

fun source_type_pattern :: "string \<Rightarrow> bool" where
  "source_type_pattern [] = False"
| "source_type_pattern (c # cs) = (is_lower c \<and> list_all source_type_char cs)"

section \<open>Validation\<close>

definition validate_identifier :: "string \<Rightarrow> string \<Rightarrow> go_error option" where
  "validate_identifier field v =
     (if v = [] then Some (ErrValidation field ''is required'')
      else if length v > max_id_length then Some (ErrValidation field ''is too long'')
      else if \<not> identifier_pattern v
        then Some (ErrValidation field ''contains unsupported characters'')
      else None)"

definition validate_event_name :: "string \<Rightarrow> go_error option" where
  "validate_event_name v =
     (if v = [] then Some (ErrValidation ''event_name'' ''is required'')
      else if length v > max_event_name_length
        then Some (ErrValidation ''event_name'' ''is too long'')
      else if \<not> identifier_pattern v
        then Some (ErrValidation ''event_name'' ''contains unsupported characters'')
      else None)"

definition validate_source_type :: "string \<Rightarrow> go_error option" where
  "validate_source_type v =
     (if v = [] then Some (ErrValidation ''source_type'' ''is required'')
      else if length v > max_source_type_len
        then Some (ErrValidation ''source_type'' ''is too long'')
      else if \<not> source_type_pattern v
        then Some (ErrValidation ''source_type'' ''contains unsupported characters'')
      else None)"

definition property_field_name :: "string \<Rightarrow> string \<Rightarrow> string" where
  "property_field_name field key = (if key = [] then field else field @ ''.'' @ key)"

definition validate_property_key :: "string \<Rightarrow> string \<Rightarrow> go_error option" where
  "validate_property_key field key =
     (if key = [] then Some (ErrValidation field ''contains empty property key'')
      else if length key > max_property_key_len
        then Some (ErrValidation (property_field_name field key) ''key is too long'')
      else if \<not> identifier_pattern key
        then Some (ErrValidation (property_field_name field key) ''key contains unsupported characters'')
      else None)"

definition validate_float_property :: "string \<Rightarrow> go_float \<Rightarrow> go_error option" where
  "validate_float_property field x =
     (if is_nan x \<or> is_inf x then Some (ErrValidation field ''number value is invalid'') else None)"

fun validate_property_value ::
  "(string \<Rightarrow> go_float option) \<Rightarrow> string \<Rightarrow> prop_value \<Rightarrow> go_error option" where
  "validate_property_value pf field VNull = None"
| "validate_property_value pf field (VBool _) = None"
| "validate_property_value pf field (VInt _ _) = None"
| "validate_property_value pf field (VString s) =
     (if length s > max_property_str_len
      then Some (ErrValidation field ''string value is too long'') else None)"
| "validate_property_value pf field (VFloat32 x) = validate_float_property field x"
| "validate_property_value pf field (VFloat64 x) = validate_float_property field x"
| "validate_property_value pf field (VNumber n) =
     (case pf n of None \<Rightarrow> Some (ErrValidation field ''number value is invalid'') | Some _ \<Rightarrow> None)"
| "validate_property_value pf field (VOther _) =
     Some (ErrValidation field ''has unsupported value type'')"

text \<open>The loop over the map, in the order the runtime visits its entries.\<close>

fun validate_entries ::
  "(string \<Rightarrow> go_float option) \<Rightarrow> string \<Rightarrow> (string \<times> prop_value) list \<Rightarrow> go_error option" where
  "validate_entries pf field [] = None"
| "validate_entries pf field ((key, v) # rest) =
     (case validate_property_key field key of
        Some e \<Rightarrow> Some e
      | None \<Rightarrow>
          (case validate_property_value pf (property_field_name field key) v of
             Some e \<Rightarrow> Some e
           | None \<Rightarrow> validate_entries pf field rest))"

definition validate_properties ::
  "(string \<Rightarrow> go_float option) \<Rightarrow> string \<Rightarrow> props \<Rightarrow> go_error option" where
  "validate_properties pf field m =
     (if map_len m > max_property_count then Some (ErrValidation field ''has too many entries'')
      else validate_entries pf field (entries m))"

definition clone_map :: "props \<Rightarrow> props" where
  "clone_map m = (if map_len m = 0 then None else Some (entries m))"

section \<open>Normalize\<close>

definition effective_event_time :: "gotime \<Rightarrow> gotime \<Rightarrow> gotime" where
  "effective_event_time event_time received_at =
     (if is_zero_time event_time then received_at else event_time)"

definition normalize ::
  "(string \<Rightarrow> go_float option) \<Rightarrow> request \<Rightarrow> gotime \<Rightarrow> go_error + event_envelope" where
  "normalize pf request0 received_at =
     (if is_zero_time received_at then Inl (ErrText ''receivedAt is required'')
      else
        let r = trim_request request0 in
        guard_err (validate_identifier ''id'' (rq_id r))
       (guard_err (validate_identifier ''tenant_id'' (rq_tenant_id r))
       (guard_err (validate_identifier ''project_id'' (rq_project_id r))
       (guard_err (validate_identifier ''source_id'' (rq_source_id r))
       (guard_err (validate_source_type (rq_source_type r))
       (guard_err (validate_event_name (rq_event_name r))
       (guard_err (validate_identifier ''distinct_id'' (rq_distinct_id r))
       (guard_err (if rq_session_id r \<noteq> []
                   then validate_identifier ''session_id'' (rq_session_id r) else None)
       (guard_err (if rq_visit_id r \<noteq> []
                   then validate_identifier ''visit_id'' (rq_visit_id r) else None)
       (guard_err (validate_properties pf ''properties'' (rq_properties r))
       (guard_err (validate_properties pf ''user_properties'' (rq_user_props r))
          (let event_time = effective_event_time (rq_event_time r) received_at in
           if after event_time (add_time received_at max_clock_skew)
           then Inl (ErrValidation ''event_time'' ''too far in the future'')
           else Inr
             \<lparr>env_id = rq_id r, env_tenant_id = rq_tenant_id r, env_project_id = rq_project_id r,
              env_source_id = rq_source_id r, env_source_type = rq_source_type r,
              env_event_name = rq_event_name r, env_distinct_id = rq_distinct_id r,
              env_session_id = rq_session_id r, env_visit_id = rq_visit_id r,
              env_event_time = utc event_time, env_received_at = utc received_at,
              env_properties = clone_map (rq_properties r),
              env_user_props = clone_map (rq_user_props r),
              env_source = rq_source r\<rparr>))))))))))))"

section \<open>What is accepted, declaratively\<close>

definition is_identifier :: "string \<Rightarrow> bool" where
  "is_identifier s \<longleftrightarrow>
     s \<noteq> [] \<and> length s \<le> 128 \<and> is_alnum (hd s) \<and> (\<forall>c \<in> set s. ident_char c)"

definition is_source_type :: "string \<Rightarrow> bool" where
  "is_source_type s \<longleftrightarrow>
     s \<noteq> [] \<and> length s \<le> 32 \<and> is_lower (hd s) \<and> (\<forall>c \<in> set s. source_type_char c)"

fun storable :: "(string \<Rightarrow> go_float option) \<Rightarrow> prop_value \<Rightarrow> bool" where
  "storable pf (VString s) = (length s \<le> 2048)"
| "storable pf (VFloat32 x) = (\<not> is_nan x \<and> \<not> is_inf x)"
| "storable pf (VFloat64 x) = (\<not> is_nan x \<and> \<not> is_inf x)"
| "storable pf (VNumber n) = (pf n \<noteq> None)"
| "storable pf (VOther _) = False"
| "storable pf _ = True"

definition valid_props :: "(string \<Rightarrow> go_float option) \<Rightarrow> props \<Rightarrow> bool" where
  "valid_props pf m \<longleftrightarrow>
     map_len m \<le> 64 \<and> (\<forall>(k, v) \<in> set (entries m). is_identifier k \<and> storable pf v)"

definition admissible :: "(string \<Rightarrow> go_float option) \<Rightarrow> request \<Rightarrow> gotime \<Rightarrow> bool" where
  "admissible pf r received_at \<longleftrightarrow>
     tm_ns received_at \<noteq> 0 \<and>
     (\<forall>s \<in> {rq_id r, rq_tenant_id r, rq_project_id r, rq_source_id r, rq_event_name r, rq_distinct_id r}.
        is_identifier (trim_space s)) \<and>
     is_source_type (trim_space (rq_source_type r)) \<and>
     (\<forall>s \<in> {rq_session_id r, rq_visit_id r}. trim_space s = [] \<or> is_identifier (trim_space s)) \<and>
     valid_props pf (rq_properties r) \<and> valid_props pf (rq_user_props r) \<and>
     (tm_ns (rq_event_time r) = 0 \<or>
      tm_ns (rq_event_time r) \<le> tm_ns received_at + 5 * 60 * 1000000000)"

definition wf_envelope :: "(string \<Rightarrow> go_float option) \<Rightarrow> event_envelope \<Rightarrow> bool" where
  "wf_envelope pf e \<longleftrightarrow>
     is_identifier (env_id e) \<and> is_identifier (env_tenant_id e) \<and>
     is_identifier (env_project_id e) \<and> is_identifier (env_source_id e) \<and>
     is_source_type (env_source_type e) \<and> is_identifier (env_event_name e) \<and>
     is_identifier (env_distinct_id e) \<and>
     (env_session_id e = [] \<or> is_identifier (env_session_id e)) \<and>
     (env_visit_id e = [] \<or> is_identifier (env_visit_id e)) \<and>
     trim_space (env_source e) = env_source e \<and>
     tm_zone (env_event_time e) = ZoneUTC \<and> tm_zone (env_received_at e) = ZoneUTC \<and>
     tm_ns (env_event_time e) \<noteq> 0 \<and> tm_ns (env_received_at e) \<noteq> 0 \<and>
     tm_ns (env_event_time e) \<le> tm_ns (env_received_at e) + 5 * 60 * 1000000000 \<and>
     valid_props pf (env_properties e) \<and> valid_props pf (env_user_props e)"

section \<open>Lemmas\<close>

named_theorems validate_iff \<open>validators accept exactly the declarative predicates\<close>

lemma is_alnum_ident_char: "is_alnum c \<Longrightarrow> ident_char c"
  by (simp add: ident_char_def)

lemma is_lower_source_type_char: "is_lower c \<Longrightarrow> source_type_char c"
  by (simp add: source_type_char_def)

lemma ident_char_solid: "ident_char c \<Longrightarrow> solid c"
  by (auto simp: solid_def space_runes_def ident_char_def is_alnum_def is_upper_def is_lower_def
      is_digit_def)

lemma source_type_char_ident_char: "source_type_char c \<Longrightarrow> ident_char c"
  by (auto simp: source_type_char_def ident_char_def is_alnum_def)

lemma identifier_pattern_iff:
  "identifier_pattern s \<longleftrightarrow> s \<noteq> [] \<and> is_alnum (hd s) \<and> (\<forall>c \<in> set s. ident_char c)"
  by (cases s) (auto simp: list_all_iff is_alnum_ident_char)

lemma source_type_pattern_iff:
  "source_type_pattern s \<longleftrightarrow> s \<noteq> [] \<and> is_lower (hd s) \<and> (\<forall>c \<in> set s. source_type_char c)"
  by (cases s) (auto simp: list_all_iff is_lower_source_type_char)

lemma validate_identifier_None [validate_iff]:
  "validate_identifier field v = None \<longleftrightarrow> is_identifier v"
  by (auto simp: validate_identifier_def is_identifier_def identifier_pattern_iff limit_defs)

lemma validate_event_name_None [validate_iff]:
  "validate_event_name v = None \<longleftrightarrow> is_identifier v"
  by (auto simp: validate_event_name_def is_identifier_def identifier_pattern_iff limit_defs)

lemma validate_source_type_None [validate_iff]:
  "validate_source_type v = None \<longleftrightarrow> is_source_type v"
  by (auto simp: validate_source_type_def is_source_type_def source_type_pattern_iff limit_defs)

lemma validate_property_key_None [validate_iff]:
  "validate_property_key field key = None \<longleftrightarrow> is_identifier key"
  by (auto simp: validate_property_key_def is_identifier_def identifier_pattern_iff limit_defs)

lemma validate_property_value_None [validate_iff]:
  "validate_property_value pf field v = None \<longleftrightarrow> storable pf v"
  by (cases v) (auto simp: validate_float_property_def limit_defs split: option.splits)

lemma validate_entries_None [validate_iff]:
  "validate_entries pf field xs = None \<longleftrightarrow> (\<forall>(k, v) \<in> set xs. is_identifier k \<and> storable pf v)"
  by (induction xs) (auto simp: validate_iff split: option.splits)

lemma validate_properties_None [validate_iff]:
  "validate_properties pf field m = None \<longleftrightarrow> valid_props pf m"
  by (auto simp: validate_properties_def valid_props_def validate_iff limit_defs)

text \<open>Every rejection by a validator is a \<open>ValidationError\<close>.\<close>

lemma validate_identifier_Some:
  "validate_identifier field v = Some e \<Longrightarrow> \<exists>reason. e = ErrValidation field reason"
  by (auto simp: validate_identifier_def split: if_splits)

lemma validate_event_name_Some:
  "validate_event_name v = Some e \<Longrightarrow> \<exists>reason. e = ErrValidation ''event_name'' reason"
  by (auto simp: validate_event_name_def split: if_splits)

lemma validate_source_type_Some:
  "validate_source_type v = Some e \<Longrightarrow> \<exists>reason. e = ErrValidation ''source_type'' reason"
  by (auto simp: validate_source_type_def split: if_splits)

lemma validate_property_value_Some:
  "validate_property_value pf field v = Some e \<Longrightarrow> \<exists>reason. e = ErrValidation field reason"
  by (cases v) (auto simp: validate_float_property_def split: option.splits if_splits)

lemma validate_entries_Some:
  "validate_entries pf field xs = Some e \<Longrightarrow> \<exists>f reason. e = ErrValidation f reason"
proof (induction xs)
  case (Cons x xs)
  then show ?case
    by (cases x) (auto simp: validate_property_key_def dest: validate_property_value_Some
        split: option.splits if_splits)
qed simp

lemma validate_properties_Some:
  "validate_properties pf field m = Some e \<Longrightarrow> \<exists>f reason. e = ErrValidation f reason"
  by (auto simp: validate_properties_def dest: validate_entries_Some split: if_splits)

lemmas validate_Some =
  validate_identifier_Some validate_event_name_Some validate_source_type_Some
  validate_properties_Some

text \<open>Trimming and cloning.\<close>

lemma trim_identifier [simp]: "is_identifier s \<Longrightarrow> trim_space s = s"
  by (rule trim_space_solid) (simp add: is_identifier_def ident_char_solid)

lemma trim_source_type [simp]: "is_source_type s \<Longrightarrow> trim_space s = s"
  by (rule trim_space_solid) (simp add: is_source_type_def ident_char_solid source_type_char_ident_char)

lemma entries_clone_map [simp]: "entries (clone_map m) = entries m"
  by (simp add: clone_map_def)

lemma clone_map_idem [simp]: "clone_map (clone_map m) = clone_map m"
  by (simp add: clone_map_def)

lemma valid_props_clone_map [simp]: "valid_props pf (clone_map m) = valid_props pf m"
  by (simp add: valid_props_def)

lemma trim_request_idem [simp]: "trim_request (trim_request r) = trim_request r"
  by (simp add: trim_request_def normalize_client_info_def)

text \<open>
  The envelope an accepted request becomes; \<open>normalize_Inr\<close> splits \<open>normalize\<close> into the decision
  and this result.
\<close>

definition envelope_of :: "request \<Rightarrow> gotime \<Rightarrow> event_envelope" where
  "envelope_of r received_at =
     \<lparr>env_id = rq_id r, env_tenant_id = rq_tenant_id r, env_project_id = rq_project_id r,
      env_source_id = rq_source_id r, env_source_type = rq_source_type r,
      env_event_name = rq_event_name r, env_distinct_id = rq_distinct_id r,
      env_session_id = rq_session_id r, env_visit_id = rq_visit_id r,
      env_event_time = utc (effective_event_time (rq_event_time r) received_at),
      env_received_at = utc received_at,
      env_properties = clone_map (rq_properties r), env_user_props = clone_map (rq_user_props r),
      env_source = rq_source r\<rparr>"

lemma too_far_iff:
  "after (effective_event_time t received_at) (add_time received_at max_clock_skew) \<longleftrightarrow>
     tm_ns t \<noteq> 0 \<and> tm_ns received_at + 5 * 60 * 1000000000 < tm_ns t"
  by (auto simp: effective_event_time_def time_simps max_clock_skew_def minute_def second_def)

lemma normalize_Inr:
  "normalize pf r received_at = Inr e \<longleftrightarrow>
     admissible pf r received_at \<and> e = envelope_of (trim_request r) received_at"
  unfolding normalize_def Let_def
  by (cases "is_zero_time received_at")
     (auto simp: admissible_def validate_iff trim_request_def envelope_of_def is_zero_time_def
        too_far_iff not_less)


lemma wf_envelope_of:
  assumes "admissible pf r received_at"
  shows "wf_envelope pf (envelope_of (trim_request r) received_at)"
  using assms
  by (auto simp: wf_envelope_def envelope_of_def trim_request_def admissible_def
      effective_event_time_def is_zero_time_def)

lemma normalize_Inl_cases:
  assumes "normalize pf r received_at = Inl x"
  shows "tm_ns received_at = 0 \<and> x = ErrText ''receivedAt is required'' \<or>
    (\<exists>field reason. x = ErrValidation field reason)"
proof (cases "is_zero_time received_at")
  case True
  with assms show ?thesis by (simp add: normalize_def is_zero_time_def)
next
  case False
  with assms show ?thesis
    unfolding normalize_def Let_def
    by (auto simp: guard_err_Inl split: if_splits dest: validate_Some)
qed

section \<open>Properties\<close>


definition sample_request :: request where
  "sample_request =
     \<lparr>rq_id = '' evt-1'', rq_tenant_id = ''tenant_1'', rq_project_id = ''p'', rq_source_id = ''s'',
      rq_source_type = ''web'', rq_event_name = ''page.view '', rq_distinct_id = ''user:42'',
      rq_session_id = [], rq_visit_id = '' '', rq_event_time = zero_time,
      rq_properties = Some [(''page.path'', VString ''/docs''), (''paid'', VBool True)],
      rq_user_props = None, rq_source = [],
      rq_client = \<lparr>ci_user_agent = [], ci_ip = [], ci_referrer = []\<rparr>\<rparr>"

definition sample_time :: gotime where
  "sample_time = \<lparr>tm_ns = 63800000000 * 1000000000, tm_zone = ZoneOther ''CET''\<rparr>"

lemma sample_admissible: "admissible (\<lambda>_. None) sample_request sample_time"
  by code_simp


text \<open>
  C15. Normalize accepts exactly the admissible requests: it returns an envelope if and only if the
  trimmed fields are identifiers of the right kind, the property maps are within their limits, and
  the event time is absent or at most five minutes ahead of the receive time.
\<close>

theorem normalize_accepts_iff:
  "(\<exists>e. normalize pf r received_at = Inr e) \<longleftrightarrow> admissible pf r received_at"
  by (simp add: normalize_Inr)

text \<open>
  Every rejection is a \<open>ValidationError\<close>, which the HTTP adapter turns into a client error,
  except the one for a zero receive time.
\<close>

theorem normalize_rejects_with_validation_error:
  assumes "normalize pf r received_at = Inl x" and "\<not> is_zero_time received_at"
  shows "\<exists>field reason. x = ErrValidation field reason"
  using normalize_Inl_cases [OF assms(1)] assms(2) by (auto simp: is_zero_time_def)

theorem normalize_rejects_with_validation_error_witness:
  "\<exists>field reason. ErrValidation ''id'' ''is required'' = ErrValidation field reason"
proof (rule normalize_rejects_with_validation_error)
  show "normalize (\<lambda>_. None) (sample_request\<lparr>rq_id := '' ''\<rparr>) sample_time
    = Inl (ErrValidation ''id'' ''is required'')"
    by code_simp
  show "\<not> is_zero_time sample_time"
    by (simp add: sample_time_def is_zero_time_def)
qed

definition request_of :: "event_envelope \<Rightarrow> client_info \<Rightarrow> request" where
  "request_of e c =
     \<lparr>rq_id = env_id e, rq_tenant_id = env_tenant_id e, rq_project_id = env_project_id e,
      rq_source_id = env_source_id e, rq_source_type = env_source_type e,
      rq_event_name = env_event_name e, rq_distinct_id = env_distinct_id e,
      rq_session_id = env_session_id e, rq_visit_id = env_visit_id e,
      rq_event_time = env_event_time e, rq_properties = env_properties e,
      rq_user_props = env_user_props e, rq_source = env_source e, rq_client = c\<rparr>"

text \<open>
  C33. Normalizing is idempotent: feeding a published envelope's fields back as a request with the
  same receive time is accepted and yields the same envelope.
\<close>

theorem normalize_idempotent:
  assumes "normalize pf r received_at = Inr e"
  shows "normalize pf (request_of e c) (env_received_at e) = Inr e"
proof -
  from assms have a: "admissible pf r received_at"
    and e: "e = envelope_of (trim_request r) received_at"
    by (simp_all add: normalize_Inr)
  from a have nz: "tm_ns received_at \<noteq> 0" by (simp add: admissible_def)
  have "admissible pf (request_of e c) (env_received_at e)"
    using a nz by (auto simp: admissible_def e envelope_of_def request_of_def trim_request_def
        effective_event_time_def is_zero_time_def)
  moreover have "envelope_of (trim_request (request_of e c)) (env_received_at e) = e"
    using nz by (simp add: e envelope_of_def request_of_def trim_request_def
        effective_event_time_def is_zero_time_def)
  ultimately show ?thesis by (simp add: normalize_Inr)
qed

theorem normalize_idempotent_witness:
  "let e = envelope_of (trim_request sample_request) sample_time
   in normalize (\<lambda>_. None) (request_of e (rq_client sample_request)) (env_received_at e) = Inr e"
  unfolding Let_def
  by (rule normalize_idempotent [of _ sample_request sample_time])
     (simp add: normalize_Inr sample_admissible)

text \<open>
  Go visits the entries of a property map in random order; whether validation accepts the map
  does not depend on that order.
\<close>

theorem validate_properties_order_independent:
  assumes "mset (entries m) = mset (entries m')"
  shows "validate_properties pf field m = None \<longleftrightarrow> validate_properties pf field m' = None"
proof -
  from assms have "set (entries m) = set (entries m')" and "map_len m = map_len m'"
    by (auto dest: mset_eq_setD mset_eq_length)
  then show ?thesis by (simp add: validate_iff valid_props_def)
qed

theorem validate_properties_order_independent_witness:
  "validate_properties (\<lambda>_. None) ''properties'' (Some [(''a'', VNull), (''b c'', VNull)]) = None \<longleftrightarrow>
   validate_properties (\<lambda>_. None) ''properties'' (Some [(''b c'', VNull), (''a'', VNull)]) = None"
  by (rule validate_properties_order_independent) simp

end
