(* ===== verification/Storage_Property.thy ===== *)
theory Storage_Property
  imports Collect_Request
begin

text \<open>
  Package \<open>storage\<close>, file \<open>property.go\<close>: flattening the two property maps of an envelope into typed
  rows, in a deterministic order. \<open>pf\<close> is \<open>strconv.ParseFloat(s, 64)\<close>.

  The lemmas show that flattening does not depend on the order in which Go visits the maps, that it
  keeps every property with its typed value, and which accepted envelopes it rejects.
\<close>

section \<open>Rows\<close>

definition property_scope_event :: string where "property_scope_event = ''event''"
definition property_scope_user :: string where "property_scope_user = ''user''"
definition property_value_null :: string where "property_value_null = ''null''"
definition property_value_string :: string where "property_value_string = ''string''"
definition property_value_number :: string where "property_value_number = ''number''"
definition property_value_bool :: string where "property_value_bool = ''bool''"

lemmas property_constants =
  property_scope_event_def property_scope_user_def property_value_null_def property_value_string_def
  property_value_number_def property_value_bool_def

record event_property_record =
  er_event_id :: string
  er_tenant_id :: string
  er_project_id :: string
  er_source_id :: string
  er_source_type :: string
  er_event_name :: string
  er_distinct_id :: string
  er_session_id :: string
  er_visit_id :: string
  er_event_time :: gotime
  er_received_at :: gotime
  er_source :: string
  er_scope :: string
  er_name :: string
  er_value_type :: string
  er_string :: string
  er_number :: go_float
  er_bool :: bool

text \<open>\<open>propertyBase\<close> together with the zero values of the remaining fields.\<close>

definition property_base :: "event_envelope \<Rightarrow> event_property_record" where
  "property_base e =
     \<lparr>er_event_id = env_id e, er_tenant_id = env_tenant_id e, er_project_id = env_project_id e,
      er_source_id = env_source_id e, er_source_type = env_source_type e, er_event_name = env_event_name e,
      er_distinct_id = env_distinct_id e, er_session_id = env_session_id e, er_visit_id = env_visit_id e,
      er_event_time = utc (env_event_time e), er_received_at = utc (env_received_at e),
      er_source = env_source e, er_scope = [], er_name = [], er_value_type = [], er_string = [],
      er_number = Finite 0, er_bool = False\<rparr>"

definition set_number_property :: "event_property_record \<Rightarrow> go_float \<Rightarrow> event_property_record" where
  "set_number_property r x = r\<lparr>er_value_type := property_value_number, er_number := x\<rparr>"

text \<open>The type switch: the typed row before the checks that follow it.\<close>

fun typed_record ::
  "(string \<Rightarrow> go_float option) \<Rightarrow> string \<Rightarrow> string \<Rightarrow> event_property_record \<Rightarrow> prop_value \<Rightarrow>
   go_error + event_property_record" where
  "typed_record pf scope name r VNull = Inr (r\<lparr>er_value_type := property_value_null\<rparr>)"
| "typed_record pf scope name r (VBool b) = Inr (r\<lparr>er_value_type := property_value_bool, er_bool := b\<rparr>)"
| "typed_record pf scope name r (VString s) = Inr (r\<lparr>er_value_type := property_value_string, er_string := s\<rparr>)"
| "typed_record pf scope name r (VInt k i) = Inr (set_number_property r (float64_of_int i))"
| "typed_record pf scope name r (VFloat32 x) = Inr (set_number_property r x)"
| "typed_record pf scope name r (VFloat64 x) = Inr (set_number_property r x)"
| "typed_record pf scope name r (VNumber n) =
     (case pf n of
        None \<Rightarrow> Inl (ErrWrap (''property '' @ scope @ ''.'' @ name @ '' has invalid number: '')
                  (ErrExternal ''strconv.ParseFloat: invalid syntax''))
      | Some x \<Rightarrow> Inr (set_number_property r x))"
| "typed_record pf scope name r (VOther t) =
     Inl (ErrText (''property '' @ scope @ ''.'' @ name @ '' has unsupported value type '' @ t))"

definition new_property_record ::
  "(string \<Rightarrow> go_float option) \<Rightarrow> event_property_record \<Rightarrow> string \<Rightarrow> string \<Rightarrow> prop_value \<Rightarrow>
   go_error + event_property_record" where
  "new_property_record pf base scope name v =
     (case typed_record pf scope name (base\<lparr>er_scope := scope, er_name := name\<rparr>) v of
        Inl e \<Rightarrow> Inl e
      | Inr r \<Rightarrow>
          if er_value_type r = property_value_number \<and> (is_nan (er_number r) \<or> is_inf (er_number r))
          then Inl (ErrText (''property '' @ scope @ ''.'' @ name @ '' has invalid number''))
          else if er_value_type r = [] then Inl (ErrText ''property value type is required'')
          else Inr r)"

fun flatten_keys ::
  "(string \<Rightarrow> go_float option) \<Rightarrow> event_property_record \<Rightarrow> string \<Rightarrow> props \<Rightarrow> string list \<Rightarrow>
   go_error + event_property_record list" where
  "flatten_keys pf base scope m [] = Inr []"
| "flatten_keys pf base scope m (key # keys) =
     (case new_property_record pf base scope key (case map_get m key of None \<Rightarrow> VNull | Some v \<Rightarrow> v) of
        Inl e \<Rightarrow> Inl e
      | Inr r \<Rightarrow> (case flatten_keys pf base scope m keys of Inl e \<Rightarrow> Inl e | Inr rs \<Rightarrow> Inr (r # rs)))"

definition flatten_property_map ::
  "(string \<Rightarrow> go_float option) \<Rightarrow> event_property_record \<Rightarrow> string \<Rightarrow> props \<Rightarrow> go_error + event_property_record list" where
  "flatten_property_map pf base scope m =
     (if map_len m = 0 then Inr []
      else flatten_keys pf base scope m (sort (map fst (entries m))))"

definition flatten_event_properties ::
  "(string \<Rightarrow> go_float option) \<Rightarrow> event_envelope \<Rightarrow> go_error + event_property_record list" where
  "flatten_event_properties pf e =
     (case flatten_property_map pf (property_base e) property_scope_event (env_properties e) of
        Inl x \<Rightarrow> Inl x
      | Inr rs \<Rightarrow>
          (case flatten_property_map pf (property_base e) property_scope_user (env_user_props e) of
             Inl x \<Rightarrow> Inl x
           | Inr us \<Rightarrow> Inr (rs @ us)))"

section \<open>What flattening accepts\<close>

fun flattenable :: "(string \<Rightarrow> go_float option) \<Rightarrow> prop_value \<Rightarrow> bool" where
  "flattenable pf (VFloat32 x) = (\<not> is_nan x \<and> \<not> is_inf x)"
| "flattenable pf (VFloat64 x) = (\<not> is_nan x \<and> \<not> is_inf x)"
| "flattenable pf (VNumber n) = (\<exists>x. pf n = Some x \<and> \<not> is_nan x \<and> \<not> is_inf x)"
| "flattenable pf (VOther t) = False"
| "flattenable pf _ = True"

text \<open>The typed value a row carries.\<close>

definition row_of :: "(string \<Rightarrow> go_float option) \<Rightarrow> event_property_record \<Rightarrow> string \<Rightarrow> string \<Rightarrow> prop_value \<Rightarrow> event_property_record" where
  "row_of pf base scope name v = projr (new_property_record pf base scope name v)"

lemma property_type_facts [simp]:
  "property_value_null \<noteq> property_value_number" "property_value_bool \<noteq> property_value_number"
  "property_value_string \<noteq> property_value_number" "property_value_null \<noteq> []" "property_value_bool \<noteq> []"
  "property_value_string \<noteq> []" "property_value_number \<noteq> []"
  by (simp_all add: property_constants)

lemma set_number_fields [simp]:
  "er_value_type (set_number_property r x) = property_value_number" "er_number (set_number_property r x) = x"
  "er_scope (set_number_property r x) = er_scope r" "er_name (set_number_property r x) = er_name r"
  by (simp_all add: set_number_property_def)

lemma new_property_record_cases:
  "new_property_record pf base scope name v =
     (if flattenable pf v
      then Inr (projr (typed_record pf scope name (base\<lparr>er_scope := scope, er_name := name\<rparr>) v))
      else new_property_record pf base scope name v)"
proof (cases v)
  case (VNumber n)
  then show ?thesis by (cases "pf n") (simp_all add: new_property_record_def)
qed (simp_all add: new_property_record_def float64_of_int_finite)

lemma new_property_record_Inl:
  "\<not> flattenable pf v \<Longrightarrow> \<exists>e. new_property_record pf base scope name v = Inl e"
proof (cases v)
  case (VNumber n)
  then show "\<not> flattenable pf v \<Longrightarrow> ?thesis" by (cases "pf n") (auto simp: new_property_record_def)
qed (auto simp: new_property_record_def)

lemma new_property_record_row:
  "flattenable pf v \<Longrightarrow> new_property_record pf base scope name v = Inr (row_of pf base scope name v)"
  using new_property_record_cases [of pf base scope name v] by (simp add: row_of_def)

lemma new_property_record_Inr_iff:
  "(\<exists>r. new_property_record pf base scope name v = Inr r) \<longleftrightarrow> flattenable pf v"
  using new_property_record_row [of pf v base scope name] new_property_record_Inl [of pf v base scope name]
  by fastforce

lemma row_of_key:
  assumes "flattenable pf v"
  shows "er_scope (row_of pf base scope name v) = scope \<and> er_name (row_of pf base scope name v) = name"
proof -
  have "row_of pf base scope name v = projr (typed_record pf scope name (base\<lparr>er_scope := scope, er_name := name\<rparr>) v)"
    using new_property_record_cases [of pf base scope name v] assms by (simp add: row_of_def)
  with assms show ?thesis by (cases v) auto
qed

definition value_at :: "props \<Rightarrow> string \<Rightarrow> prop_value" where
  "value_at m key = (case map_get m key of None \<Rightarrow> VNull | Some v \<Rightarrow> v)"

lemma flatten_keys_Inr:
  "(\<exists>rs. flatten_keys pf base scope m keys = Inr rs) \<longleftrightarrow> (\<forall>k \<in> set keys. flattenable pf (value_at m k))"
proof (induction keys)
  case (Cons k ks)
  obtain r where r: "new_property_record pf base scope k (value_at m k) = r" by simp
  with new_property_record_Inr_iff [of pf base scope k "value_at m k"] Cons show ?case
    by (cases r; cases "flatten_keys pf base scope m ks") (auto simp: value_at_def)
qed simp

lemma flatten_keys_rows:
  "\<forall>k \<in> set keys. flattenable pf (value_at m k) \<Longrightarrow>
     flatten_keys pf base scope m keys = Inr (map (\<lambda>k. row_of pf base scope k (value_at m k)) keys)"
  by (induction keys) (auto simp: value_at_def new_property_record_row)

lemma value_at_entries: "wf_map m \<Longrightarrow> value_at m ` set (map fst (entries m)) = snd ` set (entries m)"
  by (force simp: value_at_def map_get_def wf_map_def)

definition flattenable_map :: "(string \<Rightarrow> go_float option) \<Rightarrow> props \<Rightarrow> bool" where
  "flattenable_map pf m \<longleftrightarrow> (\<forall>(k, v) \<in> set (entries m). flattenable pf v)"

lemma flattenable_values:
  assumes "wf_map m"
  shows "flattenable_map pf m \<longleftrightarrow> (\<forall>k \<in> set (map fst (entries m)). flattenable pf (value_at m k))"
proof -
  have "flattenable_map pf m \<longleftrightarrow> (\<forall>v \<in> snd ` set (entries m). flattenable pf v)"
    by (auto simp: flattenable_map_def)
  also have "\<dots> \<longleftrightarrow> (\<forall>v \<in> value_at m ` set (map fst (entries m)). flattenable pf v)"
    by (simp only: value_at_entries [OF assms])
  finally show ?thesis by simp
qed

definition rows_of :: "(string \<Rightarrow> go_float option) \<Rightarrow> event_envelope \<Rightarrow> string \<Rightarrow> props \<Rightarrow> event_property_record list" where
  "rows_of pf e scope m =
     map (\<lambda>k. row_of pf (property_base e) scope k (value_at m k)) (sort (map fst (entries m)))"

lemma flatten_property_map_rows:
  assumes "wf_map m"
  shows "flatten_property_map pf (property_base e) scope m = Inr (rows_of pf e scope m) \<longleftrightarrow> flattenable_map pf m"
    and "(\<exists>rs. flatten_property_map pf (property_base e) scope m = Inr rs) \<longleftrightarrow> flattenable_map pf m"
proof -
  let ?ks = "sort (map fst (entries m))"
  have s: "set ?ks = set (map fst (entries m))" by simp
  have ok: "flattenable_map pf m \<longleftrightarrow> (\<forall>k \<in> set ?ks. flattenable pf (value_at m k))"
    using flattenable_values [OF assms] s by simp
  show ex: "(\<exists>rs. flatten_property_map pf (property_base e) scope m = Inr rs) \<longleftrightarrow> flattenable_map pf m"
    unfolding ok flatten_property_map_def using flatten_keys_Inr [of pf "property_base e" scope m ?ks] by auto
  show "flatten_property_map pf (property_base e) scope m = Inr (rows_of pf e scope m) \<longleftrightarrow> flattenable_map pf m"
    using ex ok flatten_keys_rows [of ?ks pf m "property_base e" scope]
    by (auto simp: flatten_property_map_def rows_of_def)
qed

lemma flatten_event_properties_Inr:
  assumes "wf_map (env_properties e)" and "wf_map (env_user_props e)"
  shows "flatten_event_properties pf e = Inr rows \<longleftrightarrow>
    flattenable_map pf (env_properties e) \<and> flattenable_map pf (env_user_props e) \<and>
    rows = rows_of pf e property_scope_event (env_properties e) @ rows_of pf e property_scope_user (env_user_props e)"
  using flatten_property_map_rows [OF assms(1), of pf e property_scope_event]
    flatten_property_map_rows [OF assms(2), of pf e property_scope_user]
  by (auto simp: flatten_event_properties_def split: sum.splits)

section \<open>Properties\<close>


definition sample_flat_envelope :: event_envelope where
  "sample_flat_envelope =
     empty_envelope\<lparr>env_id := ''e'', env_properties := Some [(''b'', VBool True), (''a'', VInt KInt 3)],
       env_user_props := Some [(''plan'', VString ''pro'')]\<rparr>"


lemma sort_keys_mset:
  fixes xs ys :: "(string \<times> 'b) list"
  assumes "mset xs = mset ys"
  shows "sort (map fst xs) = sort (map fst ys)"
proof (rule properties_for_sort)
  show "mset (sort (map fst ys)) = mset (map fst xs)" using assms by (metis mset_map mset_sort)
qed simp

lemma value_at_mset:
  assumes "wf_map m" and "mset (entries m) = mset (entries m')"
  shows "value_at m = value_at m'"
proof
  fix k
  have d: "distinct (map fst (entries m))" using assms(1) by (simp add: wf_map_def)
  moreover have "distinct (map fst (entries m'))"
    using d assms(2) by (metis mset_eq_imp_distinct_iff mset_map)
  ultimately have "map_of (entries m) = map_of (entries m')"
    using assms(2) by (intro map_of_inject_set [THEN iffD2]) (auto dest: mset_eq_setD)
  then show "value_at m k = value_at m' k" by (simp add: value_at_def map_get_def)
qed

lemma flatten_keys_cong:
  "value_at m = value_at m' \<Longrightarrow> flatten_keys pf base scope m ks = flatten_keys pf base scope m' ks"
  by (induction ks) (simp_all cong: sum.case_cong flip: value_at_def)

lemma flatten_property_map_mset:
  assumes "wf_map m" and "mset (entries m) = mset (entries m')"
  shows "flatten_property_map pf base scope m = flatten_property_map pf base scope m'"
proof -
  have "map_len m = map_len m'" using assms(2) by (rule mset_eq_length)
  then show ?thesis
    by (simp only: flatten_property_map_def flatten_keys_cong [OF value_at_mset [OF assms]]
        sort_keys_mset [OF assms(2)])
qed

text \<open>
  Flattening is deterministic: two envelopes that differ only in the order in which Go visits their
  maps flatten to the same rows, or both fail.
\<close>

theorem flatten_order_independent:
  assumes "wf_map (env_properties e)" and "wf_map (env_user_props e)"
    and "mset (entries (env_properties e)) = mset (entries m)"
    and "mset (entries (env_user_props e)) = mset (entries u)"
  shows "flatten_event_properties pf e
      = flatten_event_properties pf (e\<lparr>env_properties := m, env_user_props := u\<rparr>)"
proof -
  have b: "property_base (e\<lparr>env_properties := m, env_user_props := u\<rparr>) = property_base e"
    by (simp add: property_base_def)
  have p: "env_properties (e\<lparr>env_properties := m, env_user_props := u\<rparr>) = m"
    "env_user_props (e\<lparr>env_properties := m, env_user_props := u\<rparr>) = u" by simp_all
  show ?thesis
    by (simp only: flatten_event_properties_def b p flatten_property_map_mset [OF assms(1,3)]
        flatten_property_map_mset [OF assms(2,4)])
qed

theorem flatten_order_independent_witness:
  "flatten_event_properties (\<lambda>_. None) sample_flat_envelope
      = flatten_event_properties (\<lambda>_. None)
          (sample_flat_envelope\<lparr>env_properties := Some [(''a'', VInt KInt 3), (''b'', VBool True)],
             env_user_props := Some [(''plan'', VString ''pro'')]\<rparr>)"
  by (rule flatten_order_independent) (simp_all add: wf_map_def sample_flat_envelope_def)

definition no_odd_numbers :: "(string \<Rightarrow> go_float option) \<Rightarrow> props \<Rightarrow> bool" where
  "no_odd_numbers pf m \<longleftrightarrow>
     (\<forall>(k, v) \<in> set (entries m). \<forall>n x. v = VNumber n \<and> pf n = Some x \<longrightarrow> \<not> is_nan x \<and> \<not> is_inf x)"

lemma storable_flattenable:
  "storable pf v \<Longrightarrow> (\<forall>n x. v = VNumber n \<and> pf n = Some x \<longrightarrow> \<not> is_nan x \<and> \<not> is_inf x) \<Longrightarrow> flattenable pf v"
  by (cases v) auto

lemma valid_props_flattenable:
  assumes "valid_props pf m" and "no_odd_numbers pf m"
  shows "flattenable_map pf m"
  unfolding flattenable_map_def
proof (clarify)
  fix k v
  assume "(k, v) \<in> set (entries m)"
  with assms have "storable pf v" "\<forall>n x. v = VNumber n \<and> pf n = Some x \<longrightarrow> \<not> is_nan x \<and> \<not> is_inf x"
    unfolding valid_props_def no_odd_numbers_def by blast+
  then show "flattenable pf v" by (rule storable_flattenable)
qed

text \<open>
  Collect and storage agree on everything but \<open>json.Number\<close>: an envelope that normalization
  publishes always flattens, unless one of its properties is a \<open>json.Number\<close> whose text parses to
  a NaN or an infinity, which collect lets through.
\<close>

theorem accepted_events_flatten:
  assumes "normalize pf r received_at = Inr e" and "wf_map (rq_properties r)" and "wf_map (rq_user_props r)"
    and "no_odd_numbers pf (rq_properties r)" and "no_odd_numbers pf (rq_user_props r)"
  shows "\<exists>rows. flatten_event_properties pf e = Inr rows \<and>
    length rows = map_len (rq_properties r) + map_len (rq_user_props r)"
proof -
  from assms(1) have a: "admissible pf r received_at" and e: "e = envelope_of (trim_request r) received_at"
    by (simp_all add: normalize_Inr)
  have en: "entries (env_properties e) = entries (rq_properties r)" "entries (env_user_props e) = entries (rq_user_props r)"
    by (simp_all add: e envelope_of_def trim_request_def)
  then have wf: "wf_map (env_properties e)" "wf_map (env_user_props e)"
    using assms(2,3) by (simp_all add: wf_map_def)
  have "flattenable_map pf (env_properties e)" "flattenable_map pf (env_user_props e)"
    using valid_props_flattenable [OF _ assms(4)] valid_props_flattenable [OF _ assms(5)] a en
    by (simp_all add: admissible_def flattenable_map_def)
  then show ?thesis
    using en by (auto simp: flatten_event_properties_Inr [OF wf] rows_of_def)
qed

theorem accepted_events_flatten_witness:
  "\<exists>rows. flatten_event_properties (\<lambda>_. None) (envelope_of (trim_request sample_request) sample_time) = Inr rows \<and>
    length rows = map_len (rq_properties sample_request) + map_len (rq_user_props sample_request)"
proof (rule accepted_events_flatten [where received_at = sample_time])
  show "normalize (\<lambda>_. None) sample_request sample_time = Inr (envelope_of (trim_request sample_request) sample_time)"
    using sample_admissible by (simp add: normalize_Inr)
qed (simp_all add: sample_request_def wf_map_def no_odd_numbers_def)

definition nan_request :: request where
  "nan_request = sample_request\<lparr>rq_properties := Some [(''price'', VNumber ''NaN'')]\<rparr>"

lemma nan_request_fields:
  "rq_id nan_request = rq_id sample_request" "rq_tenant_id nan_request = rq_tenant_id sample_request"
  "rq_project_id nan_request = rq_project_id sample_request" "rq_source_id nan_request = rq_source_id sample_request"
  "rq_source_type nan_request = rq_source_type sample_request" "rq_event_name nan_request = rq_event_name sample_request"
  "rq_distinct_id nan_request = rq_distinct_id sample_request" "rq_session_id nan_request = rq_session_id sample_request"
  "rq_visit_id nan_request = rq_visit_id sample_request" "rq_event_time nan_request = rq_event_time sample_request"
  "rq_properties nan_request = Some [(''price'', VNumber ''NaN'')]" "rq_user_props nan_request = None"
  by (simp_all add: nan_request_def sample_request_def)

lemma nan_key: "is_identifier ''price''"
  by code_simp

lemma nan_admissible:
  assumes "pf ''NaN'' = Some NaN"
  shows "admissible pf nan_request sample_time"
proof -
  have "valid_props pf (rq_properties nan_request)" "valid_props pf (rq_user_props nan_request)"
    using assms by (simp_all only: nan_request_fields) (simp_all add: valid_props_def nan_key)
  then show ?thesis
    using sample_admissible unfolding admissible_def nan_request_fields(1-10) by blast
qed

text \<open>
  The gap is real: with Go's \<open>ParseFloat\<close>, which accepts the text \<open>NaN\<close>, there is a request that
  collect accepts and whose envelope storage refuses to flatten.
\<close>

theorem collect_accepts_unstorable_number:
  assumes "pf ''NaN'' = Some NaN"
  shows "\<exists>e x. normalize pf nan_request sample_time = Inr e \<and> flatten_event_properties pf e = Inl x"
proof -
  have a: "admissible pf nan_request sample_time" using assms by (rule nan_admissible)
  let ?e = "envelope_of (trim_request nan_request) sample_time"
  have p: "env_properties ?e = Some [(''price'', VNumber ''NaN'')]"
    by (simp add: envelope_of_def trim_request_def nan_request_def clone_map_def)
  have wf: "wf_map (env_properties ?e)" by (simp add: p wf_map_def)
  have "\<not> flattenable_map pf (env_properties ?e)" using assms by (simp add: p flattenable_map_def)
  then obtain x where "flatten_property_map pf (property_base ?e) property_scope_event (env_properties ?e) = Inl x"
    using flatten_property_map_rows(2) [OF wf, of pf ?e property_scope_event]
    by (cases "flatten_property_map pf (property_base ?e) property_scope_event (env_properties ?e)") auto
  then have "flatten_event_properties pf ?e = Inl x"
    by (simp add: flatten_event_properties_def)
  moreover have "normalize pf nan_request sample_time = Inr ?e" using a by (simp add: normalize_Inr)
  ultimately show ?thesis by blast
qed

theorem collect_accepts_unstorable_number_witness:
  "\<exists>e x. normalize (\<lambda>s. if s = ''NaN'' then Some NaN else None) nan_request sample_time = Inr e \<and>
     flatten_event_properties (\<lambda>s. if s = ''NaN'' then Some NaN else None) e = Inl x"
  by (rule collect_accepts_unstorable_number) simp

end
