(* ===== verification/Storage_Catalog.thy ===== *)
theory Storage_Catalog
  imports Storage_Property "HOL-Library.Product_Lexorder"
begin

text \<open>
  Package \<open>storage\<close>, file \<open>property_catalog.go\<close>: condensing typed property rows into the dictionary of
  observed properties, and the validators of catalog entries and queries.

  A Go map keyed by a struct is an association list; the code sorts its keys before it builds the
  result, so the order of the list is not observable. \<open>Less\<close> makes the key a linear order.

  The lemmas show that the dictionary has one entry per selector with the observation window of the
  rows, in ascending order, whatever the order of the rows, and that the rows of accepted events
  always give entries that pass the validator.
\<close>

section \<open>Entries, queries, keys\<close>

record property_catalog_entry =
  pe_tenant_id :: string
  pe_project_id :: string
  pe_source_id :: string
  pe_scope :: string
  pe_name :: string
  pe_value_type :: string
  pe_first_seen_at :: gotime
  pe_last_seen_at :: gotime

record property_catalog_query =
  pq_tenant_id :: string
  pq_project_id :: string
  pq_source_id :: string
  pq_scope :: string
  pq_limit :: int

datatype property_catalog_key =
  CatalogKey (ck_tenant_id: string) (ck_project_id: string) (ck_source_id: string) (ck_scope: string)
    (ck_name: string) (ck_value_type: string)

definition key_less :: "property_catalog_key \<Rightarrow> property_catalog_key \<Rightarrow> bool" where
  "key_less k other =
     (if ck_tenant_id k \<noteq> ck_tenant_id other then ck_tenant_id k < ck_tenant_id other
      else if ck_project_id k \<noteq> ck_project_id other then ck_project_id k < ck_project_id other
      else if ck_source_id k \<noteq> ck_source_id other then ck_source_id k < ck_source_id other
      else if ck_scope k \<noteq> ck_scope other then ck_scope k < ck_scope other
      else if ck_name k \<noteq> ck_name other then ck_name k < ck_name other
      else ck_value_type k < ck_value_type other)"

definition key_tuple :: "property_catalog_key \<Rightarrow> string \<times> string \<times> string \<times> string \<times> string \<times> string" where
  "key_tuple k = (ck_tenant_id k, ck_project_id k, ck_source_id k, ck_scope k, ck_name k, ck_value_type k)"

lemma key_less_tuple: "key_less k other \<longleftrightarrow> key_tuple k < key_tuple other"
  by (auto simp: key_less_def key_tuple_def less_prod_simp)

lemma key_tuple_inj: "key_tuple k = key_tuple other \<longleftrightarrow> k = other"
  by (cases k; cases other) (simp add: key_tuple_def)

instantiation property_catalog_key :: linorder
begin

definition less_property_catalog_key :: "property_catalog_key \<Rightarrow> property_catalog_key \<Rightarrow> bool" where
  "less_property_catalog_key = key_less"

definition less_eq_property_catalog_key :: "property_catalog_key \<Rightarrow> property_catalog_key \<Rightarrow> bool" where
  "less_eq_property_catalog_key k other \<longleftrightarrow> key_less k other \<or> k = other"

instance
  by standard
    (auto simp: less_property_catalog_key_def less_eq_property_catalog_key_def key_less_tuple
      simp flip: key_tuple_inj)

end

definition key_from_entry :: "property_catalog_entry \<Rightarrow> property_catalog_key" where
  "key_from_entry e =
     CatalogKey (pe_tenant_id e) (pe_project_id e) (pe_source_id e) (pe_scope e) (pe_name e) (pe_value_type e)"

section \<open>Validators\<close>

definition observed_at :: "event_property_record \<Rightarrow> gotime" where
  "observed_at r =
     (if \<not> is_zero_time (er_event_time r) then utc (er_event_time r)
      else if \<not> is_zero_time (er_received_at r) then utc (er_received_at r)
      else zero_time)"

definition validate_catalog_record :: "event_property_record \<Rightarrow> go_error option" where
  "validate_catalog_record r =
     first_error
       [(er_tenant_id r = [], ''tenant_id is required''),
        (er_project_id r = [], ''project_id is required''),
        (er_source_id r = [], ''source_id is required''),
        (er_scope r = [], ''property scope is required''),
        (er_name r = [], ''property name is required''),
        (er_value_type r = [], ''property value type is required''),
        (is_zero_time (observed_at r), ''property observed time is required'')]"

definition validate_property_scope :: "string \<Rightarrow> go_error option" where
  "validate_property_scope scope =
     (if scope = [] then Some (ErrText ''property scope is required'')
      else if scope = property_scope_event \<or> scope = property_scope_user then None
      else Some (ErrText ''property scope must be event or user''))"

definition validate_property_value_type :: "string \<Rightarrow> go_error option" where
  "validate_property_value_type t =
     (if t = [] then Some (ErrText ''property value type is required'')
      else if t \<in> {property_value_null, property_value_string, property_value_number, property_value_bool}
      then None
      else Some (ErrText ''property value type must be null, string, number, or bool''))"

definition validate_catalog_entry :: "property_catalog_entry \<Rightarrow> go_error option" where
  "validate_catalog_entry e =
     or_else (first_error
       [(pe_tenant_id e = [], ''tenant_id is required''),
        (pe_project_id e = [], ''project_id is required''),
        (pe_source_id e = [], ''source_id is required'')])
    (or_else (validate_property_scope (pe_scope e))
    (or_else (first_error [(pe_name e = [], ''property name is required'')])
    (or_else (validate_property_value_type (pe_value_type e))
       (first_error
         [(is_zero_time (pe_first_seen_at e), ''first_seen_at is required''),
          (is_zero_time (pe_last_seen_at e), ''last_seen_at is required'')]))))"

definition validate_catalog_query :: "property_catalog_query \<Rightarrow> go_error option" where
  "validate_catalog_query q =
     or_else (first_error
       [(pq_tenant_id q = [], ''tenant_id is required''),
        (pq_project_id q = [], ''project_id is required''),
        (pq_source_id q = [], ''source_id is required'')])
    (or_else (if pq_scope q \<noteq> [] then validate_property_scope (pq_scope q) else None)
       (first_error [(pq_limit q < 0, ''limit must be greater than or equal to 0'')]))"

section \<open>Building the dictionary\<close>

definition entry_from_record :: "event_property_record \<Rightarrow> go_error + property_catalog_entry" where
  "entry_from_record r =
     (case validate_catalog_record r of
        Some e \<Rightarrow> Inl e
      | None \<Rightarrow> Inr
          \<lparr>pe_tenant_id = er_tenant_id r, pe_project_id = er_project_id r, pe_source_id = er_source_id r,
           pe_scope = er_scope r, pe_name = er_name r, pe_value_type = er_value_type r,
           pe_first_seen_at = observed_at r, pe_last_seen_at = observed_at r\<rparr>)"

definition merge_entry :: "property_catalog_entry \<Rightarrow> property_catalog_entry \<Rightarrow> property_catalog_entry" where
  "merge_entry current e =
     (let c1 = (if before (pe_first_seen_at e) (pe_first_seen_at current)
                then current\<lparr>pe_first_seen_at := pe_first_seen_at e\<rparr> else current)
      in if after (pe_last_seen_at e) (pe_last_seen_at c1)
         then c1\<lparr>pe_last_seen_at := pe_last_seen_at e\<rparr> else c1)"

type_synonym catalog_map = "(property_catalog_key \<times> property_catalog_entry) list"

definition observe_entry :: "property_catalog_entry \<Rightarrow> catalog_map \<Rightarrow> catalog_map" where
  "observe_entry e m =
     (case map_of m (key_from_entry e) of
        None \<Rightarrow> AList.update (key_from_entry e) e m
      | Some current \<Rightarrow> AList.update (key_from_entry e) (merge_entry current e) m)"

fun observe_records :: "event_property_record list \<Rightarrow> catalog_map \<Rightarrow> go_error + catalog_map" where
  "observe_records [] m = Inr m"
| "observe_records (r # rs) m =
     (case entry_from_record r of
        Inl e \<Rightarrow> Inl e
      | Inr e \<Rightarrow> observe_records rs (observe_entry e m))"

definition sorted_entries :: "catalog_map \<Rightarrow> property_catalog_entry list" where
  "sorted_entries m = map (\<lambda>k. the (map_of m k)) (sort (map fst m))"

definition build_catalog_entries :: "event_property_record list \<Rightarrow> go_error + property_catalog_entry list" where
  "build_catalog_entries records =
     (if records = [] then Inr []
      else
        case observe_records records [] of
          Inl e \<Rightarrow> Inl e
        | Inr m \<Rightarrow> Inr (sorted_entries m))"
section \<open>The reference dictionary\<close>

definition key_of_record :: "event_property_record \<Rightarrow> property_catalog_key" where
  "key_of_record r =
     CatalogKey (er_tenant_id r) (er_project_id r) (er_source_id r) (er_scope r) (er_name r) (er_value_type r)"

definition times_of :: "event_property_record list \<Rightarrow> property_catalog_key \<Rightarrow> int set" where
  "times_of rs k = (\<lambda>r. tm_ns (observed_at r)) ` {r \<in> set rs. key_of_record r = k}"

definition utc_at :: "int \<Rightarrow> gotime" where
  "utc_at t = \<lparr>tm_ns = t, tm_zone = ZoneUTC\<rparr>"

definition entry_for :: "event_property_record list \<Rightarrow> property_catalog_key \<Rightarrow> property_catalog_entry" where
  "entry_for rs k =
     \<lparr>pe_tenant_id = ck_tenant_id k, pe_project_id = ck_project_id k, pe_source_id = ck_source_id k,
      pe_scope = ck_scope k, pe_name = ck_name k, pe_value_type = ck_value_type k,
      pe_first_seen_at = utc_at (Min (times_of rs k)), pe_last_seen_at = utc_at (Max (times_of rs k))\<rparr>"

lemma finite_times_of [simp]: "finite (times_of rs k)"
  by (simp add: times_of_def)

lemma times_of_snoc:
  "times_of (rs @ [r]) k = (if key_of_record r = k then insert (tm_ns (observed_at r)) (times_of rs k) else times_of rs k)"
  by (auto simp: times_of_def)

lemma times_of_empty_iff: "times_of rs k = {} \<longleftrightarrow> k \<notin> key_of_record ` set rs"
  by (auto simp: times_of_def)

lemma entry_for_snoc_other: "key_of_record r \<noteq> k \<Longrightarrow> entry_for (rs @ [r]) k = entry_for rs k"
  by (simp add: entry_for_def times_of_snoc)

lemma observed_at_utc: "observed_at r = utc_at (tm_ns (observed_at r))"
  by (simp add: observed_at_def utc_at_def utc_def zero_time_def)

lemma entry_from_record_Inr:
  assumes "entry_from_record r = Inr e"
  shows "key_from_entry e = key_of_record r" and "pe_first_seen_at e = observed_at r" and "pe_last_seen_at e = observed_at r"
    and "validate_catalog_record r = None"
  using assms by (auto simp: entry_from_record_def key_from_entry_def key_of_record_def split: option.splits)

lemma entry_for_single:
  assumes "entry_from_record r = Inr e" and "key_of_record r \<notin> key_of_record ` set rs"
  shows "entry_for (rs @ [r]) (key_of_record r) = e"
proof -
  have "times_of rs (key_of_record r) = {}" using assms(2) by (simp add: times_of_empty_iff)
  then show ?thesis
    using assms(1) observed_at_utc [of r]
    by (auto simp: entry_for_def times_of_snoc entry_from_record_def key_of_record_def split: option.splits)
qed

lemma merge_entry_for:
  assumes "entry_from_record r = Inr e" and "key_of_record r \<in> key_of_record ` set rs"
  shows "merge_entry (entry_for rs (key_of_record r)) e = entry_for (rs @ [r]) (key_of_record r)"
proof -
  note e = entry_from_record_Inr [OF assms(1)]
  have ne: "times_of rs (key_of_record r) \<noteq> {}" using assms(2) times_of_empty_iff by blast
  obtain t where o: "observed_at r = utc_at t" using observed_at_utc by blast
  have tns: "tm_ns (observed_at r) = t" by (simp add: o utc_at_def)
  obtain lo hi where b: "Min (times_of rs (key_of_record r)) = lo" "Max (times_of rs (key_of_record r)) = hi" by simp
  have "Min (insert t (times_of rs (key_of_record r))) = min t lo" "Max (insert t (times_of rs (key_of_record r))) = max t hi"
    using ne by (simp_all add: b Min_insert Max_insert del: Min_le_iff)
  then have new: "entry_for (rs @ [r]) (key_of_record r) =
      (entry_for rs (key_of_record r))\<lparr>pe_first_seen_at := utc_at (min t lo), pe_last_seen_at := utc_at (max t hi)\<rparr>"
    by (simp add: entry_for_def times_of_snoc tns)
  have old: "pe_first_seen_at (entry_for rs (key_of_record r)) = utc_at lo" "pe_last_seen_at (entry_for rs (key_of_record r)) = utc_at hi"
    by (simp_all add: entry_for_def b)
  show ?thesis
    unfolding new
    by (simp add: merge_entry_def e o old before_def after_def utc_at_def Let_def min_def max_def)
qed

definition catalog_inv :: "event_property_record list \<Rightarrow> catalog_map \<Rightarrow> bool" where
  "catalog_inv rs m \<longleftrightarrow>
     distinct (map fst m) \<and> set (map fst m) = key_of_record ` set rs \<and>
     (\<forall>k \<in> key_of_record ` set rs. map_of m k = Some (entry_for rs k))"

lemma observe_entry_update:
  assumes inv: "catalog_inv rs m" and e: "entry_from_record r = Inr e"
  shows "observe_entry e m = AList.update (key_of_record r) (entry_for (rs @ [r]) (key_of_record r)) m"
proof (cases "key_of_record r \<in> key_of_record ` set rs")
  case True
  with inv have "map_of m (key_of_record r) = Some (entry_for rs (key_of_record r))"
    unfolding catalog_inv_def by blast
  then show ?thesis
    by (simp add: observe_entry_def entry_from_record_Inr [OF e] merge_entry_for [OF e True])
next
  case False
  with inv have "map_of m (key_of_record r) = None"
    by (simp add: catalog_inv_def map_of_eq_None_iff)
  then show ?thesis
    by (simp add: observe_entry_def entry_from_record_Inr [OF e] entry_for_single [OF e False])
qed

lemma catalog_inv_observe:
  assumes inv: "catalog_inv rs m" and e: "entry_from_record r = Inr e"
  shows "catalog_inv (rs @ [r]) (observe_entry e m)"
proof -
  have "map_of m k = Some (entry_for (rs @ [r]) k)"
    if "k \<in> key_of_record ` set (rs @ [r])" "k \<noteq> key_of_record r" for k
    using that inv entry_for_snoc_other [of r k rs] unfolding catalog_inv_def by auto
  then have "\<forall>k \<in> key_of_record ` set (rs @ [r]). map_of (observe_entry e m) k = Some (entry_for (rs @ [r]) k)"
    unfolding observe_entry_update [OF assms] by (simp add: update_conv')
  moreover have "set (map fst (observe_entry e m)) = key_of_record ` set (rs @ [r])"
    using inv by (simp add: observe_entry_update [OF assms] catalog_inv_def dom_update)
  moreover have "distinct (map fst (observe_entry e m))"
    using inv unfolding observe_entry_update [OF assms] catalog_inv_def by (blast intro: distinct_update)
  ultimately show ?thesis by (simp only: catalog_inv_def)
qed

text \<open>The first row that the dictionary cannot take.\<close>

definition first_invalid :: "event_property_record list \<Rightarrow> go_error option" where
  "first_invalid rs = map_option (\<lambda>r. the (validate_catalog_record r)) (find (\<lambda>r. validate_catalog_record r \<noteq> None) rs)"

lemma observe_records_spec:
  assumes "catalog_inv done m"
  shows "case first_invalid rs of
      Some e \<Rightarrow> observe_records rs m = Inl e
    | None \<Rightarrow> (\<exists>m'. observe_records rs m = Inr m' \<and> catalog_inv (done @ rs) m')"
  using assms
proof (induction rs arbitrary: "done" m)
  case Nil
  then show ?case by (simp add: first_invalid_def)
next
  case (Cons r rs)
  show ?case
  proof (cases "validate_catalog_record r")
    case None
    then obtain e where e: "entry_from_record r = Inr e" by (simp add: entry_from_record_def)
    have "first_invalid (r # rs) = first_invalid rs" using None by (simp add: first_invalid_def)
    with Cons.IH [OF catalog_inv_observe [OF Cons.prems e]] e show ?thesis
      by (simp split: option.splits)
  next
    case (Some x)
    then show ?thesis by (simp add: first_invalid_def entry_from_record_def)
  qed
qed

definition catalog_of :: "event_property_record list \<Rightarrow> property_catalog_entry list" where
  "catalog_of rs = map (entry_for rs) (sorted_list_of_set (key_of_record ` set rs))"

lemma sorted_entries_spec:
  assumes "catalog_inv rs m"
  shows "sorted_entries m = catalog_of rs"
proof -
  have "distinct (map fst m)" "set (map fst m) = key_of_record ` set rs" using assms by (simp_all add: catalog_inv_def)
  then have "sort (map fst m) = sorted_list_of_set (key_of_record ` set rs)"
    by (metis distinct_remdups_id sorted_list_of_set_sort_remdups)
  then show ?thesis
    using assms unfolding sorted_entries_def catalog_of_def catalog_inv_def by auto
qed

lemma build_catalog_entries_spec:
  "build_catalog_entries rs = (case first_invalid rs of Some e \<Rightarrow> Inl e | None \<Rightarrow> Inr (catalog_of rs))"
proof -
  have "catalog_inv [] []" by (simp add: catalog_inv_def)
  from observe_records_spec [OF this, of rs] show ?thesis
    by (auto simp: build_catalog_entries_def first_invalid_def catalog_of_def sorted_entries_spec split: option.splits)
qed
section \<open>Properties\<close>

text \<open>
  C28. The dictionary of a batch is exactly its reference: the error of the first row that lacks a
  part of its key or a time, otherwise one entry per distinct selector (tenant, project, source,
  scope, name, type) in ascending order of \<open>Less\<close>, whose window runs from the earliest to the latest
  observation of that selector in the batch.
\<close>

theorem catalog_matches_reference:
  "build_catalog_entries rs = (case first_invalid rs of Some e \<Rightarrow> Inl e | None \<Rightarrow> Inr (catalog_of rs)) \<and>
   map key_from_entry (catalog_of rs) = sorted_list_of_set (key_of_record ` set rs)"
  by (simp add: build_catalog_entries_spec catalog_of_def key_from_entry_def entry_for_def comp_def)

lemma catalog_of_cong: "set rs = set rs' \<Longrightarrow> catalog_of rs = catalog_of rs'"
  by (simp add: catalog_of_def entry_for_def times_of_def)

lemma first_invalid_None: "first_invalid rs = None \<longleftrightarrow> (\<forall>r \<in> set rs. validate_catalog_record r = None)"
  by (auto simp: first_invalid_def find_None_iff)

text \<open>
  Replays and reordering do not change the dictionary: batches with the same rows, in any order and
  with any repetition, build the same entries, in strictly ascending key order.
\<close>

theorem catalog_replay_safe:
  assumes "set rs = set rs'" and "build_catalog_entries rs = Inr es"
  shows "build_catalog_entries rs' = Inr es \<and> sorted_wrt (<) (map key_from_entry es)"
proof -
  from assms(2) have f: "first_invalid rs = None" and es: "es = catalog_of rs"
    by (auto simp: build_catalog_entries_spec split: option.splits)
  from f assms(1) have "first_invalid rs' = None" by (simp add: first_invalid_None)
  moreover have "map key_from_entry es = sorted_list_of_set (key_of_record ` set rs)"
    by (simp add: es catalog_of_def key_from_entry_def entry_for_def comp_def)
  ultimately show ?thesis
    using catalog_of_cong [OF assms(1)] by (simp add: build_catalog_entries_spec es)
qed

lemma row_types:
  assumes "flattenable pf v"
  shows "er_value_type (row_of pf base scope name v)
    \<in> {property_value_null, property_value_string, property_value_number, property_value_bool}"
proof -
  have "row_of pf base scope name v = projr (typed_record pf scope name (base\<lparr>er_scope := scope, er_name := name\<rparr>) v)"
    using new_property_record_cases [of pf base scope name v] assms by (simp add: row_of_def)
  with assms show ?thesis by (cases v) auto
qed
lemma row_of_fields:
  assumes "flattenable pf v"
  shows "er_tenant_id (row_of pf base scope name v) = er_tenant_id base"
    "er_project_id (row_of pf base scope name v) = er_project_id base"
    "er_source_id (row_of pf base scope name v) = er_source_id base"
    "er_event_time (row_of pf base scope name v) = er_event_time base"
    "er_scope (row_of pf base scope name v) = scope" "er_name (row_of pf base scope name v) = name"
proof -
  have "row_of pf base scope name v = projr (typed_record pf scope name (base\<lparr>er_scope := scope, er_name := name\<rparr>) v)"
    using new_property_record_cases [of pf base scope name v] assms by (simp add: row_of_def)
  with assms show "er_tenant_id (row_of pf base scope name v) = er_tenant_id base"
    "er_project_id (row_of pf base scope name v) = er_project_id base"
    "er_source_id (row_of pf base scope name v) = er_source_id base"
    "er_event_time (row_of pf base scope name v) = er_event_time base"
    "er_scope (row_of pf base scope name v) = scope" "er_name (row_of pf base scope name v) = name"
    by (cases v; auto simp: set_number_property_def)+
qed

text \<open>What every row of a well-formed envelope carries.\<close>

definition row_from :: "event_envelope \<Rightarrow> string \<Rightarrow> string list \<Rightarrow> event_property_record \<Rightarrow> bool" where
  "row_from e scope names r \<longleftrightarrow>
     er_tenant_id r = env_tenant_id e \<and> er_project_id r = env_project_id e \<and> er_source_id r = env_source_id e \<and>
     tm_ns (er_event_time r) = tm_ns (env_event_time e) \<and> er_scope r = scope \<and> er_name r \<in> set names \<and>
     er_value_type r \<in> {property_value_null, property_value_string, property_value_number, property_value_bool}"

lemma rows_of_from:
  assumes "wf_map m" and "flattenable_map pf m" and "r \<in> set (rows_of pf e scope m)"
  shows "row_from e scope (map fst (entries m)) r"
proof -
  from assms(3) obtain k where k: "k \<in> set (map fst (entries m))"
    and r: "r = row_of pf (property_base e) scope k (value_at m k)"
    by (auto simp: rows_of_def)
  from assms(1,2) k have f: "flattenable pf (value_at m k)" using flattenable_values by blast
  show ?thesis
    using k row_types [OF f, of "property_base e" scope k] row_of_fields [OF f, of "property_base e" scope k]
    by (simp add: row_from_def r property_base_def)
qed

lemma rows_of_distinct:
  assumes "wf_map m" and "flattenable_map pf m"
  shows "distinct (map key_of_record (rows_of pf e scope m))"
proof -
  have "map er_name (rows_of pf e scope m) = sort (map fst (entries m))"
    unfolding rows_of_def map_map comp_def
  proof (rule map_idI)
    fix k
    assume "k \<in> set (sort (map fst (entries m)))"
    then have "flattenable pf (value_at m k)" using assms flattenable_values [OF assms(1)] by auto
    then show "er_name (row_of pf (property_base e) scope k (value_at m k)) = k" by (rule row_of_fields)
  qed
  then have "distinct (map er_name (rows_of pf e scope m))" using assms(1) by (simp add: wf_map_def)
  moreover have "map er_name (rows_of pf e scope m) = map ck_name (map key_of_record (rows_of pf e scope m))"
    by (simp add: key_of_record_def comp_def)
  ultimately show ?thesis by (metis distinct_map)
qed
lemma build_catalog_entries_ok:
  assumes "\<forall>r \<in> set rs. validate_catalog_record r = None"
  shows "build_catalog_entries rs = Inr (catalog_of rs)"
proof -
  have "first_invalid rs = None" using assms by (simp only: first_invalid_None)
  then show ?thesis by (simp add: build_catalog_entries_spec)
qed

lemma rows_catalog:
  assumes "\<forall>r \<in> set rs. \<exists>scope \<in> {property_scope_event, property_scope_user}. \<exists>names. row_from e scope names r \<and> [] \<notin> set names"
    and "wf_envelope pf e"
  shows "build_catalog_entries rs = Inr (catalog_of rs) \<and> (\<forall>x \<in> set (catalog_of rs). validate_catalog_entry x = None)"
proof -
  let ?t = "tm_ns (env_event_time e)"
  have ids: "env_tenant_id e \<noteq> []" "env_project_id e \<noteq> []" "env_source_id e \<noteq> []" "?t \<noteq> 0"
    using assms(2) by (auto simp: wf_envelope_def is_identifier_def)
  have row: "er_tenant_id r \<noteq> []" "er_project_id r \<noteq> []" "er_source_id r \<noteq> []" "er_name r \<noteq> []"
    "er_scope r \<in> {property_scope_event, property_scope_user}"
    "er_value_type r \<in> {property_value_null, property_value_string, property_value_number, property_value_bool}"
    "tm_ns (observed_at r) = ?t" if r: "r \<in> set rs" for r
    using bspec [OF assms(1) r] ids by (auto simp: row_from_def observed_at_def is_zero_time_def)
  have "validate_catalog_record r = None" if "r \<in> set rs" for r
    using row [OF that] ids by (auto simp: validate_catalog_record_def is_zero_time_def property_constants)
  then have b: "build_catalog_entries rs = Inr (catalog_of rs)"
    by (simp add: build_catalog_entries_ok)
  have "validate_catalog_entry (entry_for rs (key_of_record r)) = None" if r: "r \<in> set rs" for r
  proof -
    have "times_of rs (key_of_record r) = {?t}"
      using r row(7) by (auto simp: times_of_def)
    then show ?thesis
      using row [OF r] ids
      by (auto simp: validate_catalog_entry_def entry_for_def key_of_record_def validate_property_scope_def
          validate_property_value_type_def is_zero_time_def utc_at_def property_constants)
  qed
  with b show ?thesis by (auto simp: catalog_of_def)
qed

lemma length_catalog_of: "distinct (map key_of_record rs) \<Longrightarrow> length (catalog_of rs) = length rs"
  by (simp add: catalog_of_def distinct_card flip: set_map)

text \<open>
  Collect, flattening and the dictionary fit together: the rows flattened from a well-formed
  envelope are all accepted by the dictionary, every entry passes the catalog validator, and there
  are as many entries as property names over both scopes.
\<close>

theorem accepted_events_catalog:
  assumes "wf_envelope pf e" and "wf_map (env_properties e)" and "wf_map (env_user_props e)"
    and "flatten_event_properties pf e = Inr rows"
  shows "\<exists>es. build_catalog_entries rows = Inr es \<and> length es = length rows \<and>
    list_all (\<lambda>x. validate_catalog_entry x = None) es"
proof -
  let ?evs = "rows_of pf e property_scope_event (env_properties e)"
  let ?uss = "rows_of pf e property_scope_user (env_user_props e)"
  have fl: "flattenable_map pf (env_properties e)" "flattenable_map pf (env_user_props e)" and rows: "rows = ?evs @ ?uss"
    using assms(4) by (simp_all add: flatten_event_properties_Inr [OF assms(2,3)])
  have names: "[] \<notin> set (map fst (entries (env_properties e)))" "[] \<notin> set (map fst (entries (env_user_props e)))"
    using assms(1) by (auto simp: wf_envelope_def valid_props_def is_identifier_def)
  note fr = rows_of_from [OF assms(2) fl(1)] rows_of_from [OF assms(3) fl(2)]
  have "\<forall>r \<in> set rows. \<exists>scope \<in> {property_scope_event, property_scope_user}. \<exists>names. row_from e scope names r \<and> [] \<notin> set names"
    using fr names unfolding rows by fastforce
  note c = rows_catalog [OF this assms(1)]
  have "er_scope r = property_scope_event" if "r \<in> set ?evs" for r using fr(1) [OF that] by (simp add: row_from_def)
  moreover have "er_scope r = property_scope_user" if "r \<in> set ?uss" for r using fr(2) [OF that] by (simp add: row_from_def)
  ultimately have "key_of_record ` set ?evs \<inter> key_of_record ` set ?uss = {}"
    by (auto simp: key_of_record_def property_constants)
  then have "distinct (map key_of_record rows)"
    using rows_of_distinct [OF assms(2) fl(1)] rows_of_distinct [OF assms(3) fl(2)] by (simp add: rows)
  with c show ?thesis by (auto simp: list_all_iff length_catalog_of)
qed

lemma sample_flatten:
  "flatten_event_properties pf (envelope_of (trim_request sample_request) sample_time)
     = Inr (rows_of pf (envelope_of (trim_request sample_request) sample_time) property_scope_event
              (Some [(''page.path'', VString ''/docs''), (''paid'', VBool True)]))"
proof -
  let ?e = "envelope_of (trim_request sample_request) sample_time"
  have p: "env_properties ?e = Some [(''page.path'', VString ''/docs''), (''paid'', VBool True)]" "env_user_props ?e = None"
    by (simp_all add: envelope_of_def trim_request_def sample_request_def clone_map_def)
  then show ?thesis
    using flatten_event_properties_Inr [of ?e pf] by (simp add: wf_map_def flattenable_map_def rows_of_def)
qed

theorem accepted_events_catalog_witness:
  "\<exists>es. build_catalog_entries (rows_of (\<lambda>_. None) (envelope_of (trim_request sample_request) sample_time) property_scope_event
              (Some [(''page.path'', VString ''/docs''), (''paid'', VBool True)])) = Inr es \<and>
    length es = length (rows_of (\<lambda>_. None) (envelope_of (trim_request sample_request) sample_time) property_scope_event
              (Some [(''page.path'', VString ''/docs''), (''paid'', VBool True)])) \<and>
    list_all (\<lambda>x. validate_catalog_entry x = None) es"
proof (rule accepted_events_catalog [OF _ _ _ sample_flatten])
  show "wf_envelope (\<lambda>_. None) (envelope_of (trim_request sample_request) sample_time)"
    using sample_admissible by (rule wf_envelope_of)
qed (simp_all add: wf_map_def envelope_of_def trim_request_def sample_request_def clone_map_def)

definition sample_rows :: "event_property_record list" where
  "sample_rows =
     [(property_base empty_envelope)\<lparr>er_tenant_id := ''t'', er_project_id := ''p'', er_source_id := ''s'',
        er_scope := property_scope_event, er_name := ''b'', er_value_type := property_value_null, er_event_time := utc_at 5\<rparr>,
      (property_base empty_envelope)\<lparr>er_tenant_id := ''t'', er_project_id := ''p'', er_source_id := ''s'',
        er_scope := property_scope_event, er_name := ''a'', er_value_type := property_value_null, er_event_time := utc_at 7\<rparr>]"

theorem catalog_replay_safe_witness:
  "build_catalog_entries (rev sample_rows @ sample_rows) = Inr (catalog_of sample_rows) \<and>
   sorted_wrt (<) (map key_from_entry (catalog_of sample_rows))"
proof (rule catalog_replay_safe)
  show "build_catalog_entries sample_rows = Inr (catalog_of sample_rows)"
    by (rule build_catalog_entries_ok)
       (simp add: sample_rows_def validate_catalog_record_def observed_at_def is_zero_time_def utc_at_def property_constants)
qed auto

end
