(* ===== verification/Storage_Writers.thy ===== *)
theory Storage_Writers
  imports Storage_Catalog
begin

text \<open>
  Package \<open>storage\<close>: the interfaces \<open>EventWriter\<close>, \<open>EventWriteGuard\<close>, \<open>EventPropertyWriter\<close>,
  \<open>PropertyWriteGuard\<close> and \<open>PropertyCatalogWriter\<close> (\<open>event_writer.go\<close>, \<open>property.go\<close>,
  \<open>property_catalog.go\<close>), and the two decorators of \<open>property_indexing_writer.go\<close> and
  \<open>property_cataloging_writer.go\<close>.

  An operation of an interface is a function on a world \<open>'w\<close> that returns its result and the next
  world; a \<open>WriteResult\<close> is the value of \<open>Inserted\<close>, and a result with an error is the error alone
  (the code returns the zero result with every error). Nil receivers and nil dependencies are
  \<^const>\<open>None\<close>.

  The locale \<open>event_writer\<close> is the contract between ingestion and storage: an event that is reported
  as written or as a duplicate is durable, durable events stay durable, and an event is reported as
  newly inserted at most once. The lemmas show that both decorators keep the contract.
\<close>

section \<open>Interfaces\<close>

text \<open>The identity of an event: its routing keys and its id, never a queue position.\<close>

datatype status_key =
  StatusKey (ek_tenant_id: string) (ek_project_id: string) (ek_source_id: string) (ek_event_id: string)

definition status_key_of :: "event_envelope \<Rightarrow> status_key" where
  "status_key_of e = StatusKey (env_tenant_id e) (env_project_id e) (env_source_id e) (env_id e)"

type_synonym 'w event_writer_fn = "event_envelope \<Rightarrow> 'w \<Rightarrow> (go_error + bool) \<times> 'w"
type_synonym 'w property_writer_fn = "event_property_record list \<Rightarrow> 'w \<Rightarrow> (go_error + nat) \<times> 'w"
type_synonym 'w catalog_writer_fn = "property_catalog_entry list \<Rightarrow> 'w \<Rightarrow> (go_error + nat) \<times> 'w"

record ('c, 'w) write_guard =
  wg_start :: "event_envelope \<Rightarrow> 'w \<Rightarrow> (go_error + 'c option) \<times> 'w"
  wg_already :: "'c \<Rightarrow> bool"
  wg_commit :: "'c \<Rightarrow> 'w \<Rightarrow> go_error option \<times> 'w"
  wg_rollback :: "'c \<Rightarrow> go_error \<Rightarrow> 'w \<Rightarrow> go_error option \<times> 'w"

text \<open>A failed write: roll the claim back and report both errors.\<close>

definition rollback_write :: "('c, 'w) write_guard \<Rightarrow> 'c \<Rightarrow> go_error \<Rightarrow> 'w \<Rightarrow> go_error \<times> 'w" where
  "rollback_write g claim cause w =
     (case wg_rollback g claim cause w of
        (Some e, w1) \<Rightarrow> (ErrJoin cause e, w1)
      | (None, w1) \<Rightarrow> (cause, w1))"

section \<open>The property indexing decorator\<close>

record ('c, 'w) indexing_writer =
  iw_events :: "'w event_writer_fn"
  iw_properties :: "'w property_writer_fn"
  iw_guard :: "('c, 'w) write_guard"

definition new_indexing_writer ::
  "'w event_writer_fn option \<Rightarrow> 'w property_writer_fn option \<Rightarrow> ('c, 'w) write_guard option \<Rightarrow>
   go_error + ('c, 'w) indexing_writer" where
  "new_indexing_writer events properties guard =
     (case events of
        None \<Rightarrow> Inl (ErrText ''event writer is required'')
      | Some ev \<Rightarrow>
          (case properties of
             None \<Rightarrow> Inl (ErrText ''event property writer is required'')
           | Some ps \<Rightarrow>
               (case guard of
                  None \<Rightarrow> Inl (ErrText ''property write guard is required'')
                | Some g \<Rightarrow> Inr \<lparr>iw_events = ev, iw_properties = ps, iw_guard = g\<rparr>)))"

text \<open>The tail of \<open>WriteEvent\<close>, from the property claim on.\<close>

definition index_properties ::
  "('c, 'w) indexing_writer \<Rightarrow> event_envelope \<Rightarrow> event_property_record list \<Rightarrow> bool \<Rightarrow> 'w \<Rightarrow>
   (go_error + bool) \<times> 'w" where
  "index_properties iw e records result w =
     (case wg_start (iw_guard iw) e w of
        (Inl err, w1) \<Rightarrow> (Inl err, w1)
      | (Inr None, w1) \<Rightarrow> (Inl (ErrText ''property write guard returned nil claim''), w1)
      | (Inr (Some claim), w1) \<Rightarrow>
          if wg_already (iw_guard iw) claim then (Inr result, w1)
          else
            (case iw_properties iw records w1 of
               (Inl err, w2) \<Rightarrow>
                 apfst Inl (rollback_write (iw_guard iw) claim (ErrWrap ''write event properties: '' err) w2)
             | (Inr n, w2) \<Rightarrow>
                 (case wg_commit (iw_guard iw) claim w2 of
                    (Some err, w3) \<Rightarrow> (Inl err, w3)
                  | (None, w3) \<Rightarrow> (Inr result, w3))))"

definition indexing_write ::
  "(string \<Rightarrow> go_float option) \<Rightarrow> ('c, 'w) indexing_writer option \<Rightarrow> 'w event_writer_fn" where
  "indexing_write pf iwo e w =
     (case iwo of
        None \<Rightarrow> (Inl (ErrText ''property indexing event writer is required''), w)
      | Some iw \<Rightarrow>
          (case flatten_event_properties pf e of
             Inl err \<Rightarrow> (Inl err, w)
           | Inr records \<Rightarrow>
               (case iw_events iw e w of
                  (Inl err, w1) \<Rightarrow> (Inl err, w1)
                | (Inr result, w1) \<Rightarrow>
                    if records = [] then (Inr result, w1)
                    else index_properties iw e records result w1)))"

section \<open>The property cataloging decorator\<close>

record 'w cataloging_writer =
  cw_events :: "'w event_writer_fn"
  cw_catalog :: "'w catalog_writer_fn"

definition new_cataloging_writer ::
  "'w event_writer_fn option \<Rightarrow> 'w catalog_writer_fn option \<Rightarrow> go_error + 'w cataloging_writer" where
  "new_cataloging_writer events catalog =
     (case events of
        None \<Rightarrow> Inl (ErrText ''event writer is required'')
      | Some ev \<Rightarrow>
          (case catalog of
             None \<Rightarrow> Inl (ErrText ''property catalog is required'')
           | Some ct \<Rightarrow> Inr \<lparr>cw_events = ev, cw_catalog = ct\<rparr>))"

definition cataloging_write ::
  "(string \<Rightarrow> go_float option) \<Rightarrow> 'w cataloging_writer option \<Rightarrow> 'w event_writer_fn" where
  "cataloging_write pf cwo e w =
     (case cwo of
        None \<Rightarrow> (Inl (ErrText ''property cataloging event writer is required''), w)
      | Some cw \<Rightarrow>
          (case flatten_event_properties pf e of
             Inl err \<Rightarrow> (Inl err, w)
           | Inr records \<Rightarrow>
               (case build_catalog_entries records of
                  Inl err \<Rightarrow> (Inl err, w)
                | Inr es \<Rightarrow>
                    (case cw_events cw e w of
                       (Inl err, w1) \<Rightarrow> (Inl err, w1)
                     | (Inr result, w1) \<Rightarrow>
                         if es = [] then (Inr result, w1)
                         else
                           (case cw_catalog cw es w1 of
                              (Inl err, w2) \<Rightarrow> (Inl (ErrWrap ''upsert property catalog: '' err), w2)
                            | (Inr n, w2) \<Rightarrow> (Inr result, w2))))))"

section \<open>The contract of an event writer\<close>

text \<open>Deliveries of events to a writer, one after the other, with the result of each.\<close>

fun write_all :: "'w event_writer_fn \<Rightarrow> event_envelope list \<Rightarrow> 'w \<Rightarrow> (event_envelope \<times> (go_error + bool)) list \<times> 'w" where
  "write_all store [] w = ([], w)"
| "write_all store (e # es) w =
     (case store e w of (r, w1) \<Rightarrow> apfst ((#) (e, r)) (write_all store es w1))"

definition insertions :: "status_key \<Rightarrow> (event_envelope \<times> (go_error + bool)) list \<Rightarrow> nat" where
  "insertions k rs = length (filter (\<lambda>(e, r). status_key_of e = k \<and> r = Inr True) rs)"

locale event_writer =
  fixes store :: "'w event_writer_fn"
    and durable :: "'w \<Rightarrow> status_key \<Rightarrow> bool"
  assumes write_new: "store e w = (Inr True, w') \<Longrightarrow> \<not> durable w (status_key_of e) \<and> durable w' (status_key_of e)"
    and write_duplicate: "store e w = (Inr False, w') \<Longrightarrow> durable w (status_key_of e)"
    and write_keeps: "store e w = (r, w') \<Longrightarrow> durable w k \<Longrightarrow> durable w' k"
begin

lemma acknowledged_durable:
  assumes "store e w = (Inr b, w')"
  shows "durable w' (status_key_of e)"
proof (cases b)
  case True
  with assms write_new [of e w w'] show ?thesis by simp
next
  case False
  with assms have "durable w (status_key_of e)" by (simp add: write_duplicate)
  then show ?thesis by (rule write_keeps [OF assms])
qed

lemma all_keeps: "durable w k \<Longrightarrow> durable (snd (write_all store es w)) k"
proof (induction es arbitrary: w)
  case (Cons e es)
  obtain r w1 where s: "store e w = (r, w1)" by fastforce
  from Cons.IH [OF write_keeps [OF s Cons.prems]] s show ?case by (auto split: prod.splits)
qed simp

lemma durable_no_insertion: "durable w k \<Longrightarrow> insertions k (fst (write_all store es w)) = 0"
proof (induction es arbitrary: w)
  case Nil
  then show ?case by (simp add: insertions_def)
next
  case (Cons e es)
  obtain r w1 where s: "store e w = (r, w1)" by fastforce
  have "\<not> (status_key_of e = k \<and> r = Inr True)" using s Cons.prems write_new [of e w w1] by auto
  with Cons.IH [OF write_keeps [OF s Cons.prems]] s show ?case by (auto simp: insertions_def)
qed

lemma writes_insert_once: "insertions k (fst (write_all store es w)) \<le> 1"
proof (induction es arbitrary: w)
  case Nil
  then show ?case by (simp add: insertions_def)
next
  case (Cons e es)
  obtain r w1 where s: "store e w = (r, w1)" by fastforce
  show ?case
  proof (cases "status_key_of e = k \<and> r = Inr True")
    case True
    then have "durable w1 k" using s write_new [of e w w1] by auto
    from durable_no_insertion [OF this, of es] True s show ?thesis by (auto simp: insertions_def)
  next
    case False
    with Cons.IH [of w1] s show ?thesis by (auto simp: insertions_def)
  qed
qed

lemma acknowledged_stay_durable:
  assumes "(e, Inr b) \<in> set (fst (write_all store es w))"
  shows "durable (snd (write_all store es w)) (status_key_of e)"
  using assms
proof (induction es arbitrary: w)
  case (Cons e1 es)
  obtain r w1 where s: "store e1 w = (r, w1)" by fastforce
  from Cons.prems s consider "e = e1" "r = Inr b" | "(e, Inr b) \<in> set (fst (write_all store es w1))"
    by auto
  then show ?case
  proof cases
    case 1
    then have "durable w1 (status_key_of e)" using s acknowledged_durable by simp
    from all_keeps [OF this, of es] s show ?thesis by (auto split: prod.splits)
  next
    case 2
    from Cons.IH [OF this] s show ?thesis by (auto split: prod.splits)
  qed
qed simp

end

text \<open>A catalog writer or a property pipeline next to the writer leaves the events alone.\<close>

locale cataloged_writer = event_writer +
  fixes upsert :: "'w catalog_writer_fn"
    and pf :: "string \<Rightarrow> go_float option"
  assumes upsert_frame: "upsert cat w = (n, w') \<Longrightarrow> durable w' k \<longleftrightarrow> durable w k"

lemma cataloging_outcome:
  assumes "cataloging_write pf (Some \<lparr>cw_events = store, cw_catalog = upsert\<rparr>) e w = (r, w')"
  obtains "w' = w" "\<exists>err. r = Inl err"
    | x w1 where "store e w = (x, w1)" "w' = w1" "r = x"
    | x w1 cat n where "store e w = (Inr x, w1)" "upsert cat w1 = (n, w')" "r = Inr x \<or> (\<exists>err. r = Inl err)"
  using assms
  by (auto simp: cataloging_write_def split: sum.splits prod.splits if_splits)

context cataloged_writer
begin

lemma cataloging_keeps:
  assumes "cataloging_write pf (Some \<lparr>cw_events = store, cw_catalog = upsert\<rparr>) e w = (r, w')" and "durable w k"
  shows "durable w' k"
  using assms(1)
proof (cases rule: cataloging_outcome)
  case 1
  with assms(2) show ?thesis by simp
next
  case (2 x w1)
  with assms(2) show ?thesis by (auto intro: write_keeps)
next
  case (3 x w1 cat n)
  with assms(2) show ?thesis using write_keeps [of e w "Inr x" w1 k] upsert_frame [of cat w1 n w' k] by simp
qed

lemma cataloging_result:
  assumes "cataloging_write pf (Some \<lparr>cw_events = store, cw_catalog = upsert\<rparr>) e w = (Inr b, w')"
  obtains w1 where "store e w = (Inr b, w1)" "\<And>k. durable w' k \<longleftrightarrow> durable w1 k"
  using assms
proof (cases rule: cataloging_outcome)
  case 1
  then show ?thesis by simp
next
  case (2 x w1)
  with that show ?thesis by simp
next
  case (3 x w1 cat n)
  with that [of w1] upsert_frame [of cat w1 n w'] show ?thesis by auto
qed

end

sublocale cataloged_writer \<subseteq> cataloging: event_writer "cataloging_write pf (Some \<lparr>cw_events = store, cw_catalog = upsert\<rparr>)" durable
proof (rule event_writer.intro)
  fix e w w'
  assume "cataloging_write pf (Some \<lparr>cw_events = store, cw_catalog = upsert\<rparr>) e w = (Inr True, w')"
  then show "\<not> durable w (status_key_of e) \<and> durable w' (status_key_of e)"
    by (elim cataloging_result) (simp add: write_new)
next
  fix e w w'
  assume "cataloging_write pf (Some \<lparr>cw_events = store, cw_catalog = upsert\<rparr>) e w = (Inr False, w')"
  then show "durable w (status_key_of e)" by (elim cataloging_result) (simp add: write_duplicate)
qed (rule cataloging_keeps)
text \<open>The property guard and the property batches leave the event checkpoints alone.\<close>

locale indexed_writer = event_writer +
  fixes guard :: "('c, 'w) write_guard"
    and properties :: "'w property_writer_fn"
    and pf :: "string \<Rightarrow> go_float option"
  assumes start_frame: "wg_start guard e w = (x, w') \<Longrightarrow> durable w' k \<longleftrightarrow> durable w k"
    and commit_frame: "wg_commit guard c w = (err, w') \<Longrightarrow> durable w' k \<longleftrightarrow> durable w k"
    and rollback_frame: "wg_rollback guard c cause w = (err, w') \<Longrightarrow> durable w' k \<longleftrightarrow> durable w k"
    and properties_frame: "properties rows w = (n, w') \<Longrightarrow> durable w' k \<longleftrightarrow> durable w k"
begin

lemma rollback_write_frame: "rollback_write guard c cause w = (err, w') \<Longrightarrow> durable w' k \<longleftrightarrow> durable w k"
  by (auto simp: rollback_write_def split: prod.splits option.splits dest: rollback_frame)

lemma index_properties_frame:
  assumes "index_properties \<lparr>iw_events = store, iw_properties = properties, iw_guard = guard\<rparr> e rows b w = (r, w')"
  shows "(durable w' k \<longleftrightarrow> durable w k) \<and> (r = Inr b \<or> (\<exists>err. r = Inl err))"
proof -
  obtain x w1 where s: "wg_start guard e w = (x, w1)" by fastforce
  note f1 = start_frame [OF s, of k]
  show ?thesis
  proof (cases "\<exists>c. x = Inr (Some c) \<and> \<not> wg_already guard c")
    case False
    with assms s f1 show ?thesis
      by (auto simp: index_properties_def split: sum.splits option.splits)
  next
    case True
    then obtain c where x: "x = Inr (Some c)" and c: "\<not> wg_already guard c" by blast
    obtain y w2 where p: "properties rows w1 = (y, w2)" by fastforce
    note f2 = properties_frame [OF p, of k]
    show ?thesis
    proof (cases y)
      case (Inl err)
      obtain z w3 where "rollback_write guard c (ErrWrap ''write event properties: '' err) w2 = (z, w3)" by fastforce
      with assms s x c p Inl f1 f2 rollback_write_frame [OF this, of k] show ?thesis
        by (auto simp: index_properties_def)
    next
      case (Inr n)
      obtain z w3 where "wg_commit guard c w2 = (z, w3)" by fastforce
      with assms s x c p Inr f1 f2 commit_frame [OF this, of k] show ?thesis
        by (auto simp: index_properties_def split: option.splits)
    qed
  qed
qed

lemma indexing_step:
  assumes "indexing_write pf (Some \<lparr>iw_events = store, iw_properties = properties, iw_guard = guard\<rparr>) e w = (r, w')"
  shows "(w' = w \<and> (\<exists>err. r = Inl err)) \<or>
    (\<exists>x w1. store e w = (x, w1) \<and> (\<forall>k. durable w' k \<longleftrightarrow> durable w1 k) \<and> (r = x \<or> (\<exists>err. r = Inl err)))"
proof (cases "flatten_event_properties pf e")
  case (Inl err)
  with assms show ?thesis by (auto simp: indexing_write_def)
next
  case (Inr rows)
  obtain x w1 where s: "store e w = (x, w1)" by fastforce
  show ?thesis
  proof (cases "\<exists>b. x = Inr b \<and> rows \<noteq> []")
    case False
    with assms Inr s show ?thesis by (auto simp: indexing_write_def split: sum.splits)
  next
    case True
    then obtain b where b: "x = Inr b" "rows \<noteq> []" by blast
    with assms Inr s
    have "index_properties \<lparr>iw_events = store, iw_properties = properties, iw_guard = guard\<rparr> e rows b w1 = (r, w')"
      by (simp add: indexing_write_def)
    from index_properties_frame [OF this] s b(1) show ?thesis by blast
  qed
qed

end

sublocale indexed_writer \<subseteq> indexing: event_writer
  "indexing_write pf (Some \<lparr>iw_events = store, iw_properties = properties, iw_guard = guard\<rparr>)" durable
proof (rule event_writer.intro)
  fix e w w'
  assume "indexing_write pf (Some \<lparr>iw_events = store, iw_properties = properties, iw_guard = guard\<rparr>) e w = (Inr True, w')"
  from indexing_step [OF this] show "\<not> durable w (status_key_of e) \<and> durable w' (status_key_of e)"
    using write_new by auto
next
  fix e w w'
  assume "indexing_write pf (Some \<lparr>iw_events = store, iw_properties = properties, iw_guard = guard\<rparr>) e w = (Inr False, w')"
  from indexing_step [OF this] show "durable w (status_key_of e)"
    using write_duplicate by auto
next
  fix e w r w' k
  assume "indexing_write pf (Some \<lparr>iw_events = store, iw_properties = properties, iw_guard = guard\<rparr>) e w = (r, w')" "durable w k"
  from indexing_step [OF this(1)] this(2) show "durable w' k"
    using write_keeps by metis
qed
context cataloged_writer
begin

lemma cataloging_contract:
  "event_writer (cataloging_write pf (Some \<lparr>cw_events = store, cw_catalog = upsert\<rparr>)) durable"
  by (rule cataloging.event_writer_axioms)

end

context indexed_writer
begin

lemma indexing_contract:
  "event_writer (indexing_write pf (Some \<lparr>iw_events = store, iw_properties = properties, iw_guard = guard\<rparr>)) durable"
  by (rule indexing.event_writer_axioms)

end

section \<open>The decorators do nothing but call their parts\<close>

lemma rollback_write_rel:
  assumes "\<And>c cause w r w'. wg_rollback g c cause w = (r, w') \<Longrightarrow> R w w'"
    and "rollback_write g c cause w = (err, w')"
  shows "R w w'"
  using assms(2) by (auto simp: rollback_write_def split: prod.splits option.splits dest: assms(1))

lemma index_properties_rel:
  assumes trans: "\<And>u v w. R u v \<Longrightarrow> R v w \<Longrightarrow> R u w"
    and start: "\<And>e w x w'. wg_start (iw_guard iw) e w = (x, w') \<Longrightarrow> R w w'"
    and commit: "\<And>c w r w'. wg_commit (iw_guard iw) c w = (r, w') \<Longrightarrow> R w w'"
    and rollback: "\<And>c cause w r w'. wg_rollback (iw_guard iw) c cause w = (r, w') \<Longrightarrow> R w w'"
    and props: "\<And>rs w r w'. iw_properties iw rs w = (r, w') \<Longrightarrow> R w w'"
    and run: "index_properties iw e rs b w = (r, w')"
  shows "R w w'"
proof -
  obtain x w1 where s: "wg_start (iw_guard iw) e w = (x, w1)" by fastforce
  show ?thesis
  proof (cases "\<exists>c. x = Inr (Some c) \<and> \<not> wg_already (iw_guard iw) c")
    case False
    then have "w' = w1" using run s by (auto simp: index_properties_def split: sum.splits option.splits if_splits)
    with start [OF s] show ?thesis by simp
  next
    case True
    then obtain c where c: "x = Inr (Some c)" "\<not> wg_already (iw_guard iw) c" by blast
    obtain y w2 where p: "iw_properties iw rs w1 = (y, w2)" by fastforce
    note w2 = trans [OF start [OF s] props [OF p]]
    show ?thesis
    proof (cases y)
      case (Inl err)
      obtain z w3 where rb: "rollback_write (iw_guard iw) c (ErrWrap ''write event properties: '' err) w2 = (z, w3)" by fastforce
      with run s c p Inl have "w' = w3" by (simp add: index_properties_def)
      with trans [OF w2 rollback_write_rel [where R = R, OF rollback rb]] show ?thesis by simp
    next
      case (Inr n)
      obtain z w3 where cm: "wg_commit (iw_guard iw) c w2 = (z, w3)" by fastforce
      with run s c p Inr have "w' = w3" by (auto simp: index_properties_def split: option.splits)
      with trans [OF w2 commit [OF cm]] show ?thesis by simp
    qed
  qed
qed

lemma indexing_write_rel:
  assumes refl: "\<And>w. R w w" and trans: "\<And>u v w. R u v \<Longrightarrow> R v w \<Longrightarrow> R u w"
    and event: "\<And>e w r w'. iw_events iw e w = (r, w') \<Longrightarrow> R w w'"
    and start: "\<And>e w x w'. wg_start (iw_guard iw) e w = (x, w') \<Longrightarrow> R w w'"
    and commit: "\<And>c w r w'. wg_commit (iw_guard iw) c w = (r, w') \<Longrightarrow> R w w'"
    and rollback: "\<And>c cause w r w'. wg_rollback (iw_guard iw) c cause w = (r, w') \<Longrightarrow> R w w'"
    and props: "\<And>rs w r w'. iw_properties iw rs w = (r, w') \<Longrightarrow> R w w'"
    and run: "indexing_write pf (Some iw) e w = (r, w')"
  shows "R w w'"
proof (cases "flatten_event_properties pf e")
  case (Inl err)
  with run refl show ?thesis by (auto simp: indexing_write_def)
next
  case (Inr rs)
  obtain x w1 where ev: "iw_events iw e w = (x, w1)" by fastforce
  show ?thesis
  proof (cases "\<exists>b. x = Inr b \<and> rs \<noteq> []")
    case False
    with run Inr ev have "w' = w1" by (auto simp: indexing_write_def split: sum.splits)
    with event [OF ev] show ?thesis by simp
  next
    case True
    then obtain b where "x = Inr b" "rs \<noteq> []" by blast
    with run Inr ev have "index_properties iw e rs b w1 = (r, w')" by (simp add: indexing_write_def)
    then have "R w1 w'"
      by (rule index_properties_rel [where R = R and iw = iw, rotated 5]) (blast intro: trans start commit rollback props)+
    then show ?thesis by (rule trans [OF event [OF ev]])
  qed
qed

lemma cataloging_write_rel:
  assumes refl: "\<And>w. R w w" and trans: "\<And>u v w. R u v \<Longrightarrow> R v w \<Longrightarrow> R u w"
    and event: "\<And>e w r w'. store e w = (r, w') \<Longrightarrow> R w w'"
    and catalog: "\<And>es w r w'. upsert es w = (r, w') \<Longrightarrow> R w w'"
    and run: "cataloging_write pf (Some \<lparr>cw_events = store, cw_catalog = upsert\<rparr>) e w = (r, w')"
  shows "R w w'"
  using run
proof (cases rule: cataloging_outcome)
  case 1
  with refl show ?thesis by simp
next
  case (2 x w1)
  with event show ?thesis by blast
next
  case (3 x w1 cat n)
  with event catalog trans show ?thesis by blast
qed

section \<open>The contract of an idempotency guard\<close>

text \<open>
  What a writer may rely on when it owns the checkpoint of an event: a claim says whether the event is
  durable, a commit that returns no error makes it durable, and nothing a claim does touches the
  checkpoint of another event. \<open>held\<close> says that the checkpoint exists.
\<close>

locale write_guard_contract =
  fixes guard :: "('c, 'w) write_guard"
    and durable :: "'w \<Rightarrow> status_key \<Rightarrow> bool"
    and held :: "'w \<Rightarrow> status_key \<Rightarrow> bool"
    and claim_key :: "'c \<Rightarrow> status_key"
  assumes start_claim: "wg_start guard e w = (Inr (Some c), w') \<Longrightarrow>
      claim_key c = status_key_of e \<and> (wg_already guard c \<longleftrightarrow> durable w (status_key_of e)) \<and> held w' (status_key_of e)"
    and start_keeps: "wg_start guard e w = (x, w') \<Longrightarrow> durable w' k \<longleftrightarrow> durable w k"
    and commit_durable: "wg_commit guard c w = (None, w') \<Longrightarrow> \<not> wg_already guard c \<Longrightarrow> held w (claim_key c) \<Longrightarrow>
      durable w' (claim_key c)"
    and commit_keeps: "wg_commit guard c w = (err, w') \<Longrightarrow> durable w k \<Longrightarrow> durable w' k"
    and commit_only: "wg_commit guard c w = (err, w') \<Longrightarrow> durable w' k \<Longrightarrow> durable w k \<or> k = claim_key c"
    and rollback_keeps: "wg_rollback guard c cause w = (err, w') \<Longrightarrow> k \<noteq> claim_key c \<Longrightarrow> durable w' k \<longleftrightarrow> durable w k"
    and rollback_only: "wg_rollback guard c cause w = (err, w') \<Longrightarrow> durable w' k \<Longrightarrow> durable w k"

end
