(* ===== verification/MySQL_Guards.thy ===== *)
theory MySQL_Guards
  imports Storage_Writers
begin

text \<open>
  Package \<open>storage/mysql\<close>, files \<open>ingestion_status_guard.go\<close> and
  \<open>property_indexing_status_guard.go\<close>: the two checkpoint tables that decide whether an event, or the
  property rows of an event, still have to be written.

  GORM and MySQL are the argument \<open>status_db\<close>: the three statements the guards send, as functions on a
  database state. What the code relies on is the locale \<open>status_table\<close>: the documented effect of
  \<open>INSERT ... ON CONFLICT DO NOTHING\<close>, \<open>SELECT ... LIMIT 1\<close> and \<open>UPDATE ... WHERE\<close> on the rows of the
  table, where a statement that reports an error may or may not have been executed.
  \<open>table_db\<close> is a database that meets it with any pattern of failures.

  The lemmas show what each claim decides from the row it finds, that a committed row is final for both
  guards, that the property guard never hands out a claim twice unless the holder rolled back, and that
  the event guard does.
\<close>

section \<open>Status rows\<close>

definition status_processing :: string where "status_processing = ''processing''"
definition status_inserted :: string where "status_inserted = ''inserted''"
definition status_failed :: string where "status_failed = ''failed''"

lemmas status_constants = status_processing_def status_inserted_def status_failed_def

record status_row =
  sr_status :: string
  sr_attempt :: int
  sr_last_error :: string
  sr_received_at :: gotime
  sr_updated_at :: gotime

text \<open>The assignments of an \<open>Updates\<close> call; \<open>attempt\<close> is incremented when \<open>su_bump\<close> is set.\<close>

record status_update =
  su_status :: string
  su_bump :: bool
  su_last_error :: string
  su_updated_at :: gotime

definition apply_update :: "status_update \<Rightarrow> status_row \<Rightarrow> status_row" where
  "apply_update u r =
     r\<lparr>sr_status := su_status u, sr_attempt := (if su_bump u then sr_attempt r + 1 else sr_attempt r),
       sr_last_error := su_last_error u, sr_updated_at := su_updated_at u\<rparr>"

record 'd status_db =
  db_insert :: "status_key \<Rightarrow> status_row \<Rightarrow> 'd \<Rightarrow> (go_error + nat) \<times> 'd"
  db_first :: "status_key \<Rightarrow> 'd \<Rightarrow> (go_error + status_row) \<times> 'd"
  db_update :: "status_key \<Rightarrow> string option \<Rightarrow> status_update \<Rightarrow> 'd \<Rightarrow> (go_error + nat) \<times> 'd"
  db_now :: "'d \<Rightarrow> gotime"

section \<open>Shared helpers\<close>

definition validate_status_envelope :: "event_envelope \<Rightarrow> go_error option" where
  "validate_status_envelope e =
     first_error
       [(trim_space (env_tenant_id e) = [], ''tenant_id is required''),
        (trim_space (env_project_id e) = [], ''project_id is required''),
        (trim_space (env_source_id e) = [], ''source_id is required''),
        (trim_space (env_id e) = [], ''event_id is required'')]"

definition max_status_error_length :: nat where "max_status_error_length = 2048"

definition truncate_status_error :: "go_error option \<Rightarrow> string" where
  "truncate_status_error cause =
     (case cause of
        None \<Rightarrow> []
      | Some e \<Rightarrow>
          if length (error_text e) \<le> max_status_error_length then error_text e
          else take max_status_error_length (error_text e))"

definition new_row :: "event_envelope \<Rightarrow> status_row" where
  "new_row e =
     \<lparr>sr_status = status_processing, sr_attempt = 1, sr_last_error = [],
      sr_received_at = utc (env_received_at e), sr_updated_at = zero_time\<rparr>"

record status_claim =
  sc_key :: status_key
  sc_already :: bool

definition claim_already :: "status_claim option \<Rightarrow> bool" where
  "claim_already c = (case c of None \<Rightarrow> False | Some cl \<Rightarrow> sc_already cl)"

text \<open>An update without a status condition, as \<open>Commit\<close>, \<open>Rollback\<close> and \<open>reclaimStatus\<close> send it.\<close>

definition set_status :: "'d status_db \<Rightarrow> status_key \<Rightarrow> string \<Rightarrow> bool \<Rightarrow> string \<Rightarrow> 'd \<Rightarrow> go_error option \<times> 'd" where
  "set_status db k status bump err d =
     (case db_update db k None
         \<lparr>su_status = status, su_bump = bump, su_last_error = err, su_updated_at = utc (db_now db d)\<rparr> d of
        (Inl e, d1) \<Rightarrow> (Some e, d1)
      | (Inr n, d1) \<Rightarrow> (None, d1))"

section \<open>The event guard\<close>

definition with_clock :: "('d \<Rightarrow> gotime) option \<Rightarrow> ('d \<Rightarrow> gotime) option \<Rightarrow> ('d \<Rightarrow> gotime) option" where
  "with_clock now previous = now"

definition new_status_guard ::
  "'d status_db option \<Rightarrow> ('d \<Rightarrow> gotime) \<Rightarrow> (('d \<Rightarrow> gotime) option \<Rightarrow> ('d \<Rightarrow> gotime) option) option list \<Rightarrow>
   go_error + 'd status_db" where
  "new_status_guard dbo wall opts =
     (case dbo of
        None \<Rightarrow> Inl (ErrText ''gorm db is required'')
      | Some db \<Rightarrow>
          let now = foldl (\<lambda>clk f. case f of None \<Rightarrow> clk | Some g \<Rightarrow> g clk) (Some wall) opts
          in Inr (db\<lparr>db_now := (case now of None \<Rightarrow> wall | Some clk \<Rightarrow> clk)\<rparr>))"

text \<open>
  \<open>AutoMigrate\<close> of the guards: \<open>migrate\<close> is GORM's migration of one table, \<^const>\<open>None\<close> a nil guard. The table
  name is what GORM asks the row type for.
\<close>

definition ingestion_status_table :: string where "ingestion_status_table = ''ingestion_status''"

definition migrate_ingestion_status ::
  "(string \<Rightarrow> 'd \<Rightarrow> go_error option \<times> 'd) \<Rightarrow> 'd status_db option \<Rightarrow> 'd \<Rightarrow> go_error option \<times> 'd" where
  "migrate_ingestion_status migrate g d =
     (case g of
        None \<Rightarrow> (Some (ErrText ''ingestion status guard is required''), d)
      | Some db \<Rightarrow> migrate ingestion_status_table d)"

definition property_status_table :: string where "property_status_table = ''property_indexing_status''"

definition migrate_property_status ::
  "(string \<Rightarrow> 'd \<Rightarrow> go_error option \<times> 'd) \<Rightarrow> 'd status_db option \<Rightarrow> 'd \<Rightarrow> go_error option \<times> 'd" where
  "migrate_property_status migrate g d =
     (case g of
        None \<Rightarrow> (Some (ErrText ''property indexing status guard is required''), d)
      | Some db \<Rightarrow> migrate property_status_table d)"

definition find_status :: "'d status_db \<Rightarrow> event_envelope \<Rightarrow> 'd \<Rightarrow> (go_error + status_row) \<times> 'd" where
  "find_status db e d = db_first db (status_key_of e) d"

definition reclaim_status :: "'d status_db \<Rightarrow> event_envelope \<Rightarrow> 'd \<Rightarrow> go_error option \<times> 'd" where
  "reclaim_status db e d = set_status db (status_key_of e) status_processing True [] d"

definition start_event_write ::
  "'d status_db option \<Rightarrow> event_envelope \<Rightarrow> 'd \<Rightarrow> (go_error + status_claim option) \<times> 'd" where
  "start_event_write dbo e d =
     (case dbo of
        None \<Rightarrow> (Inl (ErrText ''ingestion status guard is required''), d)
      | Some db \<Rightarrow>
          (case validate_status_envelope e of
             Some err \<Rightarrow> (Inl err, d)
           | None \<Rightarrow>
               (case db_insert db (status_key_of e) (new_row e) d of
                  (Inl err, d1) \<Rightarrow> (Inl err, d1)
                | (Inr affected, d1) \<Rightarrow>
                    if 0 < affected then (Inr (Some \<lparr>sc_key = status_key_of e, sc_already = False\<rparr>), d1)
                    else
                      (case find_status db e d1 of
                         (Inl err, d2) \<Rightarrow> (Inl err, d2)
                       | (Inr row, d2) \<Rightarrow>
                           if sr_status row = status_inserted
                           then (Inr (Some \<lparr>sc_key = status_key_of e, sc_already = True\<rparr>), d2)
                           else
                             (case reclaim_status db e d2 of
                                (Some err, d3) \<Rightarrow> (Inl err, d3)
                              | (None, d3) \<Rightarrow> (Inr (Some \<lparr>sc_key = status_key_of e, sc_already = False\<rparr>), d3))))))"

definition commit_event_write :: "'d status_db \<Rightarrow> status_claim option \<Rightarrow> 'd \<Rightarrow> go_error option \<times> 'd" where
  "commit_event_write db c d =
     (case c of
        None \<Rightarrow> (Some (ErrText ''ingestion status claim is required''), d)
      | Some cl \<Rightarrow>
          if sc_already cl then (None, d)
          else set_status db (sc_key cl) status_inserted False [] d)"

definition rollback_event_write :: "'d status_db \<Rightarrow> status_claim option \<Rightarrow> go_error option \<Rightarrow> 'd \<Rightarrow> go_error option \<times> 'd" where
  "rollback_event_write db c cause d =
     (case c of
        None \<Rightarrow> (Some (ErrText ''ingestion status claim is required''), d)
      | Some cl \<Rightarrow>
          if sc_already cl then (None, d)
          else set_status db (sc_key cl) status_failed False (truncate_status_error cause) d)"

section \<open>The property guard\<close>

definition new_property_guard :: "'d status_db option \<Rightarrow> ('d \<Rightarrow> gotime) \<Rightarrow> go_error + 'd status_db" where
  "new_property_guard dbo wall =
     (case dbo of
        None \<Rightarrow> Inl (ErrText ''gorm db is required'')
      | Some db \<Rightarrow> Inr (db\<lparr>db_now := wall\<rparr>))"

definition reclaim_failed_status :: "'d status_db \<Rightarrow> event_envelope \<Rightarrow> 'd \<Rightarrow> go_error option \<times> 'd" where
  "reclaim_failed_status db e d =
     (case db_update db (status_key_of e) (Some status_failed)
         \<lparr>su_status = status_processing, su_bump = True, su_last_error = [], su_updated_at = utc (db_now db d)\<rparr> d of
        (Inl err, d1) \<Rightarrow> (Some err, d1)
      | (Inr affected, d1) \<Rightarrow>
          if affected \<noteq> 1 then (Some (ErrText ''property indexing status was not reclaimed''), d1)
          else (None, d1))"

definition start_property_write ::
  "'d status_db option \<Rightarrow> event_envelope \<Rightarrow> 'd \<Rightarrow> (go_error + status_claim option) \<times> 'd" where
  "start_property_write dbo e d =
     (case dbo of
        None \<Rightarrow> (Inl (ErrText ''property indexing status guard is required''), d)
      | Some db \<Rightarrow>
          (case validate_status_envelope e of
             Some err \<Rightarrow> (Inl err, d)
           | None \<Rightarrow>
               (case db_insert db (status_key_of e) (new_row e) d of
                  (Inl err, d1) \<Rightarrow> (Inl err, d1)
                | (Inr affected, d1) \<Rightarrow>
                    if 0 < affected then (Inr (Some \<lparr>sc_key = status_key_of e, sc_already = False\<rparr>), d1)
                    else
                      (case find_status db e d1 of
                         (Inl err, d2) \<Rightarrow> (Inl err, d2)
                       | (Inr row, d2) \<Rightarrow>
                           if sr_status row = status_inserted
                           then (Inr (Some \<lparr>sc_key = status_key_of e, sc_already = True\<rparr>), d2)
                           else if sr_status row \<noteq> status_failed
                           then (Inl (ErrText (''property indexing status '' @ go_quote (sr_status row) @ '' is not reclaimable'')), d2)
                           else
                             (case reclaim_failed_status db e d2 of
                                (Some err, d3) \<Rightarrow> (Inl err, d3)
                              | (None, d3) \<Rightarrow> (Inr (Some \<lparr>sc_key = status_key_of e, sc_already = False\<rparr>), d3))))))"

definition commit_property_write :: "'d status_db \<Rightarrow> status_claim option \<Rightarrow> 'd \<Rightarrow> go_error option \<times> 'd" where
  "commit_property_write db c d =
     (case c of
        None \<Rightarrow> (Some (ErrText ''property indexing status claim is required''), d)
      | Some cl \<Rightarrow>
          if sc_already cl then (None, d)
          else set_status db (sc_key cl) status_inserted False [] d)"

definition rollback_property_write :: "'d status_db \<Rightarrow> status_claim option \<Rightarrow> go_error option \<Rightarrow> 'd \<Rightarrow> go_error option \<times> 'd" where
  "rollback_property_write db c cause d =
     (case c of
        None \<Rightarrow> (Some (ErrText ''property indexing status claim is required''), d)
      | Some cl \<Rightarrow>
          if sc_already cl then (None, d)
          else set_status db (sc_key cl) status_failed False (truncate_status_error cause) d)"
section \<open>The guards as the storage interfaces\<close>

definition event_guard :: "'d status_db \<Rightarrow> (status_claim, 'd) write_guard" where
  "event_guard db =
     \<lparr>wg_start = start_event_write (Some db), wg_already = (\<lambda>c. claim_already (Some c)),
      wg_commit = (\<lambda>c. commit_event_write db (Some c)),
      wg_rollback = (\<lambda>c cause. rollback_event_write db (Some c) (Some cause))\<rparr>"

definition property_guard :: "'d status_db \<Rightarrow> (status_claim, 'd) write_guard" where
  "property_guard db =
     \<lparr>wg_start = start_property_write (Some db), wg_already = (\<lambda>c. claim_already (Some c)),
      wg_commit = (\<lambda>c. commit_property_write db (Some c)),
      wg_rollback = (\<lambda>c cause. rollback_property_write db (Some c) (Some cause))\<rparr>"

section \<open>What the guards rely on\<close>

definition update_matches :: "string option \<Rightarrow> status_row option \<Rightarrow> bool" where
  "update_matches cond ro =
     (case ro of None \<Rightarrow> False | Some r \<Rightarrow> (case cond of None \<Rightarrow> True | Some s \<Rightarrow> sr_status r = s))"

text \<open>The part the two \<open>Start\<close> operations share: they differ in what they do with a row that is not inserted.\<close>

definition claim_row ::
  "(status_row \<Rightarrow> 'd \<Rightarrow> go_error option \<times> 'd) \<Rightarrow> 'd status_db \<Rightarrow> event_envelope \<Rightarrow> 'd \<Rightarrow>
   (go_error + status_claim option) \<times> 'd" where
  "claim_row reclaim db e d =
     (case db_insert db (status_key_of e) (new_row e) d of
        (Inl err, d1) \<Rightarrow> (Inl err, d1)
      | (Inr affected, d1) \<Rightarrow>
          if 0 < affected then (Inr (Some \<lparr>sc_key = status_key_of e, sc_already = False\<rparr>), d1)
          else
            (case find_status db e d1 of
               (Inl err, d2) \<Rightarrow> (Inl err, d2)
             | (Inr row, d2) \<Rightarrow>
                 if sr_status row = status_inserted
                 then (Inr (Some \<lparr>sc_key = status_key_of e, sc_already = True\<rparr>), d2)
                 else
                   (case reclaim row d2 of
                      (Some err, d3) \<Rightarrow> (Inl err, d3)
                    | (None, d3) \<Rightarrow> (Inr (Some \<lparr>sc_key = status_key_of e, sc_already = False\<rparr>), d3))))"

definition reclaim_if_failed :: "'d status_db \<Rightarrow> event_envelope \<Rightarrow> status_row \<Rightarrow> 'd \<Rightarrow> go_error option \<times> 'd" where
  "reclaim_if_failed db e row d =
     (if sr_status row \<noteq> status_failed
      then (Some (ErrText (''property indexing status '' @ go_quote (sr_status row) @ '' is not reclaimable'')), d)
      else reclaim_failed_status db e d)"

lemma start_event_write_claim:
  "start_event_write (Some db) e d =
     (case validate_status_envelope e of
        Some err \<Rightarrow> (Inl err, d) | None \<Rightarrow> claim_row (\<lambda>row. reclaim_status db e) db e d)"
  by (cases "validate_status_envelope e") (simp_all add: start_event_write_def claim_row_def)

lemma start_property_write_claim:
  "start_property_write (Some db) e d =
     (case validate_status_envelope e of
        Some err \<Rightarrow> (Inl err, d) | None \<Rightarrow> claim_row (reclaim_if_failed db e) db e d)"
  by (cases "validate_status_envelope e")
     (auto simp: start_property_write_def claim_row_def reclaim_if_failed_def
       split: sum.splits prod.splits option.splits if_splits)

definition committed :: "('d \<Rightarrow> status_key \<Rightarrow> status_row option) \<Rightarrow> 'd \<Rightarrow> status_key \<Rightarrow> bool" where
  "committed rows d k \<longleftrightarrow> (\<exists>r. rows d k = Some r \<and> sr_status r = status_inserted)"

definition tracked :: "('d \<Rightarrow> status_key \<Rightarrow> status_row option) \<Rightarrow> 'd \<Rightarrow> status_key \<Rightarrow> bool" where
  "tracked rows d k \<longleftrightarrow> rows d k \<noteq> None"

locale status_table =
  fixes db :: "'d status_db"
    and rows :: "'d \<Rightarrow> status_key \<Rightarrow> status_row option"
  assumes insert_ok: "db_insert db k r d = (Inr n, d') \<Longrightarrow>
      (if rows d k = None then n = 1 \<and> (\<exists>t. rows d' = (rows d)(k \<mapsto> r\<lparr>sr_updated_at := t\<rparr>))
       else n = 0 \<and> rows d' = rows d)"
    and insert_err: "db_insert db k r d = (Inl err, d') \<Longrightarrow>
      rows d' = rows d \<or> rows d k = None \<and> (\<exists>t. rows d' = (rows d)(k \<mapsto> r\<lparr>sr_updated_at := t\<rparr>))"
    and first_ok: "db_first db k d = (Inr r, d') \<Longrightarrow> rows d k = Some r"
    and first_frame: "db_first db k d = (x, d') \<Longrightarrow> rows d' = rows d"
    and update_ok: "db_update db k cond u d = (Inr n, d') \<Longrightarrow>
      (if update_matches cond (rows d k)
       then rows d' = (rows d)(k \<mapsto> apply_update u (the (rows d k))) \<and> n \<le> 1 \<and> (apply_update u (the (rows d k)) \<noteq> the (rows d k) \<longrightarrow> n = 1)
       else n = 0 \<and> rows d' = rows d)"
    and update_err: "db_update db k cond u d = (Inl err, d') \<Longrightarrow>
      rows d' = rows d \<or>
      update_matches cond (rows d k) \<and> rows d' = (rows d)(k \<mapsto> apply_update u (the (rows d k)))"
begin

lemma insert_effect:
  assumes "db_insert db k r d = (x, d')"
  shows "rows d' = rows d \<and> (\<forall>n. x = Inr n \<longrightarrow> n = 0 \<and> rows d k \<noteq> None) \<or>
    rows d k = None \<and> (\<exists>t. rows d' = (rows d)(k \<mapsto> r\<lparr>sr_updated_at := t\<rparr>)) \<and> (\<forall>n. x = Inr n \<longrightarrow> n = 1)"
proof (cases x)
  case (Inl err)
  with insert_err [of k r d err d'] assms show ?thesis by blast
next
  case (Inr n)
  show ?thesis
  proof (cases "rows d k = None")
    case True
    with insert_ok [of k r d n d'] assms Inr show ?thesis by simp
  next
    case False
    with insert_ok [of k r d n d'] assms Inr show ?thesis by simp
  qed
qed

lemma update_cases:
  assumes "db_update db k cond u d = (x, d')"
  obtains "rows d' = rows d" "\<And>n. x = Inr n \<Longrightarrow> n = 0 \<and> \<not> update_matches cond (rows d k)"
    | r where "rows d k = Some r" "update_matches cond (Some r)" "rows d' = (rows d)(k \<mapsto> apply_update u r)"
proof (cases x)
  case (Inl err)
  with assms update_err [of k cond u d err d'] that show ?thesis
    by (auto simp: update_matches_def split: option.splits)
next
  case (Inr n)
  with assms update_ok [of k cond u d n d'] that show ?thesis
    by (auto simp: update_matches_def split: option.splits if_splits)
qed

lemma set_status_rows:
  assumes "set_status db k s bump err d = (x, d')"
  shows "(\<forall>k'. k' \<noteq> k \<longrightarrow> rows d' k' = rows d k') \<and>
    (rows d' k = rows d k \<or> (\<exists>r. rows d' k = Some r \<and> sr_status r = s \<and> rows d k \<noteq> None)) \<and>
    (x = None \<and> rows d k \<noteq> None \<longrightarrow> (\<exists>r. rows d' k = Some r \<and> sr_status r = s))"
proof -
  let ?u = "\<lparr>su_status = s, su_bump = bump, su_last_error = err, su_updated_at = utc (db_now db d)\<rparr>"
  obtain y where u: "db_update db k None ?u d = (y, d')" and x: "x = (case y of Inl e \<Rightarrow> Some e | Inr n \<Rightarrow> None)"
    using assms by (auto simp: set_status_def split: prod.splits sum.splits)
  from u show ?thesis
  proof (cases rule: update_cases)
    case 1
    have "rows d k = None" if "x = None"
    proof -
      from that x obtain n where "y = Inr n" by (cases y) auto
      with 1(2) have "\<not> update_matches None (rows d k)" by blast
      then show ?thesis by (cases "rows d k") (auto simp: update_matches_def)
    qed
    with 1(1) show ?thesis by (cases x) auto
  next
    case (2 r)
    then show ?thesis by (simp add: apply_update_def)
  qed
qed

lemma set_status_committed:
  assumes "set_status db k s bump err d = (x, d')" and "k' \<noteq> k \<or> s = status_inserted"
  shows "committed rows d k' \<Longrightarrow> committed rows d' k'" and "k' \<noteq> k \<Longrightarrow> committed rows d' k' \<longleftrightarrow> committed rows d k'"
  using set_status_rows [OF assms(1)] assms(2) unfolding committed_def by (cases "k' = k"; auto)+

lemma set_status_failed:
  assumes "set_status db k status_failed bump err d = (x, d')" and "committed rows d' k'"
  shows "committed rows d k'"
  using set_status_rows [OF assms(1)] assms(2) unfolding committed_def
  by (cases "k' = k") (auto simp: status_constants)

text \<open>A way to reclaim a row: only that row may change, it becomes \<open>processing\<close> or stays uncommitted.\<close>

definition reclaims :: "status_key \<Rightarrow> (string \<Rightarrow> bool) \<Rightarrow> (status_row \<Rightarrow> 'd \<Rightarrow> go_error option \<times> 'd) \<Rightarrow> bool" where
  "reclaims key allowed reclaim \<longleftrightarrow>
     (\<forall>row d err d'. reclaim row d = (err, d') \<and> rows d key = Some row \<and> sr_status row \<noteq> status_inserted \<longrightarrow>
        (\<forall>k. k \<noteq> key \<longrightarrow> rows d' k = rows d k) \<and> \<not> committed rows d' key \<and>
        (err = None \<longrightarrow> allowed (sr_status row) \<and> (\<exists>r. rows d' key = Some r \<and> sr_status r = status_processing)))"

lemma reclaims_event: "reclaims (status_key_of e) (\<lambda>_. True) (\<lambda>row. reclaim_status db e)"
  unfolding reclaims_def
proof (clarify, intro conjI)
  fix row d err d'
  assume r: "reclaim_status db e d = (err, d')" "rows d (status_key_of e) = Some row" "sr_status row \<noteq> status_inserted"
  note eff = set_status_rows [OF r(1) [unfolded reclaim_status_def]]
  from eff show "\<forall>k. k \<noteq> status_key_of e \<longrightarrow> rows d' k = rows d k" by blast
  from eff r show "\<not> committed rows d' (status_key_of e)" by (auto simp: committed_def status_constants)
  from eff r show "err = None \<longrightarrow> True \<and> (\<exists>r. rows d' (status_key_of e) = Some r \<and> sr_status r = status_processing)" by blast
qed

lemma reclaims_property: "reclaims (status_key_of e) (\<lambda>s. s = status_failed) (reclaim_if_failed db e)"
  unfolding reclaims_def
proof (clarify)
  fix row d err d'
  assume r: "reclaim_if_failed db e row d = (err, d')" "rows d (status_key_of e) = Some row" "sr_status row \<noteq> status_inserted"
  show "(\<forall>k. k \<noteq> status_key_of e \<longrightarrow> rows d' k = rows d k) \<and> \<not> committed rows d' (status_key_of e) \<and>
        (err = None \<longrightarrow> sr_status row = status_failed \<and> (\<exists>r. rows d' (status_key_of e) = Some r \<and> sr_status r = status_processing))"
  proof (cases "sr_status row = status_failed")
    case False
    with r show ?thesis by (auto simp: reclaim_if_failed_def committed_def)
  next
    case True
    let ?u = "\<lparr>su_status = status_processing, su_bump = True, su_last_error = [], su_updated_at = utc (db_now db d)\<rparr>"
    obtain y where u: "db_update db (status_key_of e) (Some status_failed) ?u d = (y, d')"
      and err: "err = None \<Longrightarrow> y = Inr 1"
      using r(1) True
      by (auto simp: reclaim_if_failed_def reclaim_failed_status_def split: prod.splits sum.splits if_splits)
    from u show ?thesis
    proof (cases rule: update_cases)
      case 1
      have "err \<noteq> None" using 1(2) err r(2) True by (auto simp: update_matches_def)
      with 1(1) r True show ?thesis by (auto simp: committed_def)
    next
      case (2 r')
      with True show ?thesis by (auto simp: committed_def apply_update_def status_constants)
    qed
  qed
qed

lemma claim_row_effect:
  assumes cl: "claim_row reclaim db e d = (x, d')" and rc: "reclaims (status_key_of e) allowed reclaim"
  shows "(\<forall>k. k \<noteq> status_key_of e \<longrightarrow> rows d' k = rows d k) \<and> (committed rows d' (status_key_of e) \<longleftrightarrow> committed rows d (status_key_of e)) \<and>
    (\<forall>co. x = Inr co \<longrightarrow> (\<exists>c. co = Some c \<and> sc_key c = status_key_of e \<and> tracked rows d' (status_key_of e) \<and>
        (sc_already c \<longleftrightarrow> committed rows d (status_key_of e)) \<and>
        (\<not> sc_already c \<longrightarrow> (\<exists>r. rows d' (status_key_of e) = Some r \<and> sr_status r = status_processing) \<and>
           (case rows d (status_key_of e) of None \<Rightarrow> True | Some r \<Rightarrow> allowed (sr_status r)))))"
proof -
  let ?k = "status_key_of e"
  obtain y d1 where ins: "db_insert db ?k (new_row e) d = (y, d1)" by fastforce
  show ?thesis
  proof (cases "rows d ?k = None \<and> (\<exists>t. rows d1 = (rows d)(?k \<mapsto> (new_row e)\<lparr>sr_updated_at := t\<rparr>)) \<and> (\<forall>n. y = Inr n \<longrightarrow> n = 1)")
    case True
    then have "x = (case y of Inl err \<Rightarrow> Inl err | Inr n \<Rightarrow> Inr (Some \<lparr>sc_key = ?k, sc_already = False\<rparr>))" "d' = d1"
      using cl ins by (auto simp: claim_row_def split: sum.splits)
    with True show ?thesis
      by (auto simp: committed_def tracked_def new_row_def status_constants split: sum.splits)
  next
    case False
    with insert_effect [OF ins] have same: "rows d1 = rows d" and n: "\<And>n. y = Inr n \<Longrightarrow> n = 0 \<and> rows d ?k \<noteq> None" by blast+
    show ?thesis
    proof (cases y)
      case (Inl err)
      with cl ins same show ?thesis by (auto simp: claim_row_def committed_def)
    next
      case (Inr n0)
      obtain z d2 where f: "db_first db ?k d1 = (z, d2)" by fastforce
      have same2: "rows d2 = rows d" using first_frame [OF f] same by simp
      show ?thesis
      proof (cases z)
        case (Inl err)
        with cl ins f Inr n same2 show ?thesis by (auto simp: claim_row_def find_status_def committed_def)
      next
        case z: (Inr row)
        have row: "rows d ?k = Some row" using first_ok f z same by metis
        show ?thesis
        proof (cases "sr_status row = status_inserted")
          case True
          with cl ins f Inr n z same2 row show ?thesis
            by (auto simp: claim_row_def find_status_def committed_def tracked_def)
        next
          case False
          obtain err d3 where rcl: "reclaim row d2 = (err, d3)" by fastforce
          have x: "x = (case err of Some er \<Rightarrow> Inl er | None \<Rightarrow> Inr (Some \<lparr>sc_key = ?k, sc_already = False\<rparr>))" "d' = d3"
            using cl ins f Inr n z False rcl by (auto simp: claim_row_def find_status_def split: option.splits)
          have e3: "(\<forall>k. k \<noteq> ?k \<longrightarrow> rows d3 k = rows d2 k) \<and> \<not> committed rows d3 ?k \<and>
            (err = None \<longrightarrow> allowed (sr_status row) \<and> (\<exists>r. rows d3 ?k = Some r \<and> sr_status r = status_processing))"
            using rc rcl row same2 False unfolding reclaims_def by metis
          have "\<not> committed rows d ?k" using row False by (simp add: committed_def)
          with e3 x same2 row show ?thesis by (auto simp: tracked_def split: option.splits)
        qed
      qed
    qed
  qed
qed

lemma start_event_effect:
  assumes "start_event_write (Some db) e d = (x, d')"
  shows "(\<forall>k. k \<noteq> status_key_of e \<longrightarrow> rows d' k = rows d k) \<and> (committed rows d' (status_key_of e) \<longleftrightarrow> committed rows d (status_key_of e)) \<and>
    (\<forall>co. x = Inr co \<longrightarrow> (\<exists>c. co = Some c \<and> sc_key c = status_key_of e \<and> tracked rows d' (status_key_of e) \<and>
        (sc_already c \<longleftrightarrow> committed rows d (status_key_of e)) \<and>
        (\<not> sc_already c \<longrightarrow> (\<exists>r. rows d' (status_key_of e) = Some r \<and> sr_status r = status_processing))))"
proof (cases "validate_status_envelope e")
  case None
  with assms have "claim_row (\<lambda>row. reclaim_status db e) db e d = (x, d')" by (simp add: start_event_write_claim)
  from claim_row_effect [OF this reclaims_event] show ?thesis by blast
next
  case (Some err)
  with assms show ?thesis by (auto simp: start_event_write_claim)
qed

lemma start_property_effect:
  assumes "start_property_write (Some db) e d = (x, d')"
  shows "(\<forall>k. k \<noteq> status_key_of e \<longrightarrow> rows d' k = rows d k) \<and> (committed rows d' (status_key_of e) \<longleftrightarrow> committed rows d (status_key_of e)) \<and>
    (\<forall>co. x = Inr co \<longrightarrow> (\<exists>c. co = Some c \<and> sc_key c = status_key_of e \<and> tracked rows d' (status_key_of e) \<and>
        (sc_already c \<longleftrightarrow> committed rows d (status_key_of e)) \<and>
        (\<not> sc_already c \<longrightarrow> (\<exists>r. rows d' (status_key_of e) = Some r \<and> sr_status r = status_processing) \<and>
           (case rows d (status_key_of e) of None \<Rightarrow> True | Some r \<Rightarrow> sr_status r = status_failed))))"
proof (cases "validate_status_envelope e")
  case None
  with assms have "claim_row (reclaim_if_failed db e) db e d = (x, d')" by (simp add: start_property_write_claim)
  from claim_row_effect [OF this reclaims_property] show ?thesis by blast
next
  case (Some err)
  with assms show ?thesis by (auto simp: start_property_write_claim)
qed

lemma committed_other: "k \<noteq> key \<Longrightarrow> \<forall>k. k \<noteq> key \<longrightarrow> rows d' k = rows d k \<Longrightarrow> committed rows d' k \<longleftrightarrow> committed rows d k"
  by (simp add: committed_def)

end

section \<open>Both guards keep the guard contract\<close>

sublocale status_table \<subseteq> events: write_guard_contract "event_guard db" "committed rows" "tracked rows" sc_key
proof (rule write_guard_contract.intro)
  fix e w c w'
  assume "wg_start (event_guard db) e w = (Inr (Some c), w')"
  then have "start_event_write (Some db) e w = (Inr (Some c), w')" by (simp add: event_guard_def)
  from start_event_effect [OF this]
  show "sc_key c = status_key_of e \<and> (wg_already (event_guard db) c \<longleftrightarrow> committed rows w (status_key_of e)) \<and> tracked rows w' (status_key_of e)"
    by (simp add: event_guard_def claim_already_def)
next
  fix e w x w' k
  assume "wg_start (event_guard db) e w = (x, w')"
  then have "start_event_write (Some db) e w = (x, w')" by (simp add: event_guard_def)
  note eff = start_event_effect [OF this]
  show "committed rows w' k \<longleftrightarrow> committed rows w k"
    using eff committed_other [of k "status_key_of e" w' w] by (cases "k = status_key_of e") blast+
next
  fix c w w'
  assume "wg_commit (event_guard db) c w = (None, w')" "\<not> wg_already (event_guard db) c" "tracked rows w (sc_key c)"
  then show "committed rows w' (sc_key c)"
    using set_status_rows [of "sc_key c" status_inserted False "[]" w None w']
    by (simp add: event_guard_def commit_event_write_def claim_already_def tracked_def committed_def)
next
  fix c w err w' k
  assume "wg_commit (event_guard db) c w = (err, w')" "committed rows w k"
  then show "committed rows w' k"
    using set_status_committed(1) [of "sc_key c" status_inserted False "[]" w err w' k]
    by (auto simp: event_guard_def commit_event_write_def split: if_splits)
next
  fix c w err w' k
  assume "wg_commit (event_guard db) c w = (err, w')" "committed rows w' k"
  then show "committed rows w k \<or> k = sc_key c"
    using set_status_committed(2) [of "sc_key c" status_inserted False "[]" w err w' k]
    by (auto simp: event_guard_def commit_event_write_def split: if_splits)
next
  fix c cause w err w' k
  assume "wg_rollback (event_guard db) c cause w = (err, w')" "committed rows w' k"
  then show "committed rows w k"
    using set_status_failed [of "sc_key c" False "truncate_status_error (Some cause)" w err w' k]
    by (auto simp: event_guard_def rollback_event_write_def split: if_splits)
next
  fix c cause w err w' k
  assume "wg_rollback (event_guard db) c cause w = (err, w')" "k \<noteq> sc_key c"
  then show "committed rows w' k \<longleftrightarrow> committed rows w k"
    using set_status_committed(2) [of "sc_key c" status_failed False "truncate_status_error (Some cause)" w err w' k]
    by (auto simp: event_guard_def rollback_event_write_def split: if_splits)
qed

sublocale status_table \<subseteq> props: write_guard_contract "property_guard db" "committed rows" "tracked rows" sc_key
proof (rule write_guard_contract.intro)
  fix e w c w'
  assume "wg_start (property_guard db) e w = (Inr (Some c), w')"
  then have "start_property_write (Some db) e w = (Inr (Some c), w')" by (simp add: property_guard_def)
  from start_property_effect [OF this]
  show "sc_key c = status_key_of e \<and> (wg_already (property_guard db) c \<longleftrightarrow> committed rows w (status_key_of e)) \<and> tracked rows w' (status_key_of e)"
    by (simp add: property_guard_def claim_already_def)
next
  fix e w x w' k
  assume "wg_start (property_guard db) e w = (x, w')"
  then have "start_property_write (Some db) e w = (x, w')" by (simp add: property_guard_def)
  note eff = start_property_effect [OF this]
  show "committed rows w' k \<longleftrightarrow> committed rows w k"
    using eff committed_other [of k "status_key_of e" w' w] by (cases "k = status_key_of e") blast+
next
  fix c w w'
  assume "wg_commit (property_guard db) c w = (None, w')" "\<not> wg_already (property_guard db) c" "tracked rows w (sc_key c)"
  then show "committed rows w' (sc_key c)"
    using set_status_rows [of "sc_key c" status_inserted False "[]" w None w']
    by (simp add: property_guard_def commit_property_write_def claim_already_def tracked_def committed_def)
next
  fix c w err w' k
  assume "wg_commit (property_guard db) c w = (err, w')" "committed rows w k"
  then show "committed rows w' k"
    using set_status_committed(1) [of "sc_key c" status_inserted False "[]" w err w' k]
    by (auto simp: property_guard_def commit_property_write_def split: if_splits)
next
  fix c w err w' k
  assume "wg_commit (property_guard db) c w = (err, w')" "committed rows w' k"
  then show "committed rows w k \<or> k = sc_key c"
    using set_status_committed(2) [of "sc_key c" status_inserted False "[]" w err w' k]
    by (auto simp: property_guard_def commit_property_write_def split: if_splits)
next
  fix c cause w err w' k
  assume "wg_rollback (property_guard db) c cause w = (err, w')" "committed rows w' k"
  then show "committed rows w k"
    using set_status_failed [of "sc_key c" False "truncate_status_error (Some cause)" w err w' k]
    by (auto simp: property_guard_def rollback_property_write_def split: if_splits)
next
  fix c cause w err w' k
  assume "wg_rollback (property_guard db) c cause w = (err, w')" "k \<noteq> sc_key c"
  then show "committed rows w' k \<longleftrightarrow> committed rows w k"
    using set_status_committed(2) [of "sc_key c" status_failed False "truncate_status_error (Some cause)" w err w' k]
    by (auto simp: property_guard_def rollback_property_write_def split: if_splits)
qed

context status_table
begin

lemma event_guard_contract: "write_guard_contract (event_guard db) (committed rows) (tracked rows) sc_key"
  by (rule events.write_guard_contract_axioms)

lemma property_guard_contract: "write_guard_contract (property_guard db) (committed rows) (tracked rows) sc_key"
  by (rule props.write_guard_contract_axioms)

end

section \<open>A database with failures\<close>

text \<open>
  A table in memory whose statements fail by a script: \<open>LosesRequest\<close> fails before the statement is
  executed, \<open>LosesReply\<close> after it.
\<close>

datatype fault = Works | LosesRequest | LosesReply

record 'row table_state =
  tb_rows :: "status_key \<Rightarrow> 'row option"
  tb_faults :: "fault list"
  tb_time :: gotime

definition connection_lost :: go_error where "connection_lost = ErrExternal ''invalid connection''"

definition execute :: "('row table_state \<Rightarrow> 'a \<times> 'row table_state) \<Rightarrow> 'row table_state \<Rightarrow> (go_error + 'a) \<times> 'row table_state" where
  "execute stmt d =
     (let d0 = d\<lparr>tb_faults := tl (tb_faults d)\<rparr>
      in case tb_faults d of
           LosesRequest # _ \<Rightarrow> (Inl connection_lost, d0)
         | LosesReply # _ \<Rightarrow> (Inl connection_lost, snd (stmt d0))
         | _ \<Rightarrow> (Inr (fst (stmt d0)), snd (stmt d0)))"

definition table_insert :: "status_key \<Rightarrow> status_row \<Rightarrow> status_row table_state \<Rightarrow> (go_error + nat) \<times> status_row table_state" where
  "table_insert k r =
     execute (\<lambda>d. if tb_rows d k = None then (1, d\<lparr>tb_rows := (tb_rows d)(k \<mapsto> r\<lparr>sr_updated_at := tb_time d\<rparr>)\<rparr>) else (0, d))"

definition table_first :: "status_key \<Rightarrow> status_row table_state \<Rightarrow> (go_error + status_row) \<times> status_row table_state" where
  "table_first k d =
     (case execute (\<lambda>d. (tb_rows d k, d)) d of
        (Inl e, d1) \<Rightarrow> (Inl e, d1)
      | (Inr None, d1) \<Rightarrow> (Inl (ErrExternal ''record not found''), d1)
      | (Inr (Some r), d1) \<Rightarrow> (Inr r, d1))"

definition table_update ::
  "status_key \<Rightarrow> string option \<Rightarrow> status_update \<Rightarrow> status_row table_state \<Rightarrow> (go_error + nat) \<times> status_row table_state" where
  "table_update k cond u =
     execute (\<lambda>d. if update_matches cond (tb_rows d k)
       then (1, d\<lparr>tb_rows := (tb_rows d)(k \<mapsto> apply_update u (the (tb_rows d k)))\<rparr>) else (0, d))"

definition table_db :: "status_row table_state status_db" where
  "table_db = \<lparr>db_insert = table_insert, db_first = table_first, db_update = table_update, db_now = tb_time\<rparr>"

lemma execute_cases:
  assumes "execute stmt d = (x, d')"
  shows "(d' = d\<lparr>tb_faults := tl (tb_faults d)\<rparr> \<and> x = Inl connection_lost) \<or>
    (d' = snd (stmt (d\<lparr>tb_faults := tl (tb_faults d)\<rparr>)) \<and>
      (x = Inl connection_lost \<or> x = Inr (fst (stmt (d\<lparr>tb_faults := tl (tb_faults d)\<rparr>)))))"
  using assms by (auto simp: execute_def Let_def split: list.splits fault.splits)

lemma table_db_contract: "status_table table_db tb_rows"
proof (rule status_table.intro)
  fix k r d n d'
  assume "db_insert table_db k r d = (Inr n, d')"
  then show "if tb_rows d k = None then n = 1 \<and> (\<exists>t. tb_rows d' = (tb_rows d)(k \<mapsto> r\<lparr>sr_updated_at := t\<rparr>))
       else n = 0 \<and> tb_rows d' = tb_rows d"
    by (auto simp: table_db_def table_insert_def dest!: execute_cases)
next
  fix k r d err d'
  assume "db_insert table_db k r d = (Inl err, d')"
  then show "tb_rows d' = tb_rows d \<or> tb_rows d k = None \<and> (\<exists>t. tb_rows d' = (tb_rows d)(k \<mapsto> r\<lparr>sr_updated_at := t\<rparr>))"
    by (auto simp: table_db_def table_insert_def dest!: execute_cases)
next
  fix k d r d'
  assume "db_first table_db k d = (Inr r, d')"
  then show "tb_rows d k = Some r"
    by (auto simp: table_db_def table_first_def split: sum.splits option.splits prod.splits dest!: execute_cases)
next
  fix k d x d'
  assume "db_first table_db k d = (x, d')"
  then show "tb_rows d' = tb_rows d"
    by (auto simp: table_db_def table_first_def split: sum.splits option.splits prod.splits dest!: execute_cases)
next
  fix k cond u d n d'
  assume "db_update table_db k cond u d = (Inr n, d')"
  then show "if update_matches cond (tb_rows d k)
       then tb_rows d' = (tb_rows d)(k \<mapsto> apply_update u (the (tb_rows d k))) \<and> n \<le> 1 \<and>
         (apply_update u (the (tb_rows d k)) \<noteq> the (tb_rows d k) \<longrightarrow> n = 1)
       else n = 0 \<and> tb_rows d' = tb_rows d"
    by (auto simp: table_db_def table_update_def dest!: execute_cases)
next
  fix k cond u d err d'
  assume "db_update table_db k cond u d = (Inl err, d')"
  then show "tb_rows d' = tb_rows d \<or>
      update_matches cond (tb_rows d k) \<and> tb_rows d' = (tb_rows d)(k \<mapsto> apply_update u (the (tb_rows d k)))"
    by (auto simp: table_db_def table_update_def dest!: execute_cases)
qed

interpretation table: status_table table_db tb_rows
  by (rule table_db_contract)
section \<open>Properties\<close>

definition sample_event :: event_envelope where
  "sample_event =
     empty_envelope\<lparr>env_id := ''e1'', env_tenant_id := ''t'', env_project_id := ''p'', env_source_id := ''s''\<rparr>"

definition empty_table :: "fault list \<Rightarrow> 'row table_state" where
  "empty_table faults = \<lparr>tb_rows = (\<lambda>_. None), tb_faults = faults, tb_time = zero_time\<rparr>"

definition fresh_claim :: status_claim where
  "fresh_claim = \<lparr>sc_key = status_key_of sample_event, sc_already = False\<rparr>"

lemma pair_of: "fst p = x \<Longrightarrow> p = (x, snd p)"
  by (cases p) simp

lemma sample_property_start:
  "fst (start_property_write (Some table_db) sample_event (empty_table [])) = Inr (Some fresh_claim)"
  by code_simp


text \<open>
  C38. The event guard is weaker: it hands out a second claim while the first is still being processed,
  and \<open>Rollback\<close> does not look at the status it overwrites. If the second holder commits and the first
  holder then fails, the committed checkpoint is lost and the next delivery claims the event again.
\<close>

theorem late_rollback_undoes_commit:
  assumes "status_table db rows" and "\<not> committed rows d0 (status_key_of e)"
    and "start_event_write (Some db) e d0 = (Inr (Some a), d1)"
    and "start_event_write (Some db) e d1 = (Inr (Some b), d2)"
    and "wg_commit (event_guard db) b d2 = (None, d3)"
    and "wg_rollback (event_guard db) a cause d3 = (None, d4)"
    and "start_event_write (Some db) e d4 = (Inr (Some c), d5)"
  shows "\<not> sc_already a \<and> \<not> sc_already b \<and> committed rows d3 (status_key_of e) \<and>
    \<not> committed rows d4 (status_key_of e) \<and> \<not> sc_already c"
proof -
  note eff = status_table.start_event_effect [OF assms(1)]
  from eff [OF assms(3)] assms(2) have a: "\<not> sc_already a" "sc_key a = status_key_of e" "\<not> committed rows d1 (status_key_of e)" by auto
  from eff [OF assms(4)] a(3) have b: "\<not> sc_already b" "sc_key b = status_key_of e" "tracked rows d2 (status_key_of e)" by auto
  have cb: "set_status db (status_key_of e) status_inserted False [] d2 = (None, d3)"
    using assms(5) b by (simp add: event_guard_def commit_event_write_def)
  from status_table.set_status_rows [OF assms(1) cb] b(3)
  have d3: "committed rows d3 (status_key_of e)" by (auto simp: committed_def tracked_def)
  have ra: "set_status db (status_key_of e) status_failed False (truncate_status_error (Some cause)) d3 = (None, d4)"
    using assms(6) a by (simp add: event_guard_def rollback_event_write_def)
  from status_table.set_status_rows [OF assms(1) ra] d3
  have d4: "\<not> committed rows d4 (status_key_of e)" by (auto simp: committed_def status_constants)
  from eff [OF assms(7)] d4 have "\<not> sc_already c" by auto
  with a b d3 d4 show ?thesis by blast
qed

definition race_1 :: "status_row table_state" where
  "race_1 = snd (start_event_write (Some table_db) sample_event (empty_table []))"

definition race_2 :: "status_row table_state" where
  "race_2 = snd (start_event_write (Some table_db) sample_event race_1)"

definition race_3 :: "status_row table_state" where
  "race_3 = snd (wg_commit (event_guard table_db) fresh_claim race_2)"

definition race_4 :: "status_row table_state" where
  "race_4 = snd (wg_rollback (event_guard table_db) fresh_claim (ErrText ''send failed'') race_3)"

lemma race_steps:
  "fst (start_event_write (Some table_db) sample_event (empty_table [])) = Inr (Some fresh_claim)"
  "fst (start_event_write (Some table_db) sample_event race_1) = Inr (Some fresh_claim)"
  "fst (wg_commit (event_guard table_db) fresh_claim race_2) = None"
  "fst (wg_rollback (event_guard table_db) fresh_claim (ErrText ''send failed'') race_3) = None"
  "fst (start_event_write (Some table_db) sample_event race_4) = Inr (Some fresh_claim)"
  by code_simp+

theorem late_rollback_undoes_commit_witness:
  "committed tb_rows race_3 (status_key_of sample_event) \<and> \<not> committed tb_rows race_4 (status_key_of sample_event)"
proof -
  have "\<not> committed tb_rows (empty_table []) (status_key_of sample_event)" by (simp add: committed_def empty_table_def)
  from late_rollback_undoes_commit [OF table_db_contract this
      pair_of [OF race_steps(1), folded race_1_def] pair_of [OF race_steps(2), folded race_2_def]
      pair_of [OF race_steps(3), folded race_3_def] pair_of [OF race_steps(4), folded race_4_def]
      pair_of [OF race_steps(5)]]
  show ?thesis by blast
qed

end
