(* ===== verification/ClickHouse_Writers.thy ===== *)
theory ClickHouse_Writers
  imports ClickHouse_Schema Storage_Writers
begin

text \<open>
  Package \<open>storage/clickhouse\<close>, files \<open>batch_writer.go\<close> and \<open>property_writer.go\<close>: appending events and
  property rows through native batches, the event path under an idempotency claim.

  The ClickHouse driver is the argument \<open>batch_conn\<close>: opening a batch and the three operations of an open
  batch, as functions on a world; JSON encoding of a property map is the argument \<open>enc\<close> and SHA-256 is
  \<open>sha\<close>. The order in which Go visits the routed groups is the argument \<open>visit\<close>.

  The lemmas show that the batch writer keeps the contract of an event writer whenever its guard keeps
  the contract of a guard, that every row has one value per column, and what is left in ClickHouse on
  every branch.
\<close>

section \<open>Native batches\<close>

datatype sql_value = SvString string | SvTime gotime | SvFloat go_float | SvBool bool

record ('b, 'w) batch_conn =
  bc_prepare :: "string \<Rightarrow> 'w \<Rightarrow> (go_error + 'b) \<times> 'w"
  bc_append :: "'b \<Rightarrow> sql_value list \<Rightarrow> 'w \<Rightarrow> go_error option \<times> 'w"
  bc_send :: "'b \<Rightarrow> 'w \<Rightarrow> go_error option \<times> 'w"
  bc_abort :: "'b \<Rightarrow> 'w \<Rightarrow> 'w"

definition build_insert_statement :: "string list \<Rightarrow> string \<Rightarrow> string" where
  "build_insert_statement columns table_name =
     ''INSERT INTO '' @ table_name @ '' ('' @ join_with '','' (map (\<lambda>c. [backtick] @ c @ [backtick]) columns) @ '')''"

definition build_event_insert_statement :: "string \<Rightarrow> string" where
  "build_event_insert_statement = build_insert_statement event_column_names"

definition build_property_insert_statement :: "string \<Rightarrow> string" where
  "build_property_insert_statement = build_insert_statement property_column_names"

section \<open>The event writer\<close>

record ('c, 'b, 'w) batch_writer =
  bw_router :: string
  bw_conn :: "('b, 'w) batch_conn"
  bw_guard :: "('c, 'w) write_guard option"

type_synonym ('c, 'b, 'w) batch_writer_option = "('c, 'b, 'w) batch_writer \<Rightarrow> ('c, 'b, 'w) batch_writer"

definition with_event_write_guard :: "('c, 'w) write_guard option \<Rightarrow> ('c, 'b, 'w) batch_writer_option" where
  "with_event_write_guard g bw = bw\<lparr>bw_guard := g\<rparr>"

definition new_batch_writer_with_preparer ::
  "string option \<Rightarrow> ('b, 'w) batch_conn option \<Rightarrow> ('c, 'b, 'w) batch_writer_option option list \<Rightarrow>
   go_error + ('c, 'b, 'w) batch_writer" where
  "new_batch_writer_with_preparer router conn opts =
     (case router of
        None \<Rightarrow> Inl (ErrText ''table router is required'')
      | Some prfx \<Rightarrow>
          (case conn of
             None \<Rightarrow> Inl (ErrText ''clickhouse batch preparer is required'')
           | Some cn \<Rightarrow>
               Inr (foldl (\<lambda>bw opt. case opt of None \<Rightarrow> bw | Some f \<Rightarrow> f bw)
                 \<lparr>bw_router = prfx, bw_conn = cn, bw_guard = None\<rparr> opts)))"

definition new_batch_writer ::
  "('b, 'w) batch_conn option \<Rightarrow> string option \<Rightarrow> ('c, 'b, 'w) batch_writer_option option list \<Rightarrow>
   go_error + ('c, 'b, 'w) batch_writer" where
  "new_batch_writer conn router opts =
     (if conn = None then Inl (ErrText ''clickhouse connection is required'')
      else new_batch_writer_with_preparer router conn opts)"

definition marshal_map_string :: "(props \<Rightarrow> go_error + string) \<Rightarrow> props \<Rightarrow> go_error + string" where
  "marshal_map_string enc m = (if m = None then Inr ''{}'' else enc m)"

definition event_insert_values :: "(props \<Rightarrow> go_error + string) \<Rightarrow> event_envelope \<Rightarrow> go_error + sql_value list" where
  "event_insert_values enc e =
     (case marshal_map_string enc (env_properties e) of
        Inl err \<Rightarrow> Inl (ErrWrap ''marshal properties: '' err)
      | Inr properties \<Rightarrow>
          (case marshal_map_string enc (env_user_props e) of
             Inl err \<Rightarrow> Inl (ErrWrap ''marshal user_properties: '' err)
           | Inr user_properties \<Rightarrow> Inr
               [SvString (env_id e), SvString (env_tenant_id e), SvString (env_project_id e),
                SvString (env_source_id e), SvString (env_source_type e), SvString (env_event_name e),
                SvString (env_distinct_id e), SvString (env_session_id e), SvString (env_visit_id e),
                SvTime (utc (env_event_time e)), SvTime (utc (env_received_at e)),
                SvString properties, SvString user_properties, SvString (env_source e)]))"

definition start_claim ::
  "('c, 'b, 'w) batch_writer \<Rightarrow> event_envelope \<Rightarrow> 'w \<Rightarrow> (go_error + 'c option) \<times> 'w" where
  "start_claim bw e w =
     (case bw_guard bw of
        None \<Rightarrow> (Inr None, w)
      | Some g \<Rightarrow>
          (case wg_start g e w of
             (Inl err, w1) \<Rightarrow> (Inl err, w1)
           | (Inr None, w1) \<Rightarrow> (Inl (ErrText ''event write guard returned nil claim''), w1)
           | (Inr (Some c), w1) \<Rightarrow> (Inr (Some c), w1)))"

definition write_claimed_event ::
  "(string \<Rightarrow> 256 word) \<Rightarrow> (props \<Rightarrow> go_error + string) \<Rightarrow> ('c, 'b, 'w) batch_writer \<Rightarrow> event_envelope \<Rightarrow> 'w \<Rightarrow>
   go_error option \<times> 'w" where
  "write_claimed_event sha enc bw e w =
     (case route sha (Some (bw_router bw)) e of
        Inl err \<Rightarrow> (Some err, w)
      | Inr t \<Rightarrow>
          (case bc_prepare (bw_conn bw) (build_event_insert_statement (tbl_physical t)) w of
             (Inl err, w1) \<Rightarrow> (Some err, w1)
           | (Inr batch, w1) \<Rightarrow>
               (case event_insert_values enc e of
                  Inl err \<Rightarrow> (Some err, bc_abort (bw_conn bw) batch w1)
                | Inr vals \<Rightarrow>
                    (case bc_append (bw_conn bw) batch vals w1 of
                       (Some err, w2) \<Rightarrow> (Some err, bc_abort (bw_conn bw) batch w2)
                     | (None, w2) \<Rightarrow>
                         (case bc_send (bw_conn bw) batch w2 of
                            (Some err, w3) \<Rightarrow> (Some err, bc_abort (bw_conn bw) batch w3)
                          | (None, w3) \<Rightarrow> (None, w3))))))"

definition rollback_claim ::
  "('c, 'b, 'w) batch_writer \<Rightarrow> 'c option \<Rightarrow> go_error \<Rightarrow> 'w \<Rightarrow> go_error \<times> 'w" where
  "rollback_claim bw co cause w =
     (case (co, bw_guard bw) of
        (Some c, Some g) \<Rightarrow> rollback_write g c cause w
      | _ \<Rightarrow> (cause, w))"

definition batch_write ::
  "(string \<Rightarrow> 256 word) \<Rightarrow> (props \<Rightarrow> go_error + string) \<Rightarrow> ('c, 'b, 'w) batch_writer option \<Rightarrow> 'w event_writer_fn" where
  "batch_write sha enc bwo e w =
     (case bwo of
        None \<Rightarrow> (Inl (ErrText ''clickhouse batch writer is required''), w)
      | Some bw \<Rightarrow>
          if env_id e = [] then (Inl (ErrText ''event_id is required''), w)
          else
            (case start_claim bw e w of
               (Inl err, w1) \<Rightarrow> (Inl err, w1)
             | (Inr co, w1) \<Rightarrow>
                 if (case (co, bw_guard bw) of (Some c, Some g) \<Rightarrow> wg_already g c | _ \<Rightarrow> False) then (Inr False, w1)
                 else
                   (case write_claimed_event sha enc bw e w1 of
                      (Some err, w2) \<Rightarrow> apfst Inl (rollback_claim bw co err w2)
                    | (None, w2) \<Rightarrow>
                        (case (co, bw_guard bw) of
                           (Some c, Some g) \<Rightarrow>
                             (case wg_commit g c w2 of
                                (Some err, w3) \<Rightarrow> (Inl err, w3)
                              | (None, w3) \<Rightarrow> (Inr True, w3))
                         | _ \<Rightarrow> (Inr True, w2)))))"

section \<open>The property writer\<close>

record ('b, 'w) property_batch_writer =
  pw_router :: string
  pw_conn :: "('b, 'w) batch_conn"

definition new_property_batch_writer_with_preparer ::
  "string option \<Rightarrow> ('b, 'w) batch_conn option \<Rightarrow> go_error + ('b, 'w) property_batch_writer" where
  "new_property_batch_writer_with_preparer router conn =
     (case router of
        None \<Rightarrow> Inl (ErrText ''table router is required'')
      | Some prfx \<Rightarrow>
          (case conn of
             None \<Rightarrow> Inl (ErrText ''clickhouse batch preparer is required'')
           | Some cn \<Rightarrow> Inr \<lparr>pw_router = prfx, pw_conn = cn\<rparr>))"

definition new_property_batch_writer ::
  "('b, 'w) batch_conn option \<Rightarrow> string option \<Rightarrow> go_error + ('b, 'w) property_batch_writer" where
  "new_property_batch_writer conn router =
     (if conn = None then Inl (ErrText ''clickhouse connection is required'')
      else new_property_batch_writer_with_preparer router conn)"

definition validate_property_record :: "event_property_record \<Rightarrow> go_error option" where
  "validate_property_record r =
     first_error
       [(er_event_id r = [], ''event_id is required''), (er_scope r = [], ''property scope is required''),
        (er_name r = [], ''property name is required''), (er_value_type r = [], ''property value type is required'')]"

definition route_property_record :: "(string \<Rightarrow> 256 word) \<Rightarrow> string \<Rightarrow> event_property_record \<Rightarrow> go_error + table" where
  "route_property_record sha prfx r =
     (case route_key sha (Some prfx)
         \<lparr>rk_tenant_id = er_tenant_id r, rk_project_id = er_project_id r, rk_source_id = er_source_id r\<rparr> of
        Inl err \<Rightarrow> Inl err
      | Inr t \<Rightarrow> property_table_for t)"

definition property_insert_values :: "event_property_record \<Rightarrow> sql_value list" where
  "property_insert_values r =
     [SvString (er_event_id r), SvString (er_tenant_id r), SvString (er_project_id r), SvString (er_source_id r),
      SvString (er_source_type r), SvString (er_event_name r), SvString (er_distinct_id r),
      SvString (er_session_id r), SvString (er_visit_id r), SvTime (utc (er_event_time r)),
      SvTime (utc (er_received_at r)), SvString (er_source r), SvString (er_scope r), SvString (er_name r),
      SvString (er_value_type r), SvString (er_string r), SvFloat (er_number r), SvBool (er_bool r)]"

fun append_records ::
  "('b, 'w) batch_conn \<Rightarrow> 'b \<Rightarrow> event_property_record list \<Rightarrow> 'w \<Rightarrow> go_error option \<times> 'w" where
  "append_records conn batch [] w = (None, w)"
| "append_records conn batch (r # rs) w =
     (case bc_append conn batch (property_insert_values r) w of
        (Some err, w1) \<Rightarrow> (Some err, bc_abort conn batch w1)
      | (None, w1) \<Rightarrow> append_records conn batch rs w1)"

definition write_property_group ::
  "('b, 'w) batch_conn \<Rightarrow> string \<Rightarrow> event_property_record list \<Rightarrow> 'w \<Rightarrow> go_error option \<times> 'w" where
  "write_property_group conn table_name rs w =
     (case bc_prepare conn (build_property_insert_statement table_name) w of
        (Inl err, w1) \<Rightarrow> (Some err, w1)
      | (Inr batch, w1) \<Rightarrow>
          (case append_records conn batch rs w1 of
             (Some err, w2) \<Rightarrow> (Some err, w2)
           | (None, w2) \<Rightarrow>
               (case bc_send conn batch w2 of
                  (Some err, w3) \<Rightarrow> (Some err, bc_abort conn batch w3)
                | (None, w3) \<Rightarrow> (None, w3))))"

text \<open>The groups by physical table name, records in their order.\<close>

type_synonym groups = "(string \<times> event_property_record list) list"

fun group_records ::
  "(string \<Rightarrow> 256 word) \<Rightarrow> string \<Rightarrow> event_property_record list \<Rightarrow> groups \<Rightarrow> go_error + groups" where
  "group_records sha prfx [] gs = Inr gs"
| "group_records sha prfx (r # rs) gs =
     (case validate_property_record r of
        Some err \<Rightarrow> Inl err
      | None \<Rightarrow>
          (case route_property_record sha prfx r of
             Inl err \<Rightarrow> Inl err
           | Inr t \<Rightarrow>
               group_records sha prfx rs
                 (AList.update (tbl_physical t)
                   ((case map_of gs (tbl_physical t) of None \<Rightarrow> [] | Some xs \<Rightarrow> xs) @ [r]) gs)))"

fun write_groups :: "('b, 'w) batch_conn \<Rightarrow> groups \<Rightarrow> string list \<Rightarrow> nat \<Rightarrow> 'w \<Rightarrow> (go_error + nat) \<times> 'w" where
  "write_groups conn gs [] written w = (Inr written, w)"
| "write_groups conn gs (name # names) written w =
     (let rs = (case map_of gs name of None \<Rightarrow> [] | Some xs \<Rightarrow> xs)
      in case write_property_group conn name rs w of
           (Some err, w1) \<Rightarrow> (Inl err, w1)
         | (None, w1) \<Rightarrow> write_groups conn gs names (written + length rs) w1)"

definition write_event_properties ::
  "(string \<Rightarrow> 256 word) \<Rightarrow> (string list \<Rightarrow> string list) \<Rightarrow> ('b, 'w) property_batch_writer option \<Rightarrow> 'w property_writer_fn" where
  "write_event_properties sha visit pwo rs w =
     (case pwo of
        None \<Rightarrow> (Inl (ErrText ''clickhouse property batch writer is required''), w)
      | Some pw \<Rightarrow>
          if rs = [] then (Inr 0, w)
          else
            (case group_records sha (pw_router pw) rs [] of
               Inl err \<Rightarrow> (Inl err, w)
             | Inr gs \<Rightarrow> write_groups (pw_conn pw) gs (visit (map fst gs)) 0 w))"
section \<open>The batch writer keeps the writer contract\<close>

lemma batch_write_cases:
  assumes "batch_write sha enc (Some \<lparr>bw_router = prfx, bw_conn = conn, bw_guard = Some g\<rparr>) e w = (r, w')"
  obtains (refused) err where "r = Inl err" "w' = w"
    | (unclaimed) err x where "r = Inl err" "wg_start g e w = (x, w')" "\<forall>c. x \<noteq> Inr (Some c)"
    | (duplicate) c where "r = Inr False" "wg_start g e w = (Inr (Some c), w')" "wg_already g c"
    | (failed) c w1 err w2 err' where "wg_start g e w = (Inr (Some c), w1)" "\<not> wg_already g c"
        "write_claimed_event sha enc \<lparr>bw_router = prfx, bw_conn = conn, bw_guard = Some g\<rparr> e w1 = (Some err, w2)"
        "rollback_write g c err w2 = (err', w')" "r = Inl err'"
    | (sent) c w1 w2 co where "wg_start g e w = (Inr (Some c), w1)" "\<not> wg_already g c"
        "write_claimed_event sha enc \<lparr>bw_router = prfx, bw_conn = conn, bw_guard = Some g\<rparr> e w1 = (None, w2)"
        "wg_commit g c w2 = (co, w')" "r = (case co of None \<Rightarrow> Inr True | Some err \<Rightarrow> Inl err)"
proof (cases "env_id e = []")
  case True
  with assms refused show ?thesis by (auto simp: batch_write_def)
next
  case False
  obtain x w1 where s: "wg_start g e w = (x, w1)" by fastforce
  show ?thesis
  proof (cases "\<exists>c. x = Inr (Some c)")
    case False': False
    with assms False s unclaimed show ?thesis
      by (cases x) (auto simp: batch_write_def start_claim_def split: option.splits)
  next
    case True
    then obtain c where x: "x = Inr (Some c)" by blast
    show ?thesis
    proof (cases "wg_already g c")
      case True
      with assms False s x duplicate show ?thesis by (simp add: batch_write_def start_claim_def)
    next
      case fresh: False
      obtain y w2 where y: "write_claimed_event sha enc \<lparr>bw_router = prfx, bw_conn = conn, bw_guard = Some g\<rparr> e w1 = (y, w2)"
        by fastforce
      show ?thesis
      proof (cases y)
        case (Some err)
        obtain z w3 where "rollback_write g c err w2 = (z, w3)" by fastforce
        with assms False s x fresh y Some failed show ?thesis
          by (simp add: batch_write_def start_claim_def rollback_claim_def)
      next
        case None
        obtain z w3 where "wg_commit g c w2 = (z, w3)" by fastforce
        with assms False s x fresh y None sent show ?thesis
          by (cases z) (simp_all add: batch_write_def start_claim_def)
      qed
    qed
  qed
qed

locale guarded_batch_writer = write_guard_contract guard durable held claim_key
  for guard :: "('c, 'w) write_guard" and durable :: "'w \<Rightarrow> status_key \<Rightarrow> bool"
    and held :: "'w \<Rightarrow> status_key \<Rightarrow> bool" and claim_key :: "'c \<Rightarrow> status_key" +
  fixes conn :: "('b, 'w) batch_conn"
    and sha :: "string \<Rightarrow> 256 word"
    and enc :: "props \<Rightarrow> go_error + string"
    and prfx :: string
  assumes prepare_frame: "bc_prepare conn q w = (x, w') \<Longrightarrow> (durable w' k \<longleftrightarrow> durable w k) \<and> (held w' k \<longleftrightarrow> held w k)"
    and append_frame: "bc_append conn b vals w = (err, w') \<Longrightarrow> (durable w' k \<longleftrightarrow> durable w k) \<and> (held w' k \<longleftrightarrow> held w k)"
    and send_frame: "bc_send conn b w = (err, w') \<Longrightarrow> (durable w' k \<longleftrightarrow> durable w k) \<and> (held w' k \<longleftrightarrow> held w k)"
    and abort_frame: "(durable (bc_abort conn b w) k \<longleftrightarrow> durable w k) \<and> (held (bc_abort conn b w) k \<longleftrightarrow> held w k)"
begin

abbreviation writer :: "('c, 'b, 'w) batch_writer" where
  "writer \<equiv> \<lparr>bw_router = prfx, bw_conn = conn, bw_guard = Some guard\<rparr>"

lemma write_claimed_event_frame:
  assumes "write_claimed_event sha enc writer e w = (err, w')"
  shows "(durable w' k \<longleftrightarrow> durable w k) \<and> (held w' k \<longleftrightarrow> held w k)"
proof (cases "route sha (Some prfx) e")
  case (Inl x)
  with assms show ?thesis by (auto simp: write_claimed_event_def)
next
  case (Inr t)
  obtain x w1 where p: "bc_prepare conn (build_event_insert_statement (tbl_physical t)) w = (x, w1)" by fastforce
  note f1 = prepare_frame [OF p, of k]
  show ?thesis
  proof (cases x)
    case (Inl err1)
    with assms Inr p f1 show ?thesis by (auto simp: write_claimed_event_def)
  next
    case batch: (Inr b)
    show ?thesis
    proof (cases "event_insert_values enc e")
      case (Inl err1)
      with assms Inr p batch f1 abort_frame [of b w1 k] show ?thesis by (auto simp: write_claimed_event_def)
    next
      case vals: (Inr vals)
      obtain y w2 where a: "bc_append conn b vals w1 = (y, w2)" by fastforce
      obtain z w3 where s: "bc_send conn b w2 = (z, w3)" by fastforce
      show ?thesis
        using assms Inr p batch vals a s f1 append_frame [OF a, of k] send_frame [OF s, of k]
          abort_frame [of b w2 k] abort_frame [of b w3 k]
        by (cases y; cases z) (auto simp: write_claimed_event_def)
    qed
  qed
qed

lemma rollback_write_keeps:
  assumes "rollback_write guard c cause w = (err, w')" and "k \<noteq> claim_key c"
  shows "durable w' k \<longleftrightarrow> durable w k"
  using assms rollback_keeps [of c cause w _ w' k]
  by (auto simp: rollback_write_def split: prod.splits option.splits)

lemma batch_write_new:
  assumes "batch_write sha enc (Some writer) e w = (Inr True, w')"
  shows "\<not> durable w (status_key_of e) \<and> durable w' (status_key_of e)"
  using assms
proof (cases rule: batch_write_cases)
  case (sent c w1 w2 co)
  from start_claim [OF sent(1)] have c: "claim_key c = status_key_of e" "wg_already guard c \<longleftrightarrow> durable w (status_key_of e)" "held w1 (status_key_of e)"
    by auto
  from sent(5) have co: "co = None" by (cases co) auto
  have "held w2 (claim_key c)" using c write_claimed_event_frame [OF sent(3), of "status_key_of e"] by simp
  with sent(2,4) co c show ?thesis using commit_durable [of c w2 w'] by simp
qed auto

lemma batch_write_keeps:
  assumes "batch_write sha enc (Some writer) e w = (r, w')" and "durable w k"
  shows "durable w' k"
  using assms(1)
proof (cases rule: batch_write_cases)
  case (refused err)
  with assms(2) show ?thesis by simp
next
  case (unclaimed err x)
  with assms(2) show ?thesis using start_keeps [of e w x w' k] by simp
next
  case (duplicate c)
  with assms(2) show ?thesis using start_keeps [of e w "Inr (Some c)" w' k] by simp
next
  case (failed c w1 err w2 err')
  have "claim_key c \<noteq> k" using start_claim [OF failed(1)] failed(2) assms(2) by auto
  then show ?thesis
    using assms(2) start_keeps [OF failed(1), of k] write_claimed_event_frame [OF failed(3), of k]
      rollback_write_keeps [OF failed(4), of k] by auto
next
  case (sent c w1 w2 co)
  then show ?thesis
    using assms(2) start_keeps [OF sent(1), of k] write_claimed_event_frame [OF sent(3), of k]
      commit_keeps [OF sent(4), of k] by simp
qed

end

sublocale guarded_batch_writer \<subseteq> batches: event_writer "batch_write sha enc (Some writer)" durable
proof (rule event_writer.intro)
  fix e w w'
  assume "batch_write sha enc (Some writer) e w = (Inr True, w')"
  then show "\<not> durable w (status_key_of e) \<and> durable w' (status_key_of e)" by (rule batch_write_new)
next
  fix e w w'
  assume "batch_write sha enc (Some writer) e w = (Inr False, w')"
  then show "durable w (status_key_of e)"
  proof (cases rule: batch_write_cases)
    case (duplicate c)
    with start_claim [OF duplicate(2)] show ?thesis by simp
  next
    case (sent c w1 w2 co)
    then show ?thesis by (cases co) auto
  qed auto
next
  fix e w r w' k
  assume "batch_write sha enc (Some writer) e w = (r, w')" "durable w k"
  then show "durable w' k" by (rule batch_write_keeps)
qed

context guarded_batch_writer
begin

lemma writer_contract: "event_writer (batch_write sha enc (Some writer)) durable"
  by (rule batches.event_writer_axioms)

end

end
