(* ===== verification/Ingestion.thy ===== *)
theory Ingestion
  imports Storage_Writers
begin

text \<open>
  Package \<open>ingestion\<close>: the worker between an event bus and an event writer. The bus is its \<open>Subscribe\<close>,
  a function of the group and the handler on a world; the handler may be called any number of times.

  The lemmas show that a handler call without an error means that the event is durable, whatever the bus
  does between the calls.
\<close>

type_synonym 'w handler_fn = "message \<Rightarrow> 'w \<Rightarrow> go_error option \<times> 'w"
type_synonym 'w subscribe_fn = "consumer_group \<Rightarrow> 'w handler_fn \<Rightarrow> 'w \<Rightarrow> go_error option \<times> 'w"

record 'w processor =
  ip_subscribe :: "'w subscribe_fn"
  ip_group :: consumer_group
  ip_store :: "'w event_writer_fn"

definition new_processor ::
  "'w subscribe_fn option \<Rightarrow> consumer_group \<Rightarrow> 'w event_writer_fn option \<Rightarrow> go_error + 'w processor" where
  "new_processor bus grp store =
     (case bus of
        None \<Rightarrow> Inl (ErrText ''event bus is required'')
      | Some sub \<Rightarrow>
          if cg_name grp = [] then Inl (ErrText ''consumer group name is required'')
          else if cg_consumer grp = [] then Inl (ErrText ''consumer name is required'')
          else
            (case store of
               None \<Rightarrow> Inl (ErrText ''event store is required'')
             | Some st \<Rightarrow> Inr \<lparr>ip_subscribe = sub, ip_group = grp, ip_store = st\<rparr>))"

definition processor_handle :: "'w processor \<Rightarrow> 'w handler_fn" where
  "processor_handle p msg w =
     (case ip_store p (msg_envelope msg) w of
        (Inl err, w1) \<Rightarrow> (Some err, w1)
      | (Inr inserted, w1) \<Rightarrow> (None, w1))"

definition processor_run :: "'w processor \<Rightarrow> 'w \<Rightarrow> go_error option \<times> 'w" where
  "processor_run p w = ip_subscribe p (ip_group p) (processor_handle p) w"

text \<open>A bus that hands messages to the handler, one call after the other, and records the answers.\<close>

fun feed :: "'w handler_fn \<Rightarrow> message list \<Rightarrow> 'w \<Rightarrow> (message \<times> go_error option) list \<times> 'w" where
  "feed h [] w = ([], w)"
| "feed h (m # ms) w = (case h m w of (r, w1) \<Rightarrow> apfst ((#) (m, r)) (feed h ms w1))"

lemma feed_write_all:
  "feed (processor_handle p) ms w =
     (map2 (\<lambda>m (e, r). (m, case r of Inl err \<Rightarrow> Some err | Inr b \<Rightarrow> None)) ms
        (fst (write_all (ip_store p) (map msg_envelope ms) w)),
      snd (write_all (ip_store p) (map msg_envelope ms) w))"
  by (induction ms arbitrary: w) (auto simp: processor_handle_def split: sum.splits prod.splits)

lemma length_write_all [simp]: "length (fst (write_all store es w)) = length es"
  by (induction es arbitrary: w) (auto split: prod.splits)

lemma write_all_events: "map fst (fst (write_all store es w)) = es"
  by (induction es arbitrary: w) (auto split: prod.splits)

context event_writer
begin

lemma fed_durable:
  assumes "(m, None) \<in> set (fst (feed (processor_handle \<lparr>ip_subscribe = sub, ip_group = grp, ip_store = store\<rparr>) ms w))"
  shows "durable (snd (feed (processor_handle \<lparr>ip_subscribe = sub, ip_group = grp, ip_store = store\<rparr>) ms w))
    (status_key_of (msg_envelope m))"
  using assms
proof (induction ms arbitrary: w)
  case (Cons m1 ms)
  obtain x w1 where s: "store (msg_envelope m1) w = (x, w1)" by fastforce
  let ?h = "processor_handle \<lparr>ip_subscribe = sub, ip_group = grp, ip_store = store\<rparr>"
  have keep: "durable w1 k \<Longrightarrow> durable (snd (feed ?h ms w1)) k" for k
    using all_keeps [of w1 k "map msg_envelope ms"] by (simp add: feed_write_all)
  have fed: "feed ?h (m1 # ms) w = ((m1, case x of Inl err \<Rightarrow> Some err | Inr b \<Rightarrow> None) # fst (feed ?h ms w1), snd (feed ?h ms w1))"
    using s by (cases x) (simp_all add: processor_handle_def apfst_def map_prod_def split: prod.splits)
  from Cons.prems [unfolded fed] consider "m = m1" "\<exists>b. x = Inr b" | "(m, None) \<in> set (fst (feed ?h ms w1))"
    by (cases x) auto
  then show ?case
  proof cases
    case 1
    then obtain b where "x = Inr b" by blast
    with s 1 acknowledged_durable have "durable w1 (status_key_of (msg_envelope m))" by simp
    then show ?thesis unfolding fed by (simp add: keep)
  next
    case 2
    from Cons.IH [OF this] show ?thesis unfolding fed by simp
  qed
qed simp

end

end
