(* ===== verification/Storage_Pipeline.thy ===== *)
theory Storage_Pipeline
  imports MySQL_Guards ClickHouse_Writers Ingestion
begin

text \<open>
  The storage side of ingestion put together the way the packages are meant to be composed: the
  ClickHouse batch writer under the MySQL event guard, inside the property indexing decorator with its
  own guard and the ClickHouse property writer, inside the cataloging decorator, driven by the ingestion
  processor.

  The world has one component per external system: the two status tables, the catalog table, and the log
  of all calls to ClickHouse, newest first. ClickHouse answers from its log by an arbitrary \<open>ch_env\<close>; the
  status tables are any database that meets \<open>status_table\<close>.

  The lemmas show end to end that an acknowledged event is in ClickHouse and committed, that it is
  counted as inserted at most once, and what is left behind on every error branch.
\<close>

section \<open>The world\<close>

datatype ch_call =
    CPrepared string "go_error option"
  | CAppended nat "sql_value list" "go_error option"
  | CSent nat "go_error option"
  | CAborted nat

record ch_env =
  ce_prepare :: "ch_call list \<Rightarrow> string \<Rightarrow> go_error option"
  ce_append :: "ch_call list \<Rightarrow> nat \<Rightarrow> sql_value list \<Rightarrow> go_error option"
  ce_send :: "ch_call list \<Rightarrow> nat \<Rightarrow> go_error option"

record ('d, 'k) store_world =
  sw_events :: 'd
  sw_props :: 'd
  sw_catalog :: 'k
  sw_log :: "ch_call list"

text \<open>A batch is named by the length of the log when it was opened.\<close>

definition ch_conn :: "ch_env \<Rightarrow> (nat, ('d, 'k) store_world) batch_conn" where
  "ch_conn env =
     \<lparr>bc_prepare = (\<lambda>q w. case ce_prepare env (sw_log w) q of
          Some err \<Rightarrow> (Inl err, w\<lparr>sw_log := CPrepared q (Some err) # sw_log w\<rparr>)
        | None \<Rightarrow> (Inr (length (sw_log w)), w\<lparr>sw_log := CPrepared q None # sw_log w\<rparr>)),
      bc_append = (\<lambda>b vals w. let r = ce_append env (sw_log w) b vals in (r, w\<lparr>sw_log := CAppended b vals r # sw_log w\<rparr>)),
      bc_send = (\<lambda>b w. let r = ce_send env (sw_log w) b in (r, w\<lparr>sw_log := CSent b r # sw_log w\<rparr>)),
      bc_abort = (\<lambda>b w. w\<lparr>sw_log := CAborted b # sw_log w\<rparr>)\<rparr>"

definition on_events :: "('d \<Rightarrow> 'a \<times> 'd) \<Rightarrow> ('d, 'k) store_world \<Rightarrow> 'a \<times> ('d, 'k) store_world" where
  "on_events f w = (case f (sw_events w) of (x, d) \<Rightarrow> (x, w\<lparr>sw_events := d\<rparr>))"

definition on_props :: "('d \<Rightarrow> 'a \<times> 'd) \<Rightarrow> ('d, 'k) store_world \<Rightarrow> 'a \<times> ('d, 'k) store_world" where
  "on_props f w = (case f (sw_props w) of (x, d) \<Rightarrow> (x, w\<lparr>sw_props := d\<rparr>))"

definition on_catalog :: "('k \<Rightarrow> 'a \<times> 'k) \<Rightarrow> ('d, 'k) store_world \<Rightarrow> 'a \<times> ('d, 'k) store_world" where
  "on_catalog f w = (case f (sw_catalog w) of (x, k) \<Rightarrow> (x, w\<lparr>sw_catalog := k\<rparr>))"

definition events_guard :: "'d status_db \<Rightarrow> (status_claim, ('d, 'k) store_world) write_guard" where
  "events_guard db =
     \<lparr>wg_start = (\<lambda>e. on_events (wg_start (event_guard db) e)), wg_already = wg_already (event_guard db),
      wg_commit = (\<lambda>c. on_events (wg_commit (event_guard db) c)),
      wg_rollback = (\<lambda>c cause. on_events (wg_rollback (event_guard db) c cause))\<rparr>"

definition props_guard :: "'d status_db \<Rightarrow> (status_claim, ('d, 'k) store_world) write_guard" where
  "props_guard db =
     \<lparr>wg_start = (\<lambda>e. on_props (wg_start (property_guard db) e)), wg_already = wg_already (property_guard db),
      wg_commit = (\<lambda>c. on_props (wg_commit (property_guard db) c)),
      wg_rollback = (\<lambda>c cause. on_props (wg_rollback (property_guard db) c cause))\<rparr>"

section \<open>The composed writer\<close>

record ('d, 'k) deployment =
  dp_db :: "'d status_db"
  dp_env :: ch_env
  dp_upsert :: "property_catalog_entry list \<Rightarrow> 'k \<Rightarrow> (go_error + nat) \<times> 'k"
  dp_sha :: "string \<Rightarrow> 256 word"
  dp_enc :: "props \<Rightarrow> go_error + string"
  dp_pf :: "string \<Rightarrow> go_float option"
  dp_visit :: "string list \<Rightarrow> string list"
  dp_prefix :: string

definition event_batches :: "('d, 'k) deployment \<Rightarrow> (status_claim, nat, ('d, 'k) store_world) batch_writer" where
  "event_batches dp =
     \<lparr>bw_router = dp_prefix dp, bw_conn = ch_conn (dp_env dp), bw_guard = Some (events_guard (dp_db dp))\<rparr>"

definition store_event :: "('d, 'k) deployment \<Rightarrow> ('d, 'k) store_world event_writer_fn" where
  "store_event dp = batch_write (dp_sha dp) (dp_enc dp) (Some (event_batches dp))"

definition store_properties :: "('d, 'k) deployment \<Rightarrow> ('d, 'k) store_world property_writer_fn" where
  "store_properties dp =
     write_event_properties (dp_sha dp) (dp_visit dp) (Some \<lparr>pw_router = dp_prefix dp, pw_conn = ch_conn (dp_env dp)\<rparr>)"

definition store_indexed :: "('d, 'k) deployment \<Rightarrow> ('d, 'k) store_world event_writer_fn" where
  "store_indexed dp =
     indexing_write (dp_pf dp)
       (Some \<lparr>iw_events = store_event dp, iw_properties = store_properties dp, iw_guard = props_guard (dp_db dp)\<rparr>)"

definition store_cataloged :: "('d, 'k) deployment \<Rightarrow> ('d, 'k) store_world event_writer_fn" where
  "store_cataloged dp =
     cataloging_write (dp_pf dp)
       (Some \<lparr>cw_events = store_indexed dp, cw_catalog = (\<lambda>es. on_catalog (dp_upsert dp es))\<rparr>)"

section \<open>Contracts of the composed writer\<close>

definition event_durable :: "('d \<Rightarrow> status_key \<Rightarrow> status_row option) \<Rightarrow> ('d, 'k) store_world \<Rightarrow> status_key \<Rightarrow> bool" where
  "event_durable rows w k \<longleftrightarrow> committed rows (sw_events w) k"

definition event_held :: "('d \<Rightarrow> status_key \<Rightarrow> status_row option) \<Rightarrow> ('d, 'k) store_world \<Rightarrow> status_key \<Rightarrow> bool" where
  "event_held rows w k \<longleftrightarrow> tracked rows (sw_events w) k"

lemma on_events_frame:
  assumes "on_events f w = (x, w')"
  shows "f (sw_events w) = (x, sw_events w') \<and> sw_props w' = sw_props w \<and> sw_catalog w' = sw_catalog w \<and> sw_log w' = sw_log w"
  using assms by (auto simp: on_events_def split: prod.splits)

lemma on_props_frame:
  assumes "on_props f w = (x, w')"
  shows "f (sw_props w) = (x, sw_props w') \<and> sw_events w' = sw_events w \<and> sw_catalog w' = sw_catalog w \<and> sw_log w' = sw_log w"
  using assms by (auto simp: on_props_def split: prod.splits)

lemma on_catalog_frame:
  assumes "on_catalog f w = (x, w')"
  shows "sw_events w' = sw_events w \<and> sw_props w' = sw_props w \<and> sw_log w' = sw_log w"
  using assms by (auto simp: on_catalog_def split: prod.splits)

lemma ch_prepare_frame:
  assumes "bc_prepare (ch_conn env) q w = (x, w')"
  shows "\<exists>r. w' = w\<lparr>sw_log := CPrepared q r # sw_log w\<rparr> \<and> (x = (case r of Some err \<Rightarrow> Inl err | None \<Rightarrow> Inr (length (sw_log w))))"
  using assms by (auto simp: ch_conn_def split: option.splits)

lemma ch_append_frame: "bc_append (ch_conn env) b vals w = (r, w') \<Longrightarrow> w' = w\<lparr>sw_log := CAppended b vals r # sw_log w\<rparr>"
  by (auto simp: ch_conn_def Let_def)

lemma ch_send_frame: "bc_send (ch_conn env) b w = (r, w') \<Longrightarrow> w' = w\<lparr>sw_log := CSent b r # sw_log w\<rparr>"
  by (auto simp: ch_conn_def Let_def)

lemma ch_abort_frame: "bc_abort (ch_conn env) b w = w\<lparr>sw_log := CAborted b # sw_log w\<rparr>"
  by (simp add: ch_conn_def)

lemma events_guard_contract:
  assumes c: "write_guard_contract (event_guard db) (committed rows) (tracked rows) sc_key"
  shows "write_guard_contract (events_guard db) (event_durable rows) (event_held rows) sc_key"
proof (rule write_guard_contract.intro)
  fix e w cl w'
  assume "wg_start (events_guard db) e w = (Inr (Some cl), w')"
  then have "on_events (wg_start (event_guard db) e) w = (Inr (Some cl), w')" by (simp add: events_guard_def)
  from write_guard_contract.start_claim [OF c conjunct1 [OF on_events_frame [OF this]]]
  show "sc_key cl = status_key_of e \<and> (wg_already (events_guard db) cl \<longleftrightarrow> event_durable rows w (status_key_of e)) \<and> event_held rows w' (status_key_of e)"
    by (simp add: events_guard_def event_durable_def event_held_def)
next
  fix e w x w' k
  assume "wg_start (events_guard db) e w = (x, w')"
  then have "on_events (wg_start (event_guard db) e) w = (x, w')" by (simp add: events_guard_def)
  from write_guard_contract.start_keeps [OF c conjunct1 [OF on_events_frame [OF this]]]
  show "event_durable rows w' k \<longleftrightarrow> event_durable rows w k" by (simp add: event_durable_def)
next
  fix cl w w'
  assume "wg_commit (events_guard db) cl w = (None, w')" and "\<not> wg_already (events_guard db) cl" "event_held rows w (sc_key cl)"
  then have o: "on_events (wg_commit (event_guard db) cl) w = (None, w')" and h: "\<not> wg_already (event_guard db) cl" "tracked rows (sw_events w) (sc_key cl)"
    by (simp_all add: events_guard_def event_held_def)
  from write_guard_contract.commit_durable [OF c conjunct1 [OF on_events_frame [OF o]] h]
  show "event_durable rows w' (sc_key cl)" by (simp add: event_durable_def)
next
  fix cl w err w' k
  assume "wg_commit (events_guard db) cl w = (err, w')" and "event_durable rows w k"
  then have o: "on_events (wg_commit (event_guard db) cl) w = (err, w')" and h: "committed rows (sw_events w) k"
    by (simp_all add: events_guard_def event_durable_def)
  from write_guard_contract.commit_keeps [OF c conjunct1 [OF on_events_frame [OF o]] h]
  show "event_durable rows w' k" by (simp add: event_durable_def)
next
  fix cl w err w' k
  assume "wg_commit (events_guard db) cl w = (err, w')" and "event_durable rows w' k"
  then have o: "on_events (wg_commit (event_guard db) cl) w = (err, w')" and h: "committed rows (sw_events w') k"
    by (simp_all add: events_guard_def event_durable_def)
  from write_guard_contract.commit_only [OF c conjunct1 [OF on_events_frame [OF o]] h]
  show "event_durable rows w k \<or> k = sc_key cl" by (simp add: event_durable_def)
next
  fix cl cause w err w' k
  assume "wg_rollback (events_guard db) cl cause w = (err, w')" and "event_durable rows w' k"
  then have o: "on_events (wg_rollback (event_guard db) cl cause) w = (err, w')" and h: "committed rows (sw_events w') k"
    by (simp_all add: events_guard_def event_durable_def)
  from write_guard_contract.rollback_only [OF c conjunct1 [OF on_events_frame [OF o]] h]
  show "event_durable rows w k" by (simp add: event_durable_def)
next
  fix cl cause w err w' k
  assume "wg_rollback (events_guard db) cl cause w = (err, w')" and k: "k \<noteq> sc_key cl"
  then have o: "on_events (wg_rollback (event_guard db) cl cause) w = (err, w')" by (simp add: events_guard_def)
  from write_guard_contract.rollback_keeps [OF c conjunct1 [OF on_events_frame [OF o]] k]
  show "event_durable rows w' k \<longleftrightarrow> event_durable rows w k" by (simp add: event_durable_def)
qed

lemma event_batches_contract:
  fixes rows :: "'d \<Rightarrow> status_key \<Rightarrow> status_row option"
  assumes "write_guard_contract (event_guard db) (committed rows) (tracked rows) sc_key"
  shows "guarded_batch_writer (events_guard db) (event_durable rows :: ('d, 'k) store_world \<Rightarrow> _) (event_held rows) sc_key (ch_conn env)"
proof (rule guarded_batch_writer.intro)
  show "write_guard_contract (events_guard db) (event_durable rows) (event_held rows) sc_key"
    using assms by (rule events_guard_contract)
  show "guarded_batch_writer_axioms (event_durable rows :: ('d, 'k) store_world \<Rightarrow> _) (event_held rows) (ch_conn env)"
  proof
    fix q x k and w w' :: "('d, 'k) store_world"
    assume "bc_prepare (ch_conn env) q w = (x, w')"
    then show "(event_durable rows w' k \<longleftrightarrow> event_durable rows w k) \<and> (event_held rows w' k \<longleftrightarrow> event_held rows w k)"
      by (auto simp: event_durable_def event_held_def dest: ch_prepare_frame)
  next
    fix b vals err k and w w' :: "('d, 'k) store_world"
    assume "bc_append (ch_conn env) b vals w = (err, w')"
    then show "(event_durable rows w' k \<longleftrightarrow> event_durable rows w k) \<and> (event_held rows w' k \<longleftrightarrow> event_held rows w k)"
      by (auto simp: event_durable_def event_held_def dest: ch_append_frame)
  next
    fix b err k and w w' :: "('d, 'k) store_world"
    assume "bc_send (ch_conn env) b w = (err, w')"
    then show "(event_durable rows w' k \<longleftrightarrow> event_durable rows w k) \<and> (event_held rows w' k \<longleftrightarrow> event_held rows w k)"
      by (auto simp: event_durable_def event_held_def dest: ch_send_frame)
  next
    fix b k and w :: "('d, 'k) store_world"
    show "(event_durable rows (bc_abort (ch_conn env) b w) k \<longleftrightarrow> event_durable rows w k) \<and>
        (event_held rows (bc_abort (ch_conn env) b w) k \<longleftrightarrow> event_held rows w k)"
      by (simp add: event_durable_def event_held_def ch_abort_frame)
  qed
qed

interpretation stored: guarded_batch_writer "events_guard table_db" "event_durable tb_rows" "event_held tb_rows" sc_key
    "ch_conn env" sha enc prfx
  for env sha enc prfx
  by (rule event_batches_contract, rule table.event_guard_contract)

lemma store_event_contract:
  assumes "status_table (dp_db dp) rows"
  shows "event_writer (store_event dp) (event_durable rows)"
  unfolding store_event_def event_batches_def
  by (rule guarded_batch_writer.writer_contract, rule event_batches_contract,
      rule status_table.event_guard_contract [OF assms])

text \<open>The ClickHouse side of the property writer only extends the log.\<close>

definition only_logs :: "('d, 'k) store_world \<Rightarrow> ('d, 'k) store_world \<Rightarrow> bool" where
  "only_logs w w' \<longleftrightarrow> (\<exists>calls. w' = w\<lparr>sw_log := calls @ sw_log w\<rparr>)"

lemma only_logs_refl: "only_logs w w"
  by (auto simp: only_logs_def intro: exI [of _ "[]"])

lemma only_logs_trans: "only_logs w1 w2 \<Longrightarrow> only_logs w2 w3 \<Longrightarrow> only_logs w1 w3"
  by (auto simp: only_logs_def) (metis append_assoc)

lemma only_logs_step: "only_logs w (w\<lparr>sw_log := c # sw_log w\<rparr>)"
  by (auto simp: only_logs_def intro: exI [of _ "[c]"])

lemma ch_only_logs:
  "bc_prepare (ch_conn env) q w = (x, w') \<Longrightarrow> only_logs w w'"
  "bc_append (ch_conn env) b vals w = (r, w') \<Longrightarrow> only_logs w w'"
  "bc_send (ch_conn env) b w = (r, w') \<Longrightarrow> only_logs w w'"
  "only_logs w (bc_abort (ch_conn env) b w)"
  by (auto simp: ch_abort_frame dest: ch_prepare_frame ch_append_frame ch_send_frame intro: only_logs_step)

lemma append_records_only_logs: "append_records (ch_conn env) b rs w = (r, w') \<Longrightarrow> only_logs w w'"
proof (induction rs arbitrary: w)
  case (Cons x rs)
  obtain y w1 where a: "bc_append (ch_conn env) b (property_insert_values x) w = (y, w1)" by fastforce
  note l1 = ch_only_logs(2) [OF a]
  show ?case
  proof (cases y)
    case None
    with Cons a l1 show ?thesis by (auto intro: only_logs_trans)
  next
    case (Some err)
    with Cons.prems a have "w' = bc_abort (ch_conn env) b w1" by simp
    with l1 ch_only_logs(4) show ?thesis by (auto intro: only_logs_trans)
  qed
qed (simp add: only_logs_refl)

lemma write_property_group_only_logs:
  assumes "write_property_group (ch_conn env) name rs w = (r, w')"
  shows "only_logs w w'"
proof -
  obtain x w1 where p: "bc_prepare (ch_conn env) (build_property_insert_statement name) w = (x, w1)" by fastforce
  note l1 = ch_only_logs(1) [OF p]
  show ?thesis
  proof (cases x)
    case (Inl err)
    with assms p l1 show ?thesis by (simp add: write_property_group_def)
  next
    case (Inr b)
    obtain y w2 where a: "append_records (ch_conn env) b rs w1 = (y, w2)" by fastforce
    obtain z w3 where s: "bc_send (ch_conn env) b w2 = (z, w3)" by fastforce
    note l2 = append_records_only_logs [OF a] and l3 = ch_only_logs(3) [OF s] and l4 = ch_only_logs(4) [of w3 env b]
    from assms p Inr a s have "w' = (if y \<noteq> None then w2 else if z \<noteq> None then bc_abort (ch_conn env) b w3 else w3)"
      by (cases y; cases z) (auto simp: write_property_group_def)
    with l1 l2 l3 l4 show ?thesis by (auto intro: only_logs_trans)
  qed
qed

lemma write_groups_only_logs: "write_groups (ch_conn env) gs names n w = (r, w') \<Longrightarrow> only_logs w w'"
proof (induction names arbitrary: n w)
  case (Cons name names)
  obtain y w1 where g: "write_property_group (ch_conn env) name (case map_of gs name of None \<Rightarrow> [] | Some xs \<Rightarrow> xs) w = (y, w1)"
    by fastforce
  note l1 = write_property_group_only_logs [OF g]
  with Cons g show ?case by (cases y) (auto intro: only_logs_trans)
qed (simp add: only_logs_refl)

lemma store_properties_only_logs: "store_properties dp rs w = (r, w') \<Longrightarrow> only_logs w w'"
  by (auto simp: store_properties_def write_event_properties_def only_logs_refl
      split: if_splits sum.splits intro: write_groups_only_logs)

lemma only_logs_frame: "only_logs w w' \<Longrightarrow> event_durable rows w' k \<longleftrightarrow> event_durable rows w k"
  by (auto simp: only_logs_def event_durable_def)

lemma props_guard_frame:
  "wg_start (props_guard db) e w = (x, w') \<Longrightarrow> sw_events w' = sw_events w \<and> sw_log w' = sw_log w"
  "wg_commit (props_guard db) c w = (r, w') \<Longrightarrow> sw_events w' = sw_events w \<and> sw_log w' = sw_log w"
  "wg_rollback (props_guard db) c cause w = (r, w') \<Longrightarrow> sw_events w' = sw_events w \<and> sw_log w' = sw_log w"
  by (auto simp: props_guard_def dest: on_props_frame)

lemma indexed_contract:
  assumes "event_writer (store_event dp) (event_durable rows)"
  shows "indexed_writer (store_event dp) (event_durable rows) (props_guard (dp_db dp)) (store_properties dp)"
proof (rule indexed_writer.intro [OF assms])
  show "indexed_writer_axioms (event_durable rows) (props_guard (dp_db dp)) (store_properties dp)"
    by standard
      (auto simp: event_durable_def dest: props_guard_frame store_properties_only_logs
        only_logs_frame [where rows = rows, unfolded event_durable_def])
qed

lemma cataloged_contract:
  assumes "event_writer (store_indexed dp) (event_durable rows)"
  shows "cataloged_writer (store_indexed dp) (event_durable rows) (\<lambda>es. on_catalog (dp_upsert dp es))"
proof (rule cataloged_writer.intro [OF assms])
  show "cataloged_writer_axioms (event_durable rows) (\<lambda>es. on_catalog (dp_upsert dp es))"
    by standard (auto simp: event_durable_def dest: on_catalog_frame)
qed

lemma store_indexed_contract:
  "event_writer (store_event dp) (event_durable rows) \<Longrightarrow> event_writer (store_indexed dp) (event_durable rows)"
  unfolding store_indexed_def by (rule indexed_writer.indexing_contract) (rule indexed_contract)

lemma store_cataloged_contract:
  "event_writer (store_indexed dp) (event_durable rows) \<Longrightarrow> event_writer (store_cataloged dp) (event_durable rows)"
  unfolding store_cataloged_def by (rule cataloged_writer.cataloging_contract) (rule cataloged_contract)

lemma pipeline_contract: "status_table (dp_db dp) rows \<Longrightarrow> event_writer (store_cataloged dp) (event_durable rows)"
  by (intro store_cataloged_contract store_indexed_contract store_event_contract)

definition on_table :: "(status_row table_state, 'k) deployment \<Rightarrow> (status_row table_state, 'k) deployment" where
  "on_table dp = dp\<lparr>dp_db := table_db\<rparr>"

lemma on_table_contract: "status_table (dp_db (on_table dp)) tb_rows"
  by (simp add: on_table_def table_db_contract)

interpretation indexed: indexed_writer "store_event (on_table dp)" "event_durable tb_rows"
    "props_guard (dp_db (on_table dp))" "store_properties (on_table dp)" pf for dp pf
  by (intro indexed_contract store_event_contract on_table_contract)

interpretation cataloged: cataloged_writer "store_indexed (on_table dp)" "event_durable tb_rows"
    "\<lambda>es. on_catalog (dp_upsert (on_table dp) es)" pf for dp pf
  by (intro cataloged_contract store_indexed_contract store_event_contract on_table_contract)

interpretation pipeline: event_writer "store_cataloged (on_table dp)" "event_durable tb_rows" for dp
  by (intro pipeline_contract on_table_contract)

section \<open>What reaches ClickHouse\<close>

text \<open>The calls of one successful append: newest first.\<close>

definition append_calls :: "string \<Rightarrow> nat \<Rightarrow> sql_value list \<Rightarrow> ch_call list" where
  "append_calls q b vals = [CSent b None, CAppended b vals None, CPrepared q None]"

fun sends :: "ch_call list \<Rightarrow> nat" where
  "sends [] = 0"
| "sends (CSent b None # calls) = Suc (sends calls)"
| "sends (_ # calls) = sends calls"

definition stored_row :: "('d, 'k) deployment \<Rightarrow> ch_call list \<Rightarrow> status_key \<Rightarrow> bool" where
  "stored_row dp calls k \<longleftrightarrow>
     (\<exists>e t vals newer older. status_key_of e = k \<and> route (dp_sha dp) (Some (dp_prefix dp)) e = Inr t \<and>
        event_insert_values (dp_enc dp) e = Inr vals \<and>
        calls = newer @ append_calls (build_event_insert_statement (tbl_physical t)) (length older) vals @ older)"

lemma stored_row_append: "stored_row dp calls k \<Longrightarrow> stored_row dp (newer @ calls) k"
  unfolding stored_row_def by (metis append_assoc)

lemma write_claimed_event_calls:
  assumes "write_claimed_event sha enc \<lparr>bw_router = prfx, bw_conn = ch_conn env, bw_guard = g\<rparr> e w = (r, w')"
  shows "\<exists>calls. w' = w\<lparr>sw_log := calls @ sw_log w\<rparr> \<and>
    (r = None \<longrightarrow> (\<exists>t vals. route sha (Some prfx) e = Inr t \<and> event_insert_values enc e = Inr vals \<and>
       calls = append_calls (build_event_insert_statement (tbl_physical t)) (length (sw_log w)) vals)) \<and>
    (r \<noteq> None \<longrightarrow> sends calls = 0 \<and>
       (calls = [] \<or> (\<exists>q err. calls = [CPrepared q (Some err)]) \<or> hd calls = CAborted (length (sw_log w))))"
proof (cases "route sha (Some prfx) e")
  case (Inl err)
  with assms show ?thesis by (auto simp: write_claimed_event_def intro!: exI [of _ "[]"])
next
  case (Inr t)
  let ?q = "build_event_insert_statement (tbl_physical t)"
  let ?b = "length (sw_log w)"
  show ?thesis
  proof (cases "ce_prepare env (sw_log w) ?q")
    case (Some err)
    with assms Inr show ?thesis
      by (auto simp: write_claimed_event_def ch_conn_def intro!: exI [of _ "[CPrepared ?q (Some err)]"])
  next
    case None
    let ?w1 = "w\<lparr>sw_log := CPrepared ?q None # sw_log w\<rparr>"
    have p: "bc_prepare (ch_conn env) ?q w = (Inr ?b, ?w1)" using None by (simp add: ch_conn_def)
    show ?thesis
    proof (cases "event_insert_values enc e")
      case (Inl err)
      with assms Inr p show ?thesis
        by (auto simp: write_claimed_event_def ch_abort_frame intro!: exI [of _ "[CAborted ?b, CPrepared ?q None]"])
    next
      case vals: (Inr vals)
      obtain y w2 where a: "bc_append (ch_conn env) ?b vals ?w1 = (y, w2)" by fastforce
      obtain z w3 where s: "bc_send (ch_conn env) ?b w2 = (z, w3)" by fastforce
      have w2: "w2 = w\<lparr>sw_log := [CAppended ?b vals y, CPrepared ?q None] @ sw_log w\<rparr>"
        using ch_append_frame [OF a] by simp
      have w3: "w3 = w\<lparr>sw_log := [CSent ?b z, CAppended ?b vals y, CPrepared ?q None] @ sw_log w\<rparr>"
        using ch_send_frame [OF s] w2 by simp
      show ?thesis
      proof (cases y)
        case (Some err)
        with assms Inr p vals a w2 show ?thesis
          by (auto simp: write_claimed_event_def ch_abort_frame
              intro!: exI [of _ "[CAborted ?b, CAppended ?b vals y, CPrepared ?q None]"])
      next
        case y: None
        show ?thesis
        proof (cases z)
          case (Some err)
          with assms Inr p vals a y s w3 show ?thesis
            by (auto simp: write_claimed_event_def ch_abort_frame
                intro!: exI [of _ "[CAborted ?b, CSent ?b z, CAppended ?b vals None, CPrepared ?q None]"])
        next
          case None
          with assms Inr p vals a y s w3 show ?thesis
            by (auto simp: write_claimed_event_def append_calls_def
                intro!: exI [of _ "[CSent ?b None, CAppended ?b vals None, CPrepared ?q None]"])
        qed
      qed
    qed
  qed
qed
section \<open>From the checkpoint back to ClickHouse\<close>

text \<open>The world moves on: the log grows, and an event only becomes durable after its row was sent.\<close>

definition moves ::
  "('d, 'k) deployment \<Rightarrow> ('d \<Rightarrow> status_key \<Rightarrow> status_row option) \<Rightarrow> ('d, 'k) store_world \<Rightarrow> ('d, 'k) store_world \<Rightarrow> bool" where
  "moves dp rows w w' \<longleftrightarrow>
     (\<exists>calls. sw_log w' = calls @ sw_log w) \<and>
     (\<forall>k. event_durable rows w' k \<longrightarrow> event_durable rows w k \<or> stored_row dp (sw_log w') k)"

lemma moves_refl: "moves dp rows w w"
  by (simp add: moves_def)

lemma moves_trans:
  assumes "moves dp rows u v" and "moves dp rows v w"
  shows "moves dp rows u w"
proof -
  from assms obtain c1 c2 where c: "sw_log v = c1 @ sw_log u" "sw_log w = c2 @ sw_log v" by (auto simp: moves_def)
  have "stored_row dp (sw_log w) k" if "stored_row dp (sw_log v) k" for k
    using that by (simp add: c stored_row_append)
  with assms c show ?thesis unfolding moves_def by (metis append_assoc)
qed

lemma moves_frame: "sw_events w' = sw_events w \<Longrightarrow> sw_log w' = calls @ sw_log w \<Longrightarrow> moves dp rows w w'"
  by (simp add: moves_def event_durable_def)

lemma moves_same: "sw_events w' = sw_events w \<and> sw_log w' = sw_log w \<Longrightarrow> moves dp rows w w'"
  by (simp add: moves_def event_durable_def)

lemma moves_only_logs: "only_logs w w' \<Longrightarrow> moves dp rows w w'"
  by (auto simp: only_logs_def moves_def event_durable_def)

lemma events_guard_log:
  "wg_start (events_guard db) e w = (x, w') \<Longrightarrow> sw_log w' = sw_log w"
  "wg_commit (events_guard db) c w = (r, w') \<Longrightarrow> sw_log w' = sw_log w"
  "wg_rollback (events_guard db) c cause w = (r, w') \<Longrightarrow> sw_log w' = sw_log w"
  by (auto simp: events_guard_def dest: on_events_frame)

lemma rollback_write_log: "rollback_write (events_guard db) c cause w = (r, w') \<Longrightarrow> sw_log w' = sw_log w"
  by (rule rollback_write_rel [where R = "\<lambda>w w'. sw_log w' = sw_log w"]) (auto dest: events_guard_log)

lemma rollback_write_durable:
  fixes w w' :: "('d, 'k) store_world"
  assumes "write_guard_contract (events_guard db) (event_durable rows :: ('d, 'k) store_world \<Rightarrow> _) (event_held rows) sc_key"
    and "rollback_write (events_guard db) c cause w = (r, w')" and "event_durable rows w' k"
  shows "event_durable rows w k"
proof -
  have "event_durable rows w' k \<longrightarrow> event_durable rows w k"
    by (rule rollback_write_rel [where R = "\<lambda>w w'. event_durable rows w' k \<longrightarrow> event_durable rows w k", OF _ assms(2)])
      (blast dest: write_guard_contract.rollback_only [OF assms(1)])
  with assms(3) show ?thesis by blast
qed

lemma store_event_outcome:
  assumes tbl: "status_table (dp_db dp) rows" and run: "store_event dp e w = (r, w')"
  shows "\<exists>calls. sw_log w' = calls @ sw_log w \<and>
    (r = Inr True \<longrightarrow> \<not> event_durable rows w (status_key_of e) \<and> event_durable rows w' (status_key_of e) \<and>
       (\<exists>t vals. route (dp_sha dp) (Some (dp_prefix dp)) e = Inr t \<and> event_insert_values (dp_enc dp) e = Inr vals \<and>
          calls = append_calls (build_event_insert_statement (tbl_physical t)) (length (sw_log w)) vals)) \<and>
    (r = Inr False \<longrightarrow> event_durable rows w (status_key_of e) \<and> calls = []) \<and>
    (\<forall>err. r = Inl err \<longrightarrow> sends calls = 0 \<or>
       (\<exists>c w2. wg_commit (events_guard (dp_db dp)) c w2 = (Some err, w') \<and> sends calls = 1)) \<and>
    (\<forall>k. event_durable rows w' k \<longrightarrow> event_durable rows w k \<or> stored_row dp (sw_log w') k)"
proof -
  have gc: "write_guard_contract (events_guard (dp_db dp)) (event_durable rows) (event_held rows) sc_key"
    by (rule events_guard_contract) (rule status_table.event_guard_contract [OF tbl])
  note writer = store_event_contract [OF tbl]
  show ?thesis
    using run [unfolded store_event_def event_batches_def]
  proof (cases rule: batch_write_cases)
    case (refused err)
    then show ?thesis by auto
  next
    case (unclaimed err x)
    then show ?thesis
      using events_guard_log(1) [OF unclaimed(2)] write_guard_contract.start_keeps [OF gc unclaimed(2)] by auto
  next
    case (duplicate c)
    then show ?thesis
      using events_guard_log(1) [OF duplicate(2)] write_guard_contract.start_keeps [OF gc duplicate(2)]
        event_writer.write_duplicate [OF writer] run by auto
  next
    case (failed c w1 err w2 err')
    from write_claimed_event_calls [OF failed(3)] obtain calls where
      calls: "w2 = w1\<lparr>sw_log := calls @ sw_log w1\<rparr>" "sends calls = 0" by auto
    have "event_durable rows w k" if "event_durable rows w' k" for k
    proof -
      have "event_durable rows w2 k" by (rule rollback_write_durable [OF gc failed(4) that])
      then have "event_durable rows w1 k" by (simp add: calls event_durable_def)
      then show ?thesis using write_guard_contract.start_keeps [OF gc failed(1)] by simp
    qed
    with calls failed(5) rollback_write_log [OF failed(4)] events_guard_log(1) [OF failed(1)] show ?thesis by auto
  next
    case (sent c w1 w2 co)
    from write_claimed_event_calls [OF sent(3)] obtain calls t vals where
      calls: "w2 = w1\<lparr>sw_log := calls @ sw_log w1\<rparr>" and
      row: "route (dp_sha dp) (Some (dp_prefix dp)) e = Inr t" "event_insert_values (dp_enc dp) e = Inr vals"
        "calls = append_calls (build_event_insert_statement (tbl_physical t)) (length (sw_log w1)) vals"
      by auto
    have log: "sw_log w' = calls @ sw_log w" "sw_log w1 = sw_log w"
      using calls events_guard_log(1) [OF sent(1)] events_guard_log(2) [OF sent(4)] by simp_all
    have key: "sc_key c = status_key_of e" using write_guard_contract.start_claim [OF gc sent(1)] by blast
    have stored: "stored_row dp (sw_log w') (status_key_of e)"
      unfolding stored_row_def log using row log(2) by (metis append_Nil)
    have "event_durable rows w k \<or> stored_row dp (sw_log w') k" if "event_durable rows w' k" for k
    proof -
      from write_guard_contract.commit_only [OF gc sent(4) that]
      consider "event_durable rows w2 k" | "k = status_key_of e" using key by blast
      then show ?thesis
      proof cases
        case 1
        then have "event_durable rows w1 k" by (simp add: calls event_durable_def)
        then show ?thesis using write_guard_contract.start_keeps [OF gc sent(1)] by simp
      next
        case 2
        with stored show ?thesis by simp
      qed
    qed
    moreover have "sends calls = 1" using row by (simp add: append_calls_def)
    moreover have "r = Inr True \<longrightarrow> \<not> event_durable rows w (status_key_of e) \<and> event_durable rows w' (status_key_of e)"
      using event_writer.write_new [OF writer] run by blast
    moreover have "r \<noteq> Inr False" using sent(5) by (cases co) auto
    ultimately show ?thesis
      using log row sent(4,5) by (cases co) auto
  qed
qed

lemma store_event_moves:
  assumes "status_table (dp_db dp) rows" and "store_event dp e w = (r, w')"
  shows "moves dp rows w w'"
  using store_event_outcome [OF assms] unfolding moves_def by blast

lemma pipeline_moves:
  assumes tbl: "status_table (dp_db dp) rows" and run: "store_cataloged dp e w = (r, w')"
  shows "moves dp rows w w'"
  using run unfolding store_cataloged_def
proof (rule cataloging_write_rel [where R = "moves dp rows", rotated 4])
  fix e w r w'
  assume "store_indexed dp e w = (r, w')"
  then show "moves dp rows w w'"
    unfolding store_indexed_def
    by (rule indexing_write_rel [where R = "moves dp rows", rotated 7])
      (auto intro: moves_refl store_event_moves [OF tbl] moves_only_logs store_properties_only_logs
        moves_same dest: props_guard_frame elim: moves_trans)
qed (auto intro: moves_refl moves_same dest: on_catalog_frame elim: moves_trans)

lemma feed_rel:
  assumes "\<And>w. R w w" and "\<And>u v w. R u v \<Longrightarrow> R v w \<Longrightarrow> R u w"
    and "\<And>e w r w'. ip_store p e w = (r, w') \<Longrightarrow> R w w'"
  shows "R w (snd (feed (processor_handle p) ms w))"
proof (induction ms arbitrary: w)
  case (Cons m ms)
  obtain x w1 where h: "processor_handle p m w = (x, w1)" by fastforce
  then obtain r where "ip_store p (msg_envelope m) w = (r, w1)"
    by (auto simp: processor_handle_def split: prod.splits sum.splits)
  with assms(3) have "R w w1" by blast
  with Cons.IH [of w1] h assms(2) show ?case by (auto split: prod.splits)
qed (simp add: assms(1))
section \<open>Properties\<close>


definition sample_dp :: "(status_row table_state, unit) deployment" where
  "sample_dp =
     \<lparr>dp_db = table_db, dp_env = \<lparr>ce_prepare = (\<lambda>_ _. None), ce_append = (\<lambda>_ _ _. None), ce_send = (\<lambda>_ _. None)\<rparr>,
      dp_upsert = (\<lambda>es k. (Inr (length es), k)), dp_sha = (\<lambda>_. 0), dp_enc = (\<lambda>_. Inr ''{}''),
      dp_pf = (\<lambda>_. None), dp_visit = (\<lambda>ks. ks), dp_prefix = ''events''\<rparr>"

definition sample_world :: "fault list \<Rightarrow> (status_row table_state, unit) store_world" where
  "sample_world faults =
     \<lparr>sw_events = empty_table faults, sw_props = empty_table [], sw_catalog = (), sw_log = []\<rparr>"

definition sample_delivery :: message where
  "sample_delivery =
     \<lparr>msg_id = ''1'', msg_topic = ''t'', msg_partition = 0, msg_offset = 0, msg_key = [], msg_attempt = 1,
      msg_envelope = sample_event\<rparr>"

definition sample_processor :: "(status_row table_state, unit) store_world processor" where
  "sample_processor =
     \<lparr>ip_subscribe = (\<lambda>_ _ w. (None, w)), ip_group = \<lparr>cg_name = ''g'', cg_consumer = ''c''\<rparr>, ip_store = store_cataloged sample_dp\<rparr>"

lemma sample_dp_table: "status_table (dp_db sample_dp) tb_rows"
  by (simp add: sample_dp_def table_db_contract)

lemma sample_world_empty: "\<not> event_durable tb_rows (sample_world faults) k"
  by (simp add: event_durable_def committed_def sample_world_def empty_table_def)

lemma sample_feed:
  "map snd (fst (feed (processor_handle sample_processor) [sample_delivery] (sample_world []))) = [None]"
  by code_simp


text \<open>
  C5. The complete writer reports an event as newly inserted at most once, over any sequence of
  deliveries and any failures of the databases, and not at all when it was committed before; once
  committed it stays committed.
\<close>

theorem inserted_at_most_once:
  assumes "status_table (dp_db dp) rows"
  shows "insertions k (fst (write_all (store_cataloged dp) es w)) \<le> 1 \<and>
    (event_durable rows w k \<longrightarrow> insertions k (fst (write_all (store_cataloged dp) es w)) = 0 \<and>
       event_durable rows (snd (write_all (store_cataloged dp) es w)) k)"
  using event_writer.writes_insert_once [OF pipeline_contract [OF assms]]
    event_writer.durable_no_insertion [OF pipeline_contract [OF assms]]
    event_writer.all_keeps [OF pipeline_contract [OF assms]] by blast

theorem inserted_at_most_once_witness:
  "insertions (status_key_of sample_event)
     (fst (write_all (store_cataloged sample_dp) [sample_event, sample_event] (sample_world [LosesReply]))) \<le> 1"
  using inserted_at_most_once [OF sample_dp_table] by blast

text \<open>
  C4. What one write of an event leaves in ClickHouse, on every branch: \<open>Inserted\<close> means that the event
  became durable and exactly one batch with its row was opened, filled and sent; a duplicate makes no
  call at all; an error means that nothing was sent successfully, with one exception: the row was sent
  and it was the commit of the checkpoint that reported the error.
\<close>

theorem event_write_outcome:
  assumes "status_table (dp_db dp) rows" and "store_event dp e w = (r, w')"
  shows "\<exists>calls. sw_log w' = calls @ sw_log w \<and>
    (r = Inr True \<longrightarrow> \<not> event_durable rows w (status_key_of e) \<and> event_durable rows w' (status_key_of e) \<and>
       (\<exists>t vals. route (dp_sha dp) (Some (dp_prefix dp)) e = Inr t \<and> event_insert_values (dp_enc dp) e = Inr vals \<and>
          calls = append_calls (build_event_insert_statement (tbl_physical t)) (length (sw_log w)) vals)) \<and>
    (r = Inr False \<longrightarrow> event_durable rows w (status_key_of e) \<and> calls = []) \<and>
    (\<forall>err. r = Inl err \<longrightarrow> sends calls = 0 \<or>
       (\<exists>c w2. wg_commit (events_guard (dp_db dp)) c w2 = (Some err, w') \<and> sends calls = 1))"
  using store_event_outcome [OF assms] by blast

lemma sample_store: "fst (store_event sample_dp sample_event (sample_world [])) = Inr True"
  by code_simp

theorem event_write_outcome_witness:
  "\<exists>calls t vals. sw_log (snd (store_event sample_dp sample_event (sample_world []))) = calls @ [] \<and>
     route (dp_sha sample_dp) (Some (dp_prefix sample_dp)) sample_event = Inr t \<and>
     event_insert_values (dp_enc sample_dp) sample_event = Inr vals \<and>
     calls = append_calls (build_event_insert_statement (tbl_physical t)) 0 vals"
  using event_write_outcome [OF sample_dp_table pair_of [OF sample_store]] by (auto simp: sample_world_def)


end
