(* ===== verification/Kafka_Ingestion.thy ===== *)
theory Kafka_Ingestion
  imports Kafka_Sessions Storage_Pipeline
begin

text \<open>
  The ingestion worker on the Kafka bus: \<open>Processor.Run\<close> (\<open>ingestion/processor.go\<close>) subscribes \<open>Processor.handle\<close> to a
  \<open>kafka.Bus\<close>, and the processor writes through the storage decorators. Nothing is modelled anew here:
  \<open>worker_life\<close> runs the partition of \<open>Kafka_Sessions\<close> together with the world of \<open>Storage_Pipeline\<close> and the
  records that the dead-letter topic has accepted. Between any two calls of the handler other workers may
  write to the same store.

  The lemmas find, for every delivered message, the handler call or the dead letter that settled it. The
  property joins the consumer side with the storage side: below a committed position every event is stored, or its
  dead letter is on the dead-letter topic.
\<close>

section \<open>What a task leaves behind\<close>

text \<open>A dead letter names the message it stands for and carries its event, or its raw payload when that does not decode.\<close>

definition carries ::
  "(string \<Rightarrow> event_envelope \<times> go_error option) \<Rightarrow> consumer_group \<Rightarrow> kafka_message \<Rightarrow> dead_letter_record \<Rightarrow> bool" where
  "carries dec grp m r \<longleftrightarrow>
     dl_original_topic r = km_topic m \<and> dl_original_partition r = km_partition m \<and> dl_original_offset r = km_offset m \<and>
     dl_consumer_group r = cg_name grp \<and>
     (if snd (dec (km_payload m)) = None then dl_envelope r = fst (dec (km_payload m)) else dl_raw r = Some (km_payload m))"

definition honest_records :: "kafka_env \<Rightarrow> consumer_group \<Rightarrow> kafka_message \<Rightarrow> history \<Rightarrow> bool" where
  "honest_records env grp m h \<longleftrightarrow>
     (\<forall>t key payload e. SentRecord t key payload e \<in> set h \<longrightarrow>
        (\<exists>r. ke_encode_dead env r = Inr payload \<and> carries (ke_decode env) grp m r))"

definition right_content :: "kafka_env \<Rightarrow> kafka_message \<Rightarrow> event_envelope \<Rightarrow> string option \<Rightarrow> bool" where
  "right_content env m envl raw \<longleftrightarrow>
     (if snd (ke_decode env (km_payload m)) = None then envl = fst (ke_decode env (km_payload m)) else raw = Some (km_payload m))"

lemma honest_Nil [simp]: "honest_records env grp m []"
  by (simp add: honest_records_def)

lemma honest_other [simp]:
  "honest_records env grp m (PolledContext x # h) = honest_records env grp m h"
  "honest_records env grp m (Slept d ok # h) = honest_records env grp m h"
  "honest_records env grp m (CalledHandler msg res # h) = honest_records env grp m h"
  "honest_records env grp m (ReadClock c # h) = honest_records env grp m h"
  by (auto simp: honest_records_def)

lemma honest_sent [simp]:
  "honest_records env grp m (SentRecord t key payload e # h) \<longleftrightarrow>
   (\<exists>r. ke_encode_dead env r = Inr payload \<and> carries (ke_decode env) grp m r) \<and> honest_records env grp m h"
  unfolding honest_records_def by (auto, metis+)

lemma publish_dead_letter_honest:
  assumes "publish_dead_letter env opts grp m att envl cause raw h = (r, h')" and "right_content env m envl raw"
    and "honest_records env grp m h"
  shows "honest_records env grp m h'"
proof -
  have "carries (ke_decode env) grp m
      \<lparr>dl_envelope = envl, dl_raw = raw, dl_original_topic = km_topic m, dl_original_partition = km_partition m,
       dl_original_offset = km_offset m, dl_original_key = km_key m, dl_consumer_group = cg_name grp,
       dl_consumer_id = cg_consumer grp, dl_attempt = att, dl_error = error_text cause, dl_failed_at = clk\<rparr>" for clk
    using assms(2) by (simp add: carries_def right_content_def)
  with assms(1,3) show ?thesis
    by (auto simp: publish_dead_letter_def proc_defs split: if_splits sum.splits bool.splits) blast
qed

lemma sleep_context_honest:
  "sleep_context env d h = (ok, h') \<Longrightarrow> honest_records env grp m h \<Longrightarrow> honest_records env grp m h'"
  by (auto simp: sleep_context_def split: if_splits)

lemma dead_letter_honest:
  "dead_letter_until_done fuel env opts grp m att envl cause raw s = Some (done', s') \<Longrightarrow> right_content env m envl raw \<Longrightarrow>
   honest_records env grp m (pr_history s) \<Longrightarrow> honest_records env grp m (pr_history s')"
proof (induction fuel arbitrary: s)
  case (Suc fuel)
  obtain r h where p: "publish_dead_letter env opts grp m att envl cause raw (pr_history s) = (r, h)" by fastforce
  note h = publish_dead_letter_honest [OF p Suc.prems(2,3)]
  show ?case
  proof (cases r)
    case None
    with Suc.prems(1) p h show ?thesis by auto
  next
    case (Some e)
    obtain ok h1 where sl: "sleep_context env (ko_retry_backoff opts) h = (ok, h1)" by fastforce
    note h1 = sleep_context_honest [OF sl h]
    from Suc.prems(1,2) p Some sl h1 Suc.IH show ?thesis by (auto simp: Let_def split: if_splits)
  qed
qed simp

lemma attempt_loop_honest:
  "attempt_loop fuel env opts grp m envl att s = Some s' \<Longrightarrow> right_content env m envl None \<Longrightarrow>
   honest_records env grp m (pr_history s) \<Longrightarrow> honest_records env grp m (pr_history s')"
proof (induction "nat (ko_max_attempts opts - att)" arbitrary: att s rule: less_induct)
  case less
  obtain stop h1 where p: "poll_context env (pr_history s) = (stop, h1)" by fastforce
  have h1: "honest_records env grp m h1" using p less.prems(3) by (auto simp: poll_context_def)
  obtain r h2 where c: "call_handler env (delivery m envl att) h1 = (r, h2)" by fastforce
  then obtain res where "h2 = CalledHandler (delivery m envl att) res # h1" by (rule call_handler_cases)
  with h1 have h2: "honest_records env grp m h2" by simp
  note run = less.prems(1) [unfolded attempt_loop.simps [of fuel env opts grp m envl att s]]
  show ?case
  proof (cases "stop \<or> r = None")
    case True
    with run p c h1 h2 show ?thesis by (auto split: bool.splits)
  next
    case False
    then obtain e where r: "r = Some e" and stop: "\<not> stop" by auto
    show ?thesis
    proof (cases "ko_max_attempts opts \<le> att")
      case True
      define s2 where "s2 = on_metrics (mx_handler_failure_update (\<lambda>n. n + 1)) (s\<lparr>pr_history := h2\<rparr>)"
      from True run p c r stop obtain written s3 where
        d: "dead_letter_until_done fuel env opts grp m att envl e None s2 = Some (written, s3)"
        and s': "s' = (if written then on_gate task_done s3 else s3)"
        by (auto simp: Let_def s2_def split: option.splits)
      have "honest_records env grp m (pr_history s2)" using h2 by (simp add: s2_def)
      from dead_letter_honest [OF d less.prems(2) this] s' show ?thesis by simp
    next
      case False
      define s3 where "s3 = on_metrics (mx_handler_retry_update (\<lambda>n. n + 1))
        (on_metrics (mx_handler_failure_update (\<lambda>n. n + 1)) (s\<lparr>pr_history := h2\<rparr>))"
      obtain ok h3 where sl: "sleep_context env (ko_retry_backoff opts) h2 = (ok, h3)" by fastforce
      note h3 = sleep_context_honest [OF sl h2]
      have s3: "pr_history s3 = h2" by (simp add: s3_def)
      from run p c r stop False sl s3 have "if ok then attempt_loop fuel env opts grp m envl (att + 1) (s3\<lparr>pr_history := h3\<rparr>) = Some s'
          else s' = s3\<lparr>pr_history := h3\<rparr>"
        by (simp add: Let_def s3_def split: if_splits)
      moreover have "nat (ko_max_attempts opts - (att + 1)) < nat (ko_max_attempts opts - att)" using False by simp
      moreover have "honest_records env grp m (pr_history (s3\<lparr>pr_history := h3\<rparr>))" using h3 by simp
      ultimately show ?thesis using less.hyps [OF _ _ less.prems(2), of "att + 1"] by (cases ok) auto
    qed
  qed
qed

lemma process_message_honest:
  assumes "process_message fuel env opts grp m s = Some s'" and "pr_history s = []"
  shows "honest_records env grp m (pr_history s')"
proof -
  obtain envl e where d: "ke_decode env (km_payload m) = (envl, e)" by fastforce
  show ?thesis
  proof (cases e)
    case None
    with assms d attempt_loop_honest [of fuel env opts grp m envl 1 "on_gate add_task s" s'] show ?thesis
      by (simp add: process_message_def right_content_def)
  next
    case (Some err)
    define s1 where "s1 = on_metrics (mx_malformed_update (\<lambda>n. n + 1)) s"
    from assms(1) d Some obtain written s2 where
      "dead_letter_until_done fuel env opts grp m 1 envl err (Some (km_payload m)) s1 = Some (written, s2)"
      and s': "s' = (if written then on_gate no_async_task_complete_now s2 else s2)"
      by (auto simp: process_message_def s1_def Let_def split: option.splits)
    from dead_letter_honest [OF this(1)] Some d assms(2) s' show ?thesis
      by (simp add: right_content_def s1_def)
  qed
qed

text \<open>The calls one task makes, newest first.\<close>

definition task_history :: "nat \<Rightarrow> kafka_env \<Rightarrow> 'tls kafka_options \<Rightarrow> nat \<Rightarrow> bus \<Rightarrow> history" where
  "task_history fuel env opts i b =
     (let t = bu_tasks b ! i
      in case process_message fuel env opts (tk_group t) (tk_message t)
           \<lparr>pr_history = [], pr_metrics = bu_metrics b, pr_gate = Some (tk_gate t),
            pr_pipe = pipe_of (tk_topic t) (tk_partition t) b\<rparr> of
           None \<Rightarrow> [] | Some s \<Rightarrow> pr_history s)"

lemma run_task_delivered:
  assumes "run_task fuel env opts i pool b = Some b'"
  shows "i < length (bu_tasks b) \<and> bu_delivered b' = bu_delivered b @
    (if delivered opts (task_history fuel env opts i b)
     then [(tk_group (bu_tasks b ! i), tk_message (bu_tasks b ! i))] else [])"
  using assms by (auto simp: run_task_def task_history_def Let_def split: if_splits option.splits)

lemma task_evidence:
  assumes run: "run_task fuel env opts i pool b = Some b'" and k: "k = bu_tasks b ! i" and ok: "task_ok lg grp k"
    and del: "delivered opts (task_history fuel env opts i b)"
  shows "(\<exists>att. snd (ke_decode env (km_payload (tk_message k))) = None \<and>
      (delivery (tk_message k) (fst (ke_decode env (km_payload (tk_message k)))) att, Returned None)
        \<in> set (handler_calls (task_history fuel env opts i b))) \<or>
    (\<exists>key payload r. SentRecord (ko_dead_letter_topic opts) key payload None \<in> set (task_history fuel env opts i b) \<and>
      ke_encode_dead env r = Inr payload \<and> carries (ke_decode env) grp (tk_message k) r)"
proof -
  define s0 where "s0 = \<lparr>pr_history = [], pr_metrics = bu_metrics b, pr_gate = Some (tk_gate k), pr_pipe = pipe_of (tk_topic k) (tk_partition k) b\<rparr>"
  have grp: "tk_group k = grp" and fresh: "fresh_gate (pr_gate s0) (tk_gate k)" using ok by (simp_all add: task_ok_def s0_def)
  from run k grp obtain s where s: "process_message fuel env opts grp (tk_message k) s0 = Some s"
    and h: "task_history fuel env opts i b = pr_history s"
    by (auto simp: run_task_def task_history_def Let_def s0_def split: if_splits option.splits)
  have honest: "honest_records env grp (tk_message k) (pr_history s)"
    by (rule process_message_honest [OF s]) (simp add: s0_def)
  from process_message_outcome [OF s fresh] have trace: "if snd (ke_decode env (km_payload (tk_message k))) = None
      then attempt_trace opts (tk_message k) (fst (ke_decode env (km_payload (tk_message k)))) 1 (pr_history s)
      else handler_calls (pr_history s) = []"
    by (auto simp: s0_def)
  from del [unfolded h] consider msg rest where "pr_history s = CalledHandler msg (Returned None) # rest"
    | key payload rest where "pr_history s = SentRecord (ko_dead_letter_topic opts) key payload None # rest"
    by (cases "(opts, pr_history s)" rule: delivered.cases) auto
  then show ?thesis
  proof cases
    case 1
    with trace have dec: "snd (ke_decode env (km_payload (tk_message k))) = None" by (auto split: if_splits)
    with trace obtain n where n: "map fst (rev (handler_calls (pr_history s))) =
        map (\<lambda>i. delivery (tk_message k) (fst (ke_decode env (km_payload (tk_message k)))) (1 + int i)) [0..<n]"
      by (auto simp: attempt_trace_def)
    have "msg \<in> set (map fst (rev (handler_calls (pr_history s))))" using 1 by simp
    then obtain att where "msg = delivery (tk_message k) (fst (ke_decode env (km_payload (tk_message k)))) att"
      unfolding n by auto
    with 1 dec show ?thesis unfolding h by auto
  next
    case 2
    with honest obtain r where "ke_encode_dead env r = Inr payload" "carries (ke_decode env) grp (tk_message k) r"
      unfolding honest_records_def by (metis list.set_intros(1))
    with 2 show ?thesis unfolding h by auto
  qed
qed

section \<open>The worker\<close>

text \<open>One store moves to another by any sequence of writes; \<open>later\<close> leaves room for every other worker.\<close>

definition later :: "'w event_writer_fn \<Rightarrow> 'w \<Rightarrow> 'w \<Rightarrow> bool" where
  "later store w w' \<longleftrightarrow> (\<exists>es. w' = snd (write_all store es w))"

lemma write_all_append: "snd (write_all store (es @ fs) w) = snd (write_all store fs (snd (write_all store es w)))"
  by (induction es arbitrary: w) (auto split: prod.splits)

lemma later_refl: "later store w w"
  unfolding later_def by (rule exI [of _ "[]"]) simp

lemma later_trans: "later store u v \<Longrightarrow> later store v w \<Longrightarrow> later store u w"
  unfolding later_def by (metis write_all_append)

lemma later_write: "store e w = (r, w') \<Longrightarrow> later store w w'"
  unfolding later_def by (rule exI [of _ "[e]"]) simp

text \<open>
  A handler call of the task was answered by the processor on some store between the beginning and the end of
  the task. A panic in the handler is possible at any time.
\<close>

definition answered :: "'w processor \<Rightarrow> 'w \<Rightarrow> 'w \<Rightarrow> message \<times> handler_result \<Rightarrow> bool" where
  "answered pr w w' c \<longleftrightarrow>
     (case snd c of
        Panicked v \<Rightarrow> True
      | Returned x \<Rightarrow> \<exists>w1 w2. later (ip_store pr) w w1 \<and> processor_handle pr (fst c) w1 = (x, w2) \<and> later (ip_store pr) w2 w')"

definition accepted_dead_letters :: "'tls kafka_options \<Rightarrow> history \<Rightarrow> string list" where
  "accepted_dead_letters opts h =
     concat (map (\<lambda>e. case e of SentRecord t key payload None \<Rightarrow> if t = ko_dead_letter_topic opts then [payload] else [] | _ \<Rightarrow> []) h)"

lemma accepted_dead_lettersI:
  "SentRecord (ko_dead_letter_topic opts) key payload None \<in> set h \<Longrightarrow> payload \<in> set (accepted_dead_letters opts h)"
  by (force simp: accepted_dead_letters_def)

record 'w worker =
  wk_processor :: "'w processor"
  wk_decode :: "string \<Rightarrow> event_envelope \<times> go_error option"
  wk_encode_dead :: "dead_letter_record \<Rightarrow> go_error + string"

text \<open>What one event of the bus does to the store and to the dead-letter topic.\<close>

fun ingests ::
  "'w worker \<Rightarrow> 'tls kafka_options \<Rightarrow> consumer_event option \<Rightarrow> bus \<Rightarrow> 'w \<times> string list \<Rightarrow> 'w \<times> string list \<Rightarrow> bool" where
  "ingests wk opts (Some (TaskTurn fuel env i pool)) b (w, dead) (w', dead') \<longleftrightarrow>
     ke_decode env = wk_decode wk \<and> ke_encode_dead env = wk_encode_dead wk \<and> later (ip_store (wk_processor wk)) w w' \<and>
     list_all (answered (wk_processor wk) w w') (handler_calls (task_history fuel env opts i b)) \<and>
     dead' = accepted_dead_letters opts (task_history fuel env opts i b) @ dead"
| "ingests wk opts e b (w, dead) (w', dead') \<longleftrightarrow> later (ip_store (wk_processor wk)) w w' \<and> dead' = dead"

inductive worker_life ::
  "'w worker \<Rightarrow> kafka_log \<Rightarrow> consumer_group \<Rightarrow> 'tls kafka_options \<Rightarrow> string \<Rightarrow> i32 \<Rightarrow> i64 \<Rightarrow> 'w \<Rightarrow>
   claim_phase \<times> nat \<times> bus \<Rightarrow> 'w \<times> string list \<Rightarrow> bool"
  for wk lg grp opts t p first w0 where
  worker_begins: "worker_life wk lg grp opts t p first w0 (Closed, 0, new_bus) (w0, [])"
| worker_goes: "worker_life wk lg grp opts t p first w0 (phase, pos, b) x \<Longrightarrow>
    partition_step lg grp opts t p first (phase, pos, b) e (phase', pos', b') \<Longrightarrow> ingests wk opts e b x x' \<Longrightarrow>
    worker_life wk lg grp opts t p first w0 (phase', pos', b') x'"

section \<open>Delivered means settled\<close>

definition settled :: "'w worker \<Rightarrow> ('w \<Rightarrow> status_key \<Rightarrow> bool) \<Rightarrow> 'w \<times> string list \<Rightarrow> owned_message \<Rightarrow> bool" where
  "settled wk durable x gm \<longleftrightarrow>
     (snd (wk_decode wk (km_payload (snd gm))) = None \<and> durable (fst x) (status_key_of (fst (wk_decode wk (km_payload (snd gm)))))) \<or>
     (\<exists>payload \<in> set (snd x). \<exists>r. wk_encode_dead wk r = Inr payload \<and> carries (wk_decode wk) (fst gm) (snd gm) r)"

lemma ingests_later: "ingests wk opts e b x x' \<Longrightarrow> later (ip_store (wk_processor wk)) (fst x) (fst x') \<and> set (snd x) \<subseteq> set (snd x')"
  by (cases "(wk, opts, e, b, x, x')" rule: ingests.cases) auto

lemma claim_event_delivers_nothing:
  "consumer_step opts e b = Some b' \<Longrightarrow> (\<nexists>fuel env i pool. e = TaskTurn fuel env i pool) \<Longrightarrow> bu_delivered b' = bu_delivered b"
  by (cases e) (auto simp: claim_delivers_nothing simp del: claim_step.simps)

lemma step_delivers:
  assumes "partition_step lg grp opts t p first (phase, pos, b) e (phase', pos', b')"
  shows "bu_delivered b' = bu_delivered b \<or>
    (\<exists>fuel env i pool. e = Some (TaskTurn fuel env i pool) \<and> run_task fuel env opts i pool b = Some b')"
  using assms
proof cases
  case (step_elsewhere c)
  then show ?thesis using claim_event_delivers_nothing by (cases c) fastforce+
qed (auto simp: claim_delivers_nothing restarted_def simp del: claim_step.simps)

context event_writer
begin

lemma later_durable: "later store w w' \<Longrightarrow> durable w k \<Longrightarrow> durable w' k"
  by (auto simp: later_def all_keeps)

lemma answered_durable:
  assumes "answered pr w w' (msg, Returned None)" and "ip_store pr = store"
  shows "durable w' (status_key_of (msg_envelope msg))"
proof -
  from assms obtain w1 w2 where h: "processor_handle pr msg w1 = (None, w2)" and l: "later store w2 w'"
    by (auto simp: answered_def)
  from h assms(2) obtain b where "store (msg_envelope msg) w1 = (Inr b, w2)"
    by (auto simp: processor_handle_def split: prod.splits sum.splits)
  from acknowledged_durable [OF this] l show ?thesis by (rule later_durable [rotated])
qed

lemma settled_mono:
  "settled wk durable x gm \<Longrightarrow> later store (fst x) (fst x') \<Longrightarrow> set (snd x) \<subseteq> set (snd x') \<Longrightarrow> settled wk durable x' gm"
  unfolding settled_def using later_durable by blast

lemma task_settles:
  assumes "run_task fuel env opts i pool b = Some b'" and "task_ok lg grp (bu_tasks b ! i)"
    and "delivered opts (task_history fuel env opts i b)" and "ingests wk opts (Some (TaskTurn fuel env i pool)) b x x'"
    and "ip_store (wk_processor wk) = store"
  shows "settled wk durable x' (grp, tk_message (bu_tasks b ! i))"
proof -
  obtain w dead w' dead' where x: "x = (w, dead)" "x' = (w', dead')" by (cases x, cases x')
  note ing = assms(4) [unfolded x, simplified]
  from task_evidence [OF assms(1) refl assms(2,3)] show ?thesis
  proof (elim disjE exE conjE)
    fix att
    assume dec: "snd (ke_decode env (km_payload (tk_message (bu_tasks b ! i)))) = None"
      and call: "(delivery (tk_message (bu_tasks b ! i)) (fst (ke_decode env (km_payload (tk_message (bu_tasks b ! i))))) att, Returned None)
        \<in> set (handler_calls (task_history fuel env opts i b))"
    from ing call have "answered (wk_processor wk) w w'
        (delivery (tk_message (bu_tasks b ! i)) (fst (ke_decode env (km_payload (tk_message (bu_tasks b ! i))))) att, Returned None)"
      by (auto simp: list_all_iff)
    from answered_durable [OF this assms(5)] dec ing show ?thesis by (simp add: settled_def x delivery_def)
  next
    fix key payload r
    assume "SentRecord (ko_dead_letter_topic opts) key payload None \<in> set (task_history fuel env opts i b)"
      and "ke_encode_dead env r = Inr payload" "carries (ke_decode env) grp (tk_message (bu_tasks b ! i)) r"
    with ing accepted_dead_lettersI show ?thesis by (fastforce simp: settled_def x)
  qed
qed

lemma worker_settles:
  assumes lg: "log_addresses lg" and store: "ip_store (wk_processor wk) = store"
  shows "worker_life wk lg grp opts t p first w0 (phase, pos, b) x \<Longrightarrow>
    life_inv lg grp t p first phase pos b \<and> later store w0 (fst x) \<and> (\<forall>gm \<in> set (bu_delivered b). settled wk durable x gm)"
proof (induction "(phase, pos, b)" x arbitrary: phase pos b rule: worker_life.induct)
  case worker_begins
  have "bu_delivered new_bus = []" by (simp add: new_bus_def)
  then show ?case by (simp add: life_inv_begins later_refl)
next
  case (worker_goes phase pos b x e phase' pos' b' x')
  then have inv: "life_inv lg grp t p first phase pos b" and w0: "later store w0 (fst x)"
    and old: "\<forall>gm \<in> set (bu_delivered b). settled wk durable x gm" by blast+
  note moved = ingests_later [OF worker_goes(4), unfolded store]
  have kept: "\<forall>gm \<in> set (bu_delivered b). settled wk durable x' gm" using old moved settled_mono by blast
  from step_delivers [OF worker_goes(3)] have "\<forall>gm \<in> set (bu_delivered b'). settled wk durable x' gm"
  proof (elim disjE exE conjE)
    fix fuel env i pool
    assume e: "e = Some (TaskTurn fuel env i pool)" and run: "run_task fuel env opts i pool b = Some b'"
    from run_task_delivered [OF run] have i: "i < length (bu_tasks b)" by blast
    then have ok: "task_ok lg grp (bu_tasks b ! i)" using inv by (simp add: life_inv_def wf_consumer_def list_all_length)
    from task_settles [OF run ok _ worker_goes(4) [unfolded e] store] run_task_delivered [OF run] kept ok
    show ?thesis by (auto simp: task_ok_def)
  qed (use kept in simp)
  with life_inv_step [OF worker_goes(3) lg inv] later_trans [OF w0] moved show ?case by blast
qed

end

lemma later_moves: "status_table (dp_db dp) rows \<Longrightarrow> later (store_cataloged dp) w w' \<Longrightarrow> moves dp rows w w'"
proof -
  assume tbl: "status_table (dp_db dp) rows"
  have "moves dp rows w (snd (write_all (store_cataloged dp) es w))" for es
  proof (induction es arbitrary: w)
    case (Cons e es)
    obtain r w1 where s: "store_cataloged dp e w = (r, w1)" by fastforce
    from moves_trans [OF pipeline_moves [OF tbl s] Cons.IH] s show ?case by simp
  qed (simp add: moves_refl)
  then show "later (store_cataloged dp) w w' \<Longrightarrow> moves dp rows w w'" by (auto simp: later_def)
qed

text \<open>Below the committed position everything is settled, and everything durable was there before or was stored.\<close>

lemma consumed_settled:
  assumes "worker_life wk lg grp opts t p first w0 (phase, pos, b) (w, dead)" and "log_addresses lg" and "i < pos"
    and "status_table (dp_db dp) rows" and "ip_store (wk_processor wk) = store_cataloged dp"
  shows "settled wk (event_durable rows) (w, dead) (grp, lg t p (offset_at first i)) \<and> moves dp rows w0 w"
proof -
  note inv = event_writer.worker_settles [OF pipeline_contract [OF assms(4)] assms(2,5,1)]
  then have "(grp, lg t p (offset_at first i)) \<in> set (bu_delivered b)" using assms(3) by (simp add: life_inv_def all_delivered_def)
  with inv later_moves [OF assms(4)] show ?thesis by auto
qed

lemma publish_accepted:
  "publish env opts e h = (None, h') \<Longrightarrow>
   \<exists>payload. ke_encode env e = Inr payload \<and> SentRecord (ko_topic opts) (event_key e) payload None \<in> set h'"
  by (auto simp: publish_def proc_defs split: bool.splits sum.splits)

section \<open>Properties\<close>

text \<open>
  C2. No event is lost between Kafka and storage. Let the ingestion processor consume one partition through the
  Kafka bus and write through the complete storage stack, whatever the databases, the dead-letter topic and
  other workers do, over rebalances, late tasks and crashes: of every message below the committed position, either
  it decodes, its event is committed and its row was sent to the event table (if the event was not committed at
  the start), or the dead-letter topic has accepted a record that names the message and carries its event or payload.
\<close>

theorem consumed_events_are_stored_or_dead_lettered:
  assumes "worker_life wk lg grp opts t p first w0 (phase, pos, b) (w, dead)" and "log_addresses lg" and "i < pos"
    and "status_table (dp_db dp) rows" and "ip_store (wk_processor wk) = store_cataloged dp"
    and "m = lg t p (offset_at first i)"
  shows "(\<exists>e. wk_decode wk (km_payload m) = (e, None) \<and> event_durable rows w (status_key_of e) \<and>
      (event_durable rows w0 (status_key_of e) \<or> stored_row dp (sw_log w) (status_key_of e))) \<or>
    (\<exists>payload \<in> set dead. \<exists>r. wk_encode_dead wk r = Inr payload \<and> carries (wk_decode wk) grp m r)"
proof -
  note c = consumed_settled [OF assms(1-5), folded assms(6)]
  then have "event_durable rows w k \<Longrightarrow> event_durable rows w0 k \<or> stored_row dp (sw_log w) k" for k
    by (auto simp: moves_def)
  with c show ?thesis
    by (cases "wk_decode wk (km_payload m)") (auto simp: settled_def)
qed

definition serving_env :: kafka_env where
  "serving_env =
     sample_env\<lparr>ke_handler := (\<lambda>h msg. Returned None), ke_decode := (\<lambda>raw. (sample_event, None)), ke_encode_dead := (\<lambda>r. Inr ''dead'')\<rparr>"

definition serving_worker :: "(status_row table_state, unit) store_world worker" where
  "serving_worker =
     \<lparr>wk_processor = sample_processor, wk_decode = (\<lambda>raw. (sample_event, None)), wk_encode_dead = (\<lambda>r. Inr ''dead'')\<rparr>"

definition served_task :: consumer_event where
  "served_task = TaskTurn 1 serving_env 0 sample_pool_stats"

definition served_bus :: "nat \<Rightarrow> bus" where
  "served_bus n = the (consumer_run sample_normalized (take n [sample_receive sample_group 1 0, served_task]) new_bus)"

lemma served_steps:
  "consumer_step sample_normalized (sample_receive sample_group 1 0) new_bus = Some (served_bus 1)"
  "consumer_step sample_normalized served_task (served_bus 1) = Some (served_bus 2)"
  "list_all (\<lambda>c. msg_envelope (fst c) = sample_event \<and> snd c = Returned None)
     (handler_calls (task_history 1 serving_env sample_normalized 0 (served_bus 1)))"
  "accepted_dead_letters sample_normalized (task_history 1 serving_env sample_normalized 0 (served_bus 1)) = []"
  "0 < advance_position ''t'' 0 10 (new_marks (served_bus 1) (served_bus 2)) 0"
  by code_simp+

lemma serving_fields [simp]:
  "ip_store sample_processor = store_cataloged sample_dp" "wk_processor serving_worker = sample_processor"
  "wk_decode serving_worker raw = (sample_event, None)"
  "ke_decode serving_env = wk_decode serving_worker" "ke_encode_dead serving_env = wk_encode_dead serving_worker"
  by (simp_all add: serving_worker_def serving_env_def sample_processor_def)

lemma sample_store_accepts:
  "msg_envelope msg = sample_event \<Longrightarrow>
   processor_handle sample_processor msg (sample_world []) = (None, snd (store_cataloged sample_dp sample_event (sample_world [])))"
proof -
  assume e: "msg_envelope msg = sample_event"
  have "fst (processor_handle sample_processor sample_delivery (sample_world [])) = None"
    using sample_feed by (auto split: prod.splits)
  with e show ?thesis
    by (auto simp: processor_handle_def sample_processor_def sample_delivery_def split: prod.splits sum.splits)
qed

lemma serving_life:
  "\<exists>pos. 0 < pos \<and> worker_life serving_worker sample_log sample_group sample_normalized ''t'' 0 10 (sample_world [])
     (Open 1 0 1, pos, served_bus 2) (snd (store_cataloged sample_dp sample_event (sample_world [])), [])"
proof -
  let ?w0 = "sample_world [] :: (status_row table_state, unit) store_world"
  let ?w1 = "snd (store_cataloged sample_dp sample_event ?w0)"
  let ?step = "partition_step sample_log sample_group sample_normalized ''t'' 0 10"
  let ?pos = "advance_position ''t'' 0 10 (new_marks (served_bus 1) (served_bus 2)) 0"
  have moved: "later (store_cataloged sample_dp) ?w0 ?w1" by (rule later_write [OF surjective_pairing])
  have opens: "?step (Closed, 0, new_bus) None (Open 1 0 0, 0, new_bus)"
    by (rule step_opens) (simp_all add: new_bus_def)
  have receives: "?step (Open 1 0 0, 0, new_bus) (Some (sample_receive sample_group 1 0)) (Open 1 0 1, 0, served_bus 1)"
    using step_receives [where n = 0 and hw = 12 and pool = sample_pool_stats, OF _ _ served_steps(1)]
    by (simp add: sample_receive_def del: consumer_step.simps)
  have works: "?step (Open 1 0 1, 0, served_bus 1) (Some served_task) (Open 1 0 1, ?pos, served_bus 2)"
    by (rule step_elsewhere [OF _ _ served_steps(2)]) (simp_all add: served_task_def)
  have "list_all (answered sample_processor ?w0 ?w1) (handler_calls (task_history 1 serving_env sample_normalized 0 (served_bus 1)))"
    using served_steps(3) sample_store_accepts later_refl
    by (auto simp: list_all_iff answered_def intro!: exI)
  then have task: "ingests serving_worker sample_normalized (Some served_task) (served_bus 1) (?w0, []) (?w1, [])"
    using moved served_steps(4) by (simp add: served_task_def)
  have idle: "ingests serving_worker sample_normalized None b (?w0, []) (?w0, [])"
    "ingests serving_worker sample_normalized (Some (sample_receive sample_group 1 0)) b (?w0, []) (?w0, [])" for b
    by (simp_all add: later_refl sample_receive_def)
  show ?thesis
    using worker_goes [OF worker_goes [OF worker_goes [OF worker_begins opens idle(1)] receives idle(2)] works task] served_steps(5)
    by blast
qed

theorem consumed_events_are_stored_or_dead_lettered_witness:
  "stored_row sample_dp (sw_log (snd (store_cataloged sample_dp sample_event (sample_world [])))) (status_key_of sample_event)"
proof -
  from serving_life obtain pos where "0 < pos"
    and life: "worker_life serving_worker sample_log sample_group sample_normalized ''t'' 0 10 (sample_world [])
      (Open 1 0 1, pos, served_bus 2) (snd (store_cataloged sample_dp sample_event (sample_world [])), [])" by blast
  from consumed_events_are_stored_or_dead_lettered [OF life sample_log_addresses \<open>0 < pos\<close> sample_dp_table _ refl]
  show ?thesis using sample_world_empty by auto
qed

end
