(* ===== verification/EventBus_Direct.thy ===== *)
theory EventBus_Direct
  imports Contracts
begin

text \<open>
  Package \<open>eventbus/direct\<close>: the in-process bus. \<open>Publish\<close> snapshots the handlers under the lock and
  then calls them one after the other; \<open>Subscribe\<close> registers a handler and waits for cancellation.

  A handler is a value of type \<open>'h\<close>; \<open>call h msg w\<close> is calling it in the world \<open>w\<close>. The lemmas show
  that delivery is synchronous, in registration order, and stops at the first error.
\<close>

record 'h direct_bus =
  db_handlers :: "'h list"
  db_sequence :: i64    \<comment> \<open>a \<open>uint64\<close>\<close>

definition new_direct_bus :: "'h direct_bus" where
  "new_direct_bus = \<lparr>db_handlers = [], db_sequence = 0\<rparr>"

definition delivery_id :: "i64 \<Rightarrow> string" where
  "delivery_id n = ''direct:'' @ format_int (uint n)"

definition direct_message :: "i64 \<Rightarrow> event_envelope \<Rightarrow> message" where
  "direct_message n e =
     \<lparr>msg_id = delivery_id n, msg_topic = ''direct'', msg_partition = 0, msg_offset = 0,
      msg_key = env_id e, msg_attempt = 1, msg_envelope = e\<rparr>"

fun deliver ::
  "('h \<Rightarrow> message \<Rightarrow> 'w \<Rightarrow> go_error option \<times> 'w) \<Rightarrow> message \<Rightarrow> 'h list \<Rightarrow> 'w \<Rightarrow> go_error option \<times> 'w" where
  "deliver call msg [] w = (None, w)"
| "deliver call msg (h # hs) w =
     (case call h msg w of (Some e, w1) \<Rightarrow> (Some e, w1) | (None, w1) \<Rightarrow> deliver call msg hs w1)"

definition direct_publish ::
  "('h \<Rightarrow> message \<Rightarrow> 'w \<Rightarrow> go_error option \<times> 'w) \<Rightarrow> event_envelope \<Rightarrow> 'h direct_bus \<Rightarrow> 'w \<Rightarrow>
   go_error option \<times> 'h direct_bus \<times> 'w" where
  "direct_publish call e b w =
     (let handlers = db_handlers b;
          n = db_sequence b + 1;
          r = deliver call (direct_message n e) handlers w
      in (fst r, b\<lparr>db_sequence := n\<rparr>, snd r))"

text \<open>\<open>Subscribe\<close> up to its wait for cancellation; it then returns the context's error.\<close>

definition direct_subscribe :: "go_error \<Rightarrow> 'h \<Rightarrow> 'h direct_bus \<Rightarrow> go_error \<times> 'h direct_bus" where
  "direct_subscribe ctx_err h b = (ctx_err, b\<lparr>db_handlers := db_handlers b @ [h]\<rparr>)"

text \<open>Running handlers that all accept.\<close>

fun accept_all :: "('h \<Rightarrow> message \<Rightarrow> 'w \<Rightarrow> go_error option \<times> 'w) \<Rightarrow> message \<Rightarrow> 'h list \<Rightarrow> 'w \<Rightarrow> 'w option" where
  "accept_all call msg [] w = Some w"
| "accept_all call msg (h # hs) w =
     (case call h msg w of (Some e, w1) \<Rightarrow> None | (None, w1) \<Rightarrow> accept_all call msg hs w1)"

lemma deliver_ok: "deliver call msg hs w = (None, w') \<longleftrightarrow> accept_all call msg hs w = Some w'"
  by (induction hs arbitrary: w) (auto split: option.splits prod.splits)

lemma deliver_error:
  "deliver call msg hs w = (Some e, w') \<longleftrightarrow>
     (\<exists>us h vs w1. hs = us @ h # vs \<and> accept_all call msg us w = Some w1 \<and> call h msg w1 = (Some e, w'))"
proof (induction hs arbitrary: w)
  case (Cons h hs)
  obtain r w1 where c: "call h msg w = (r, w1)" by fastforce
  show ?case
  proof (cases r)
    case None
    have "(\<exists>us h' vs w2. h # hs = us @ h' # vs \<and> accept_all call msg us w = Some w2 \<and> call h' msg w2 = (Some e, w'))
      \<longleftrightarrow> (\<exists>us h' vs w2. hs = us @ h' # vs \<and> accept_all call msg us w1 = Some w2 \<and> call h' msg w2 = (Some e, w'))"
      (is "?L \<longleftrightarrow> ?R")
    proof
      assume ?L
      then obtain us h' vs w2 where u: "h # hs = us @ h' # vs" "accept_all call msg us w = Some w2"
        "call h' msg w2 = (Some e, w')" by blast
      then show ?R using c None by (cases us) auto
    next
      assume ?R
      then obtain us h' vs w2 where "hs = us @ h' # vs" "accept_all call msg us w1 = Some w2"
        "call h' msg w2 = (Some e, w')" by blast
      then show ?L using c None by (intro exI [of _ "h # us"]) auto
    qed
    with c None Cons show ?thesis by simp
  next
    case (Some x)
    have "(\<exists>us h' vs w2. h # hs = us @ h' # vs \<and> accept_all call msg us w = Some w2 \<and> call h' msg w2 = (Some e, w'))
      \<longleftrightarrow> x = e \<and> w1 = w'"
    proof
      assume "\<exists>us h' vs w2. h # hs = us @ h' # vs \<and> accept_all call msg us w = Some w2 \<and> call h' msg w2 = (Some e, w')"
      then obtain us h' vs w2 where "h # hs = us @ h' # vs" "accept_all call msg us w = Some w2"
        "call h' msg w2 = (Some e, w')" by blast
      then show "x = e \<and> w1 = w'" using c Some by (cases us) auto
    next
      assume "x = e \<and> w1 = w'"
      with c Some show "\<exists>us h' vs w2. h # hs = us @ h' # vs \<and> accept_all call msg us w = Some w2 \<and> call h' msg w2 = (Some e, w')"
        by (intro exI [of _ "[]"]) simp
    qed
    with c Some show ?thesis by simp
  qed
qed simp

text \<open>
  The direct bus delivers synchronously and in registration order: publishing succeeds exactly
  when every handler accepts, and otherwise returns the error of the first handler that does not,
  without calling the ones behind it. Every publication takes the next delivery number.
\<close>

theorem direct_publish_in_order:
  "(direct_publish call e b w = (None, b', w') \<longleftrightarrow>
      b' = b\<lparr>db_sequence := db_sequence b + 1\<rparr> \<and>
      accept_all call (direct_message (db_sequence b + 1) e) (db_handlers b) w = Some w') \<and>
   (direct_publish call e b w = (Some err, b', w') \<longleftrightarrow>
      b' = b\<lparr>db_sequence := db_sequence b + 1\<rparr> \<and>
      (\<exists>us h vs w1. db_handlers b = us @ h # vs \<and>
         accept_all call (direct_message (db_sequence b + 1) e) us w = Some w1 \<and>
         call h (direct_message (db_sequence b + 1) e) w1 = (Some err, w')))"
proof -
  let ?msg = "direct_message (db_sequence b + 1) e"
  have "direct_publish call e b w = (r, b', w') \<longleftrightarrow>
      b' = b\<lparr>db_sequence := db_sequence b + 1\<rparr> \<and> deliver call ?msg (db_handlers b) w = (r, w')" for r
    by (cases "deliver call ?msg (db_handlers b) w") (auto simp: direct_publish_def Let_def)
  then show ?thesis
    by (simp only: deliver_ok deliver_error simp_thms)
qed

end
