(* ===== verification/Collect_Stages.thy ===== *)
theory Collect_Stages
  imports Collect_Request
begin

text \<open>
  Package \<open>collect\<close>, files \<open>stage.go\<close>, \<open>session.go\<close>, \<open>enrichment.go\<close>, \<open>traffic_filter.go\<close> and the rest
  of \<open>client.go\<close>: the optional stages between validation and the queue. A stage maps the stage input
  and the envelope to the envelope it returns and its error; Go's context is not used by any of them.

  Arguments stand for what the stages take from elsewhere: \<open>sha\<close> is SHA-256, \<open>uni\<close> the Unicode path
  of \<open>strings.ToLower\<close>, \<open>parse_addr\<close>, \<open>parse_addr_port\<close>, \<open>parse_prefix\<close> and \<open>contains\<close> are the
  functions of \<open>net/netip\<close>, and the user-agent parser and geo resolver are the configured ones.

  The locale \<open>collect_stage\<close> states what the handler relies on; every stage that the package can
  build interprets it. The lemmas show that derived ids are identifiers, that enrichment is bounded,
  keeps what the client sent and does not leak the address, and what the filter drops.
\<close>

section \<open>Stages\<close>

record stage_input =
  si_request :: request
  si_received_at :: gotime

type_synonym stage = "stage_input \<Rightarrow> event_envelope \<Rightarrow> event_envelope \<times> go_error option"

text \<open>\<open>StageFunc.Apply\<close>; a nil function is \<^const>\<open>None\<close>.\<close>

definition stage_func_apply :: "stage option \<Rightarrow> stage" where
  "stage_func_apply f inp e =
     (case f of None \<Rightarrow> (empty_envelope, Some (ErrText ''collect stage is required'')) | Some g \<Rightarrow> g inp e)"

section \<open>Digests\<close>

definition nul :: char where "nul = char_of (0 :: nat)"

definition digest_input :: "string \<Rightarrow> string \<Rightarrow> string list \<Rightarrow> string" where
  "digest_input prfx salt parts = prfx @ [nul] @ salt @ concat (map (\<lambda>p. nul # p) parts)"

definition salted_digest :: "(string \<Rightarrow> 256 word) \<Rightarrow> string \<Rightarrow> string \<Rightarrow> string list \<Rightarrow> string" where
  "salted_digest sha prfx salt parts = hex_digest (sha (digest_input prfx salt parts))"

definition truncate_property_string :: "string \<Rightarrow> string" where
  "truncate_property_string s =
     (let v = trim_space s in if length v \<le> max_property_str_len then v else take max_property_str_len v)"

section \<open>Session and visit resolution\<close>

definition default_session_window :: int where "default_session_window = 30 * minute"
definition default_visit_window :: int where "default_visit_window = default_session_window"

record session_config =
  sr_salt :: string
  sr_window :: int
  sr_include_fingerprint :: bool

definition time_bucket :: "gotime \<Rightarrow> int \<Rightarrow> string" where
  "time_bucket t window = format_int (unix_seconds (truncate_time (utc t) window))"

definition session_parts :: "session_config \<Rightarrow> stage_input \<Rightarrow> event_envelope \<Rightarrow> string list" where
  "session_parts cfg inp e =
     [env_tenant_id e, env_project_id e, env_source_id e, env_distinct_id e,
      time_bucket (env_event_time e) (sr_window cfg)]
     @ (let client = normalize_client_info (rq_client (si_request inp))
        in if sr_include_fingerprint cfg then [ci_user_agent client, ci_ip client] else [])"

definition session_stage :: "(string \<Rightarrow> 256 word) \<Rightarrow> session_config \<Rightarrow> stage" where
  "session_stage sha cfg inp e =
     (if env_session_id e \<noteq> [] then (e, None)
      else
        let sid = ''ses_'' @ take 32 (salted_digest sha ''session'' (sr_salt cfg) (session_parts cfg inp e))
        in (case validate_identifier ''session_id'' sid of
              Some err \<Rightarrow> (empty_envelope, Some err)
            | None \<Rightarrow> (e\<lparr>env_session_id := sid\<rparr>, None)))"

definition new_session_resolver :: "(string \<Rightarrow> 256 word) \<Rightarrow> session_config \<Rightarrow> go_error + stage" where
  "new_session_resolver sha cfg0 =
     (if sr_salt cfg0 = [] then Inl (ErrText ''session resolver salt is required'')
      else
        let cfg = cfg0\<lparr>sr_window := if sr_window cfg0 = 0 then default_session_window else sr_window cfg0\<rparr>
        in if sr_window cfg < minute
           then Inl (ErrText ''session resolver window must be at least one minute'')
           else Inr (session_stage sha cfg))"

record visit_config =
  vr_salt :: string
  vr_window :: int

definition visit_parts :: "visit_config \<Rightarrow> event_envelope \<Rightarrow> string list" where
  "visit_parts cfg e =
     [env_tenant_id e, env_project_id e, env_source_id e, env_distinct_id e, env_session_id e,
      time_bucket (env_event_time e) (vr_window cfg)]"

definition visit_stage :: "(string \<Rightarrow> 256 word) \<Rightarrow> visit_config \<Rightarrow> stage" where
  "visit_stage sha cfg inp e =
     (if env_visit_id e \<noteq> [] then (e, None)
      else
        let vid = ''vis_'' @ take 32 (salted_digest sha ''visit'' (vr_salt cfg) (visit_parts cfg e))
        in (case validate_identifier ''visit_id'' vid of
              Some err \<Rightarrow> (empty_envelope, Some err)
            | None \<Rightarrow> (e\<lparr>env_visit_id := vid\<rparr>, None)))"

definition new_visit_resolver :: "(string \<Rightarrow> 256 word) \<Rightarrow> visit_config \<Rightarrow> go_error + stage" where
  "new_visit_resolver sha cfg0 =
     (if vr_salt cfg0 = [] then Inl (ErrText ''visit resolver salt is required'')
      else
        let cfg = cfg0\<lparr>vr_window := if vr_window cfg0 = 0 then default_visit_window else vr_window cfg0\<rparr>
        in if vr_window cfg < minute
           then Inl (ErrText ''visit resolver window must be at least one minute'')
           else Inr (visit_stage sha cfg))"

section \<open>Client enrichment\<close>

record user_agent_info =
  ua_browser :: string
  ua_os :: string
  ua_device :: string

record geo_location =
  geo_country :: string
  geo_region :: string
  geo_city :: string

record enrichment_config =
  en_hash_salt :: string
  en_user_agent :: bool
  en_ip_hash :: bool
  en_referrer :: bool
  en_browser_info :: bool
  en_geo_info :: bool
  en_parser :: "(string \<Rightarrow> user_agent_info) option"
  en_resolver :: "(string \<Rightarrow> geo_location option) option"

definition put_generated_property :: "props \<Rightarrow> string \<Rightarrow> string \<Rightarrow> props" where
  "put_generated_property m key v =
     (if v = [] then m
      else
        let m1 = (case m of None \<Rightarrow> Some [] | Some xs \<Rightarrow> Some xs)
        in if map_get m1 key \<noteq> None then m1
           else if map_len m1 \<ge> max_property_count then m1
           else Some (entries m1 @ [(key, VString v)]))"

definition put_user_agent_properties :: "props \<Rightarrow> user_agent_info \<Rightarrow> props" where
  "put_user_agent_properties m0 info =
     (let m1 = put_generated_property m0 ''client.browser'' (truncate_property_string (ua_browser info));
          m2 = put_generated_property m1 ''client.os'' (truncate_property_string (ua_os info))
      in put_generated_property m2 ''client.device'' (truncate_property_string (ua_device info)))"

definition put_geo_properties :: "props \<Rightarrow> (string \<Rightarrow> geo_location option) \<Rightarrow> string \<Rightarrow> props" where
  "put_geo_properties m0 resolver ip =
     (case resolver ip of
        None \<Rightarrow> m0
      | Some loc \<Rightarrow>
          let m1 = put_generated_property m0 ''geo.country'' (truncate_property_string (geo_country loc));
              m2 = put_generated_property m1 ''geo.region'' (truncate_property_string (geo_region loc))
          in put_generated_property m2 ''geo.city'' (truncate_property_string (geo_city loc)))"

definition contains_any :: "string \<Rightarrow> string list \<Rightarrow> bool" where
  "contains_any s tokens = list_ex (str_contains s) tokens"

definition detect_browser_family :: "string \<Rightarrow> string" where
  "detect_browser_family ua =
     (if contains_any ua [''edgios'', ''edga/'', ''edg/'', ''edge/''] then ''Edge''
      else if contains_any ua [''opios'', ''opr/'', ''opera''] then ''Opera''
      else if contains_any ua [''fxios'', ''firefox/''] then ''Firefox''
      else if contains_any ua [''crios'', ''chrome/'', ''chromium/''] then ''Chrome''
      else if contains_any ua [''safari/''] then ''Safari''
      else [])"

definition detect_os_family :: "string \<Rightarrow> string" where
  "detect_os_family ua =
     (if contains_any ua [''iphone'', ''ipad''] then ''iOS''
      else if contains_any ua [''android''] then ''Android''
      else if contains_any ua [''windows nt''] then ''Windows''
      else if contains_any ua [''mac os x'', ''macintosh''] then ''macOS''
      else if contains_any ua [''cros''] then ''ChromeOS''
      else if contains_any ua [''linux''] then ''Linux''
      else [])"

definition detect_device_family :: "string \<Rightarrow> string" where
  "detect_device_family ua =
     (if contains_any ua [''ipad'', ''tablet''] then ''tablet''
      else if contains_any ua [''mobi'', ''iphone'', ''android''] then ''mobile''
      else if contains_any ua [''mozilla/''] then ''desktop''
      else [])"

definition default_user_agent_parser :: "(string \<Rightarrow> string) \<Rightarrow> string \<Rightarrow> user_agent_info" where
  "default_user_agent_parser uni user_agent =
     (let ua = trim_space user_agent
      in if ua = [] then \<lparr>ua_browser = [], ua_os = [], ua_device = []\<rparr>
         else
           let low = to_lower uni ua
           in \<lparr>ua_browser = detect_browser_family low, ua_os = detect_os_family low,
               ua_device = detect_device_family low\<rparr>)"

definition ip_hash :: "(string \<Rightarrow> 256 word) \<Rightarrow> enrichment_config \<Rightarrow> string \<Rightarrow> string" where
  "ip_hash sha cfg ip = ''ip_'' @ take 32 (salted_digest sha ''client-ip'' (en_hash_salt cfg) [ip])"

text \<open>
  A stage that needs a parser or resolver that is nil would panic; \<open>new_client_enrichment\<close> excludes
  that, so such a configuration leaves the map alone here.
\<close>

definition enrich_properties :: "(string \<Rightarrow> 256 word) \<Rightarrow> enrichment_config \<Rightarrow> client_info \<Rightarrow> props \<Rightarrow> props" where
  "enrich_properties sha cfg client m0 =
     (let m1 = (if en_user_agent cfg \<and> ci_user_agent client \<noteq> []
                then put_generated_property m0 ''client.user_agent'' (truncate_property_string (ci_user_agent client))
                else m0);
          m2 = (if en_referrer cfg \<and> ci_referrer client \<noteq> []
                then put_generated_property m1 ''client.referrer'' (truncate_property_string (ci_referrer client))
                else m1);
          m3 = (if en_ip_hash cfg \<and> ci_ip client \<noteq> []
                then put_generated_property m2 ''client.ip_hash'' (ip_hash sha cfg (ci_ip client)) else m2);
          m4 = (if en_browser_info cfg \<and> ci_user_agent client \<noteq> []
                then (case en_parser cfg of None \<Rightarrow> m3
                      | Some parse \<Rightarrow> put_user_agent_properties m3 (parse (ci_user_agent client)))
                else m3)
      in if en_geo_info cfg \<and> ci_ip client \<noteq> []
         then (case en_resolver cfg of None \<Rightarrow> m4 | Some resolver \<Rightarrow> put_geo_properties m4 resolver (ci_ip client))
         else m4)"

definition enrichment_stage :: "(string \<Rightarrow> 256 word) \<Rightarrow> enrichment_config \<Rightarrow> stage" where
  "enrichment_stage sha cfg inp e =
     (e\<lparr>env_properties := enrich_properties sha cfg (normalize_client_info (rq_client (si_request inp)))
          (clone_map (env_properties e))\<rparr>, None)"

definition new_client_enrichment ::
  "(string \<Rightarrow> 256 word) \<Rightarrow> (string \<Rightarrow> string) \<Rightarrow> enrichment_config \<Rightarrow> go_error + stage" where
  "new_client_enrichment sha uni cfg0 =
     (if en_ip_hash cfg0 \<and> en_hash_salt cfg0 = []
      then Inl (ErrText ''client enrichment hash salt is required when IP hashing is enabled'')
      else
        let cfg = (if en_browser_info cfg0 \<and> en_parser cfg0 = None
                   then cfg0\<lparr>en_parser := Some (default_user_agent_parser uni)\<rparr> else cfg0)
        in if en_geo_info cfg \<and> en_resolver cfg = None
           then Inl (ErrText ''client enrichment geo resolver is required when geo info is enabled'')
           else Inr (enrichment_stage sha cfg))"

section \<open>Traffic filter\<close>

definition default_bot_tokens :: "string list" where
  "default_bot_tokens = [''bot'', ''crawler'', ''headlesschrome'', ''spider'']"

record ('addr, 'prefix) netip =
  ni_parse_addr :: "string \<Rightarrow> 'addr option"
  ni_parse_addr_port :: "string \<Rightarrow> 'addr option"
  ni_parse_prefix :: "string \<Rightarrow> go_error + 'prefix"
  ni_contains :: "'prefix \<Rightarrow> 'addr \<Rightarrow> bool"
  ni_addr_string :: "'addr \<Rightarrow> string"

record filter_config =
  fc_bot_user_agents :: "string list"
  fc_internal_cidrs :: "string list"
  fc_internal_ips :: "string list"

record ('addr, 'prefix) traffic_filter =
  tf_bot_tokens :: "string list"
  tf_internal_cidrs :: "'prefix list"
  tf_internal_ips :: "'addr list"

definition before_comma :: "string \<Rightarrow> string" where
  "before_comma s = takeWhile (\<lambda>c. c \<noteq> CHR '','') s"

definition parse_client_addr :: "('addr, 'prefix) netip \<Rightarrow> string \<Rightarrow> 'addr option" where
  "parse_client_addr ni s0 =
     (let s1 = trim_space s0
      in if s1 = [] then None
         else
           let s2 = (if CHR '','' \<in> set s1 then trim_space (before_comma s1) else s1)
           in (case ni_parse_addr ni s2 of Some a \<Rightarrow> Some a | None \<Rightarrow> ni_parse_addr_port ni s2))"

definition normalize_bot_tokens :: "(string \<Rightarrow> string) \<Rightarrow> string list \<Rightarrow> string list" where
  "normalize_bot_tokens uni tokens = filter (\<lambda>t. t \<noteq> []) (map (\<lambda>t. to_lower uni (trim_space t)) tokens)"

fun parse_cidrs :: "('addr, 'prefix) netip \<Rightarrow> string list \<Rightarrow> go_error + 'prefix list" where
  "parse_cidrs ni [] = Inr []"
| "parse_cidrs ni (c # cs) =
     (case ni_parse_prefix ni (trim_space c) of
        Inl e \<Rightarrow> Inl (ErrWrap (''internal cidr '' @ go_quote c @ '' is invalid: '') e)
      | Inr p \<Rightarrow> (case parse_cidrs ni cs of Inl e \<Rightarrow> Inl e | Inr ps \<Rightarrow> Inr (p # ps)))"

fun parse_internal_ips :: "('addr, 'prefix) netip \<Rightarrow> string list \<Rightarrow> go_error + 'addr list" where
  "parse_internal_ips ni [] = Inr []"
| "parse_internal_ips ni (s # ss) =
     (case parse_client_addr ni s of
        None \<Rightarrow> Inl (ErrText (''internal ip '' @ go_quote s @ '' is invalid''))
      | Some a \<Rightarrow> (case parse_internal_ips ni ss of Inl e \<Rightarrow> Inl e | Inr as \<Rightarrow> Inr (a # as)))"

definition match_bot :: "(string \<Rightarrow> string) \<Rightarrow> ('addr, 'prefix) traffic_filter \<Rightarrow> string \<Rightarrow> string" where
  "match_bot uni f user_agent =
     (let ua = to_lower uni (trim_space user_agent)
      in if ua = [] then []
         else if list_ex (\<lambda>t. t \<noteq> [] \<and> str_contains ua t) (tf_bot_tokens f) then ''bot user agent''
         else [])"

definition match_internal_ip ::
  "('addr, 'prefix) netip \<Rightarrow> ('addr, 'prefix) traffic_filter \<Rightarrow> string \<Rightarrow> bool" where
  "match_internal_ip ni f s =
     (case parse_client_addr ni s of
        None \<Rightarrow> False
      | Some a \<Rightarrow> a \<in> set (tf_internal_ips f) \<or> list_ex (\<lambda>p. ni_contains ni p a) (tf_internal_cidrs f))"

definition filter_stage ::
  "(string \<Rightarrow> string) \<Rightarrow> ('addr, 'prefix) netip \<Rightarrow> ('addr, 'prefix) traffic_filter \<Rightarrow> stage" where
  "filter_stage uni ni f inp e =
     (let client = normalize_client_info (rq_client (si_request inp));
          reason = match_bot uni f (ci_user_agent client)
      in if reason \<noteq> [] then (e, Some (ErrFiltered reason e))
         else if match_internal_ip ni f (ci_ip client) then (e, Some (ErrFiltered ''internal ip'' e))
         else (e, None))"

definition new_traffic_filter ::
  "(string \<Rightarrow> string) \<Rightarrow> ('addr, 'prefix) netip \<Rightarrow> filter_config \<Rightarrow> go_error + stage" where
  "new_traffic_filter uni ni cfg =
     (let tokens0 = normalize_bot_tokens uni (fc_bot_user_agents cfg);
          tokens = (if tokens0 = [] then default_bot_tokens else tokens0)
      in (case parse_cidrs ni (fc_internal_cidrs cfg) of
            Inl e \<Rightarrow> Inl e
          | Inr ps \<Rightarrow>
              (case parse_internal_ips ni (fc_internal_ips cfg) of
                 Inl e \<Rightarrow> Inl e
               | Inr as \<Rightarrow> Inr (filter_stage uni ni
                   \<lparr>tf_bot_tokens = tokens, tf_internal_cidrs = ps, tf_internal_ips = as\<rparr>))))"

section \<open>The contract of a stage\<close>

text \<open>What identifies an event and may not be rewritten before the queue.\<close>

definition same_event :: "event_envelope \<Rightarrow> event_envelope \<Rightarrow> bool" where
  "same_event e e' \<longleftrightarrow>
     env_id e' = env_id e \<and> env_tenant_id e' = env_tenant_id e \<and> env_project_id e' = env_project_id e \<and>
     env_source_id e' = env_source_id e \<and> env_source_type e' = env_source_type e \<and>
     env_event_name e' = env_event_name e \<and> env_distinct_id e' = env_distinct_id e \<and>
     env_event_time e' = env_event_time e \<and> env_received_at e' = env_received_at e \<and>
     env_user_props e' = env_user_props e \<and> env_source e' = env_source e \<and>
     (env_session_id e \<noteq> [] \<longrightarrow> env_session_id e' = env_session_id e) \<and>
     (env_visit_id e \<noteq> [] \<longrightarrow> env_visit_id e' = env_visit_id e) \<and>
     (\<forall>k v. map_get (env_properties e) k = Some v \<longrightarrow> map_get (env_properties e') k = Some v)"

lemma same_event_refl: "same_event e e"
  by (simp add: same_event_def)

lemma same_event_trans: "same_event a b \<Longrightarrow> same_event b c \<Longrightarrow> same_event a c"
  by (auto simp: same_event_def)

locale collect_stage =
  fixes pf :: "string \<Rightarrow> go_float option" and stage :: stage
  assumes stage_wf: "wf_envelope pf e \<Longrightarrow> stage inp e = (e', None) \<Longrightarrow> wf_envelope pf e'"
    and stage_same: "stage inp e = (e', None) \<Longrightarrow> same_event e e'"
    and stage_error: "wf_envelope pf e \<Longrightarrow> stage inp e = (e', Some err) \<Longrightarrow>
      \<exists>reason. err = ErrFiltered reason e \<and> e' = e"
begin

lemma stage_cases:
  assumes "wf_envelope pf e"
  shows "(\<exists>e'. stage inp e = (e', None) \<and> wf_envelope pf e' \<and> same_event e e') \<or>
    (\<exists>reason. stage inp e = (e, Some (ErrFiltered reason e)))"
proof -
  obtain e' r where s: "stage inp e = (e', r)" by fastforce
  then show ?thesis
    using stage_wf [OF assms] stage_same stage_error [OF assms] by (cases r) auto
qed

end

text \<open>A chain of stages, run until one of them reports an error.\<close>

fun run_stages :: "stage list \<Rightarrow> stage_input \<Rightarrow> event_envelope \<Rightarrow> event_envelope \<times> go_error option" where
  "run_stages [] inp e = (e, None)"
| "run_stages (s # ss) inp e =
     (case s inp e of (e', Some err) \<Rightarrow> (e', Some err) | (e', None) \<Rightarrow> run_stages ss inp e')"

locale stage_chain =
  fixes pf :: "string \<Rightarrow> go_float option" and stages :: "stage list"
  assumes members: "s \<in> set stages \<Longrightarrow> collect_stage pf s"
begin

lemma chain_cases_aux:
  assumes "set ss \<subseteq> set stages" and "wf_envelope pf e"
  shows "(\<exists>e'. run_stages ss inp e = (e', None) \<and> wf_envelope pf e' \<and> same_event e e') \<or>
    (\<exists>reason e'. run_stages ss inp e = (e', Some (ErrFiltered reason e')) \<and> wf_envelope pf e' \<and> same_event e e')"
  using assms
proof (induction ss arbitrary: e)
  case Nil
  then show ?case by (simp add: same_event_refl)
next
  case (Cons s ss)
  then have "collect_stage pf s" using members by simp
  from collect_stage.stage_cases [OF this Cons.prems(2), of inp] show ?case
  proof
    assume "\<exists>e'. s inp e = (e', None) \<and> wf_envelope pf e' \<and> same_event e e'"
    then obtain e1 where e1: "s inp e = (e1, None)" "wf_envelope pf e1" "same_event e e1" by blast
    with Cons.IH [of e1] Cons.prems(1) show ?thesis by (auto intro: same_event_trans)
  next
    assume "\<exists>reason. s inp e = (e, Some (ErrFiltered reason e))"
    with Cons.prems(2) show ?thesis by (auto intro: same_event_refl)
  qed
qed

lemmas chain_cases = chain_cases_aux [OF subset_refl]

end

section \<open>Digests and derived ids\<close>

lemma digest_parts_inj:
  assumes "concat (map (\<lambda>p. nul # p) ps) = concat (map (\<lambda>p. nul # p) qs)"
    and "\<forall>p \<in> set ps. nul \<notin> set p" and "\<forall>q \<in> set qs. nul \<notin> set q"
  shows "ps = qs"
  using assms
proof (induction ps arbitrary: qs)
  case Nil
  then show ?case by (cases qs) simp_all
next
  case (Cons p ps)
  then obtain q qs' where qs: "qs = q # qs'" by (cases qs) auto
  let ?tail = "\<lambda>xs. concat (map (\<lambda>p. nul # p) xs)"
  have "p @ ?tail ps = q @ ?tail qs'" using Cons.prems(1) qs by simp
  moreover have "takeWhile (\<lambda>c. c \<noteq> nul) (a @ ?tail xs) = a" if "nul \<notin> set a" for a xs
    using that by (subst takeWhile_append2) (auto, cases xs, auto)
  ultimately have "p = q" using Cons.prems(2,3) qs by (metis list.set_intros(1))
  with \<open>p @ ?tail ps = q @ ?tail qs'\<close> Cons qs show ?case by simp
qed

lemma hex_char_identifier: "is_hex_char c \<Longrightarrow> ident_char c"
  by (auto simp: is_hex_char_def ident_char_def is_alnum_def is_lower_def)

lemma derived_id_identifier:
  assumes "prfx \<in> {''ses_'', ''vis_'', ''ip_''}"
  shows "is_identifier (prfx @ take 32 (salted_digest sha a b ps))"
proof -
  have prefixes: "list_all (\<lambda>p. list_all ident_char p \<and> is_alnum (hd p) \<and> p \<noteq> [] \<and> length p \<le> 4) [''ses_'', ''vis_'', ''ip_'']"
    by code_simp
  have "\<forall>c \<in> set (take 32 (salted_digest sha a b ps)). ident_char c"
    using hex_digest_chars hex_char_identifier
    by (auto simp: salted_digest_def dest!: in_set_takeD)
  moreover have "length (take 32 (salted_digest sha a b ps)) = 32" by (simp add: salted_digest_def)
  moreover have "\<forall>c \<in> set prfx. ident_char c" "is_alnum (hd prfx)" "prfx \<noteq> []" "length prfx \<le> 4"
    using assms prefixes by (auto simp: list_all_iff)
  ultimately show ?thesis by (auto simp: is_identifier_def)
qed

lemmas derived_ids =
  derived_id_identifier [of "''ses_''", simplified] derived_id_identifier [of "''vis_''", simplified]
  derived_id_identifier [of "''ip_''", simplified]

lemmas derived_id_valid = derived_ids [THEN validate_identifier_None [THEN iffD2]]

lemma session_stage_result:
  "session_stage sha cfg inp e =
     (if env_session_id e \<noteq> [] then e
      else e\<lparr>env_session_id := ''ses_'' @ take 32 (salted_digest sha ''session'' (sr_salt cfg) (session_parts cfg inp e))\<rparr>,
      None)"
  by (simp add: session_stage_def Let_def derived_id_valid)

lemma visit_stage_result:
  "visit_stage sha cfg inp e =
     (if env_visit_id e \<noteq> [] then e
      else e\<lparr>env_visit_id := ''vis_'' @ take 32 (salted_digest sha ''visit'' (vr_salt cfg) (visit_parts cfg e))\<rparr>,
      None)"
  by (simp add: visit_stage_def Let_def derived_id_valid)

interpretation session_stage: collect_stage pf "session_stage sha cfg" for pf sha cfg
  by unfold_locales
     (auto simp: session_stage_result same_event_def wf_envelope_def derived_ids split: if_splits)

interpretation visit_stage: collect_stage pf "visit_stage sha cfg" for pf sha cfg
  by unfold_locales
     (auto simp: visit_stage_result same_event_def wf_envelope_def derived_ids split: if_splits)

interpretation filter_stage: collect_stage pf "filter_stage uni ni f" for pf uni ni f
  by unfold_locales (auto simp: filter_stage_def Let_def same_event_refl split: if_splits)

section \<open>Enrichment\<close>

definition reserved_keys :: "string list" where
  "reserved_keys =
     [''client.user_agent'', ''client.referrer'', ''client.ip_hash'', ''client.browser'', ''client.os'',
      ''client.device'', ''geo.country'', ''geo.region'', ''geo.city'']"

lemma reserved_keys_identifiers: "\<forall>k \<in> set reserved_keys. is_identifier k"
  by code_simp

lemma length_truncate_property_string: "length (truncate_property_string s) \<le> 2048"
  by (simp add: truncate_property_string_def Let_def max_property_str_len_def)

lemma length_ip_hash: "length (ip_hash sha cfg ip) \<le> 2048"
  by (simp add: ip_hash_def salted_digest_def)

text \<open>What adding generated properties to a map may do to it.\<close>

definition extends_props :: "(string \<Rightarrow> go_float option) \<Rightarrow> props \<Rightarrow> props \<Rightarrow> bool" where
  "extends_props pf m m' \<longleftrightarrow>
     (valid_props pf m \<longrightarrow> valid_props pf m') \<and>
     (wf_map m \<longrightarrow> wf_map m') \<and>
     (\<forall>k v. map_get m k = Some v \<longrightarrow> map_get m' k = Some v) \<and>
     (\<forall>k. map_get m k = None \<and> k \<notin> set reserved_keys \<longrightarrow> map_get m' k = None)"

lemma extends_props_refl: "extends_props pf m m"
  by (simp add: extends_props_def)

lemma extends_props_trans: "extends_props pf a b \<Longrightarrow> extends_props pf b c \<Longrightarrow> extends_props pf a c"
  unfolding extends_props_def by blast

lemma put_generated_property_extends:
  assumes "key \<in> set reserved_keys" and "length v \<le> 2048"
  shows "extends_props pf m (put_generated_property m key v)"
proof -
  have id: "is_identifier key" using assms(1) reserved_keys_identifiers by blast
  have "entries (put_generated_property m key v) = entries m \<or>
      put_generated_property m key v = Some (entries m @ [(key, VString v)]) \<and>
      map_get m key = None \<and> map_len m < 64"
    by (cases m) (auto simp: put_generated_property_def map_get_def max_property_count_def Let_def)
  then consider (same) "entries (put_generated_property m key v) = entries m"
    | (new) "put_generated_property m key v = Some (entries m @ [(key, VString v)])"
        "map_get m key = None" "map_len m < 64"
    by (elim disjE conjE)
  then show ?thesis
  proof cases
    case same
    then show ?thesis by (simp add: extends_props_def valid_props_def wf_map_def map_get_def)
  next
    case new
    then show ?thesis
      using id assms
      by (auto simp: extends_props_def valid_props_def wf_map_def map_get_def map_add_def map_of_eq_None_iff
          split: option.splits)
         (force dest: map_of_SomeD)
  qed
qed

lemmas put_reserved =
  put_generated_property_extends [OF _ length_truncate_property_string]
  put_generated_property_extends [OF _ length_ip_hash]

lemma put_user_agent_extends: "extends_props pf m (put_user_agent_properties m info)"
  unfolding put_user_agent_properties_def Let_def
  by (intro extends_props_trans [OF _ put_reserved(1)] extends_props_refl) (simp_all add: reserved_keys_def)

lemma put_geo_extends: "extends_props pf m (put_geo_properties m resolver ip)"
proof (cases "resolver ip")
  case None
  then show ?thesis by (simp add: put_geo_properties_def extends_props_refl)
next
  case (Some loc)
  show ?thesis
    unfolding put_geo_properties_def Some option.case Let_def
    by (intro extends_props_trans [OF _ put_reserved(1)] extends_props_refl) (simp_all add: reserved_keys_def)
qed

lemma extends_props_if:
  "(b \<Longrightarrow> extends_props pf m x) \<Longrightarrow> (\<not> b \<Longrightarrow> extends_props pf m y) \<Longrightarrow> extends_props pf m (if b then x else y)"
  by simp

lemma enrich_properties_extends: "extends_props pf m (enrich_properties sha cfg client m)"
proof -
  have case_option: "extends_props pf a (case x of None \<Rightarrow> a | Some y \<Rightarrow> f y)"
    if "\<And>y. extends_props pf a (f y)" for a x and f :: "'a \<Rightarrow> props"
    using that by (cases x) (simp_all add: extends_props_refl)
  have one: "extends_props pf m (if b then put_generated_property a k (truncate_property_string s) else a)"
    if "extends_props pf m a" "k \<in> set reserved_keys" for a b k s
    using that put_reserved(1) extends_props_trans by (cases b) auto
  have two: "extends_props pf m (if b then put_generated_property a k (ip_hash sha cfg s) else a)"
    if "extends_props pf m a" "k \<in> set reserved_keys" for a b k s
    using that put_reserved(2) extends_props_trans by (cases b) auto
  have three: "extends_props pf m (if b then (case x of None \<Rightarrow> a | Some y \<Rightarrow> put_user_agent_properties a (y s)) else a)"
    if "extends_props pf m a" for a b s and x :: "(string \<Rightarrow> user_agent_info) option"
    using that put_user_agent_extends extends_props_trans by (cases x; cases b) auto
  have four: "extends_props pf m (if b then (case x of None \<Rightarrow> a | Some y \<Rightarrow> put_geo_properties a y s) else a)"
    if "extends_props pf m a" for a b s and x :: "(string \<Rightarrow> geo_location option) option"
    using that put_geo_extends extends_props_trans by (cases x; cases b) auto
  show ?thesis
    unfolding enrich_properties_def Let_def
    by (intro four three two one extends_props_refl) (simp_all add: reserved_keys_def)
qed

lemma map_get_clone [simp]: "map_get (clone_map m) k = map_get m k"
  by (simp add: map_get_def)

interpretation enrichment_stage: collect_stage pf "enrichment_stage sha cfg" for pf sha cfg
proof unfold_locales
  fix e inp e'
  assume "wf_envelope pf e" and "enrichment_stage sha cfg inp e = (e', None)"
  then show "wf_envelope pf e'"
    using enrich_properties_extends [of pf "clone_map (env_properties e)" sha cfg]
    by (auto simp: enrichment_stage_def wf_envelope_def extends_props_def)
next
  fix inp e e'
  assume "enrichment_stage sha cfg inp e = (e', None)"
  then show "same_event e e'"
    using enrich_properties_extends [of pf "clone_map (env_properties e)" sha cfg]
    by (auto simp: enrichment_stage_def same_event_def extends_props_def)
next
  fix e inp e' err
  assume "enrichment_stage sha cfg inp e = (e', Some err)"
  then show "\<exists>reason. err = ErrFiltered reason e \<and> e' = e"
    by (simp add: enrichment_stage_def)
qed

section \<open>Every stage the package can build\<close>

inductive built_stage :: "('addr, 'prefix) netip \<Rightarrow> stage \<Rightarrow> bool" for ni where
  built_session: "new_session_resolver sha sc = Inr s \<Longrightarrow> built_stage ni s"
| built_visit: "new_visit_resolver sha vc = Inr s \<Longrightarrow> built_stage ni s"
| built_enrichment: "new_client_enrichment sha uni ec = Inr s \<Longrightarrow> built_stage ni s"
| built_filter: "new_traffic_filter uni ni fc = Inr s \<Longrightarrow> built_stage ni s"

inductive_cases built_stageE: "built_stage ni s"

lemma new_session_resolver_Inr:
  "new_session_resolver sha cfg = Inr s \<Longrightarrow> \<exists>c. s = session_stage sha c \<and> minute \<le> sr_window c \<and> sr_salt c \<noteq> []"
  by (auto simp: new_session_resolver_def Let_def split: if_splits)

lemma new_visit_resolver_Inr:
  "new_visit_resolver sha cfg = Inr s \<Longrightarrow> \<exists>c. s = visit_stage sha c \<and> minute \<le> vr_window c \<and> vr_salt c \<noteq> []"
  by (auto simp: new_visit_resolver_def Let_def split: if_splits)

lemma new_client_enrichment_Inr:
  "new_client_enrichment sha uni cfg = Inr s \<Longrightarrow> \<exists>c. s = enrichment_stage sha c"
  by (auto simp: new_client_enrichment_def Let_def split: if_splits)

lemma new_traffic_filter_Inr:
  "new_traffic_filter uni ni cfg = Inr s \<Longrightarrow> \<exists>f. s = filter_stage uni ni f"
  by (auto simp: new_traffic_filter_def Let_def split: sum.splits)

lemma built_stage_contract: "built_stage ni s \<Longrightarrow> collect_stage pf s"
  by (erule built_stageE)
     (auto dest!: new_session_resolver_Inr new_visit_resolver_Inr new_client_enrichment_Inr new_traffic_filter_Inr
       intro: session_stage.collect_stage_axioms visit_stage.collect_stage_axioms
         enrichment_stage.collect_stage_axioms filter_stage.collect_stage_axioms)

section \<open>Windows\<close>

lemma bucket_of_window:
  assumes "minute \<le> w"
  shows "time_bucket s w = time_bucket t w \<longleftrightarrow> tm_ns s div w = tm_ns t div w"
proof -
  have sec: "(0::int) < 1000000000" "60 * 1000000000 \<le> w" using assms by (simp_all add: minute_def second_def)
  have trunc: "n - n mod w = w * (n div w)" for n by (simp add: minus_mod_eq_mult_div)
  have mono: "w * a div 1000000000 < w * b div 1000000000" if "a < b" for a b
  proof -
    have "w * a + 1000000000 \<le> w * (a + 1)" using sec by (simp add: algebra_simps)
    also have "\<dots> \<le> w * b" using that sec by (intro mult_left_mono) auto
    finally have "(w * a + 1000000000) div 1000000000 \<le> w * b div 1000000000" by (rule zdiv_mono1) simp
    then show ?thesis by simp
  qed
  have "time_bucket s w = time_bucket t w \<longleftrightarrow>
      w * (tm_ns s div w) div 1000000000 = w * (tm_ns t div w) div 1000000000"
    using sec
    by (auto simp: time_bucket_def unix_seconds_def truncate_time_def trunc second_def dest!: format_int_inj)
  also have "\<dots> \<longleftrightarrow> tm_ns s div w = tm_ns t div w"
    using mono by (metis linorder_neqE less_irrefl)
  finally show ?thesis .
qed

lemma nul_facts: "\<not> ident_char nul" "\<not> is_digit nul" "nul \<noteq> CHR ''-''"
  by code_simp+

lemma identifier_no_nul: "is_identifier s \<Longrightarrow> nul \<notin> set s"
  using nul_facts(1) by (auto simp: is_identifier_def)

lemma format_int_no_nul: "nul \<notin> set (format_int i)"
  using dec_nat_digits nul_facts(2,3) by (auto simp: format_int_def)

section \<open>Properties\<close>

definition sample_session_config :: session_config where
  "sample_session_config = \<lparr>sr_salt = ''pepper'', sr_window = default_session_window, sr_include_fingerprint = False\<rparr>"

definition sample_input :: stage_input where
  "sample_input = \<lparr>si_request = sample_request, si_received_at = sample_time\<rparr>"

definition sample_envelope :: event_envelope where
  "sample_envelope =
     \<lparr>env_id = ''evt-1'', env_tenant_id = ''t1'', env_project_id = ''p1'', env_source_id = ''s1'',
      env_source_type = ''web'', env_event_name = ''pageview'', env_distinct_id = ''u1'', env_session_id = [],
      env_visit_id = [], env_event_time = \<lparr>tm_ns = 5000000000, tm_zone = ZoneUTC\<rparr>,
      env_received_at = \<lparr>tm_ns = 7000000000, tm_zone = ZoneUTC\<rparr>,
      env_properties = Some [(''client.os'', VString ''BeOS'')], env_user_props = None, env_source = []\<rparr>"

lemma sample_envelope_wf: "wf_envelope pf sample_envelope"
proof -
  have "trim_space [] = []" by simp
  then show ?thesis
    by (simp add: wf_envelope_def sample_envelope_def is_identifier_def is_source_type_def ident_char_def
        is_alnum_def is_upper_def is_lower_def is_digit_def source_type_char_def valid_props_def)
qed

text \<open>
  Derived session ids separate exactly what they should: for events without a session id and
  without client fingerprinting, the material hashed for two events is the same if and only if they
  agree on tenant, project, source and visitor and their event times lie in the same window, so a
  retry keeps its id and no scope can imitate another one. The derived id is always an identifier
  and the stage never fails.
\<close>

theorem session_id_separates:
  assumes "wf_envelope pf e1" and "wf_envelope pf e2" and "minute \<le> sr_window cfg"
    and "\<not> sr_include_fingerprint cfg" and "env_session_id e1 = []"
  shows "(digest_input ''session'' (sr_salt cfg) (session_parts cfg i1 e1)
        = digest_input ''session'' (sr_salt cfg) (session_parts cfg i2 e2) \<longleftrightarrow>
      env_tenant_id e1 = env_tenant_id e2 \<and> env_project_id e1 = env_project_id e2 \<and>
      env_source_id e1 = env_source_id e2 \<and> env_distinct_id e1 = env_distinct_id e2 \<and>
      tm_ns (env_event_time e1) div sr_window cfg = tm_ns (env_event_time e2) div sr_window cfg) \<and>
    (\<exists>sid. is_identifier sid \<and> session_stage sha cfg i1 e1 = (e1\<lparr>env_session_id := sid\<rparr>, None))"
proof -
  have clean: "\<forall>p \<in> set (session_parts cfg i e). nul \<notin> set p" if "wf_envelope pf e" for i e
    using that assms(4) by (auto simp: session_parts_def wf_envelope_def identifier_no_nul time_bucket_def format_int_no_nul)
  have "digest_input ''session'' (sr_salt cfg) (session_parts cfg i1 e1)
        = digest_input ''session'' (sr_salt cfg) (session_parts cfg i2 e2) \<longleftrightarrow>
      session_parts cfg i1 e1 = session_parts cfg i2 e2"
    using digest_parts_inj clean assms(1,2) by (auto simp: digest_input_def)
  moreover have "session_parts cfg i1 e1 = session_parts cfg i2 e2 \<longleftrightarrow>
      env_tenant_id e1 = env_tenant_id e2 \<and> env_project_id e1 = env_project_id e2 \<and>
      env_source_id e1 = env_source_id e2 \<and> env_distinct_id e1 = env_distinct_id e2 \<and>
      tm_ns (env_event_time e1) div sr_window cfg = tm_ns (env_event_time e2) div sr_window cfg"
    using assms(4) bucket_of_window [OF assms(3)] by (simp add: session_parts_def Let_def)
  moreover have "\<exists>sid. is_identifier sid \<and> session_stage sha cfg i1 e1 = (e1\<lparr>env_session_id := sid\<rparr>, None)"
    using derived_ids(1) by (simp add: session_stage_result assms(5)) blast
  ultimately show ?thesis by blast
qed

theorem session_id_separates_witness:
  "(digest_input ''session'' (sr_salt sample_session_config) (session_parts sample_session_config sample_input sample_envelope)
        = digest_input ''session'' (sr_salt sample_session_config)
            (session_parts sample_session_config sample_input (sample_envelope\<lparr>env_distinct_id := ''u2''\<rparr>)) \<longleftrightarrow>
      env_tenant_id sample_envelope = env_tenant_id (sample_envelope\<lparr>env_distinct_id := ''u2''\<rparr>) \<and>
      env_project_id sample_envelope = env_project_id (sample_envelope\<lparr>env_distinct_id := ''u2''\<rparr>) \<and>
      env_source_id sample_envelope = env_source_id (sample_envelope\<lparr>env_distinct_id := ''u2''\<rparr>) \<and>
      env_distinct_id sample_envelope = env_distinct_id (sample_envelope\<lparr>env_distinct_id := ''u2''\<rparr>) \<and>
      tm_ns (env_event_time sample_envelope) div sr_window sample_session_config
        = tm_ns (env_event_time (sample_envelope\<lparr>env_distinct_id := ''u2''\<rparr>)) div sr_window sample_session_config) \<and>
    (\<exists>sid. is_identifier sid \<and> session_stage (\<lambda>_. 0) sample_session_config sample_input sample_envelope
        = (sample_envelope\<lparr>env_session_id := sid\<rparr>, None))"
proof (rule session_id_separates [where pf = "\<lambda>_. None"])
  show "wf_envelope (\<lambda>_. None) (sample_envelope\<lparr>env_distinct_id := ''u2''\<rparr>)"
    using sample_envelope_wf [of "\<lambda>_. None"]
    by (simp add: wf_envelope_def is_identifier_def ident_char_def is_alnum_def is_upper_def is_lower_def is_digit_def)
  show "env_session_id sample_envelope = []" by (simp add: sample_envelope_def)
qed (simp_all add: sample_envelope_wf sample_session_config_def default_session_window_def minute_def second_def)

text \<open>
  Enrichment never rejects an event and only ever adds reserved properties: every property the
  client sent keeps its value, no other key appears, keys stay distinct, and the limits of the
  protocol (64 entries, key and string lengths) still hold.
\<close>

theorem enrichment_conservative:
  assumes "valid_props pf (env_properties e)" and "wf_map (env_properties e)"
  shows "\<exists>m. enrichment_stage sha cfg inp e = (e\<lparr>env_properties := m\<rparr>, None) \<and>
    valid_props pf m \<and> wf_map m \<and>
    (\<forall>k v. map_get (env_properties e) k = Some v \<longrightarrow> map_get m k = Some v) \<and>
    (\<forall>k. map_get (env_properties e) k = None \<and> k \<notin> set reserved_keys \<longrightarrow> map_get m k = None)"
  using assms enrich_properties_extends [of pf "clone_map (env_properties e)" sha cfg
      "normalize_client_info (rq_client (si_request inp))"]
  by (auto simp: enrichment_stage_def extends_props_def wf_map_def)

definition sample_enrichment_config :: enrichment_config where
  "sample_enrichment_config =
     \<lparr>en_hash_salt = ''pepper'', en_user_agent = True, en_ip_hash = True, en_referrer = True,
      en_browser_info = True, en_geo_info = False, en_parser = Some (default_user_agent_parser id),
      en_resolver = None\<rparr>"

theorem enrichment_conservative_witness:
  "\<exists>m. enrichment_stage (\<lambda>_. 0) sample_enrichment_config sample_input sample_envelope
      = (sample_envelope\<lparr>env_properties := m\<rparr>, None) \<and>
    valid_props (\<lambda>_. None) m \<and> wf_map m \<and>
    (\<forall>k v. map_get (env_properties sample_envelope) k = Some v \<longrightarrow> map_get m k = Some v) \<and>
    (\<forall>k. map_get (env_properties sample_envelope) k = None \<and> k \<notin> set reserved_keys \<longrightarrow> map_get m k = None)"
  by (rule enrichment_conservative)
     (use sample_envelope_wf [of "\<lambda>_. None"] in \<open>simp_all add: wf_envelope_def wf_map_def sample_envelope_def\<close>)

definition with_ip :: "string \<Rightarrow> stage_input \<Rightarrow> stage_input" where
  "with_ip ip inp =
     inp\<lparr>si_request := (si_request inp)\<lparr>rq_client := (rq_client (si_request inp))\<lparr>ci_ip := ip\<rparr>\<rparr>\<rparr>"

definition ip_indistinguishable :: "(string \<Rightarrow> 256 word) \<Rightarrow> enrichment_config \<Rightarrow> string \<Rightarrow> string \<Rightarrow> bool" where
  "ip_indistinguishable sha cfg a b \<longleftrightarrow>
     (en_ip_hash cfg \<or> en_geo_info cfg \<longrightarrow> (trim_space a = [] \<longleftrightarrow> trim_space b = [])) \<and>
     (en_ip_hash cfg \<longrightarrow> take 32 (salted_digest sha ''client-ip'' (en_hash_salt cfg) [trim_space a])
        = take 32 (salted_digest sha ''client-ip'' (en_hash_salt cfg) [trim_space b])) \<and>
     (en_geo_info cfg \<longrightarrow> (\<forall>resolver. en_resolver cfg = Some resolver \<longrightarrow>
        resolver (trim_space a) = resolver (trim_space b)))"

text \<open>
  C32. The address of the client leaves the enrichment stage only as its salted hash and its coarse
  location: requests that differ in their addresses alone, with the same hash input digest and the
  same location, produce the same envelope, and with both features off the address has no effect.
\<close>

theorem enrichment_hides_ip:
  assumes "ip_indistinguishable sha cfg a b"
  shows "enrichment_stage sha cfg (with_ip a inp) e = enrichment_stage sha cfg (with_ip b inp) e"
proof -
  let ?c = "\<lambda>ip. normalize_client_info (rq_client (si_request (with_ip ip inp)))"
  have c: "ci_user_agent (?c a) = ci_user_agent (?c b)" "ci_referrer (?c a) = ci_referrer (?c b)"
    "ci_ip (?c ip) = trim_space ip" for ip
    by (simp_all add: with_ip_def normalize_client_info_def)
  have h: "(if en_ip_hash cfg \<and> trim_space a \<noteq> [] then put_generated_property m k (ip_hash sha cfg (trim_space a)) else m)
      = (if en_ip_hash cfg \<and> trim_space b \<noteq> [] then put_generated_property m k (ip_hash sha cfg (trim_space b)) else m)"
    for m k
    using assms by (auto simp: ip_indistinguishable_def ip_hash_def)
  have g: "(if en_geo_info cfg \<and> trim_space a \<noteq> []
        then (case en_resolver cfg of None \<Rightarrow> m | Some resolver \<Rightarrow> put_geo_properties m resolver (trim_space a)) else m)
      = (if en_geo_info cfg \<and> trim_space b \<noteq> []
        then (case en_resolver cfg of None \<Rightarrow> m | Some resolver \<Rightarrow> put_geo_properties m resolver (trim_space b)) else m)"
    for m
    using assms by (cases "en_resolver cfg") (auto simp: ip_indistinguishable_def put_geo_properties_def)
  show ?thesis
    unfolding enrichment_stage_def enrich_properties_def c(1,2) unfolding c(3) by (simp only: h g)
qed

theorem enrichment_hides_ip_witness:
  "enrichment_stage (\<lambda>_. 7) sample_enrichment_config (with_ip ''10.0.0.1'' sample_input) sample_envelope
     = enrichment_stage (\<lambda>_. 7) sample_enrichment_config (with_ip ''10.0.0.2'' sample_input) sample_envelope"
proof (rule enrichment_hides_ip)
  have "trim_space ''10.0.0.1'' = ''10.0.0.1''" "trim_space ''10.0.0.2'' = ''10.0.0.2''"
    by (rule trim_space_solid; simp add: solid_def space_runes_def)+
  then show "ip_indistinguishable (\<lambda>_. 7) sample_enrichment_config ''10.0.0.1'' ''10.0.0.2''"
    by (simp add: ip_indistinguishable_def sample_enrichment_config_def salted_digest_def)
qed

end
