(* ===== verification/Collect_Handler.thy ===== *)
theory Collect_Handler
  imports Collect_Stages
begin

text \<open>
  Package \<open>collect\<close>, files \<open>handler.go\<close> and \<open>WithStages\<close> of \<open>stage.go\<close>: the transport-neutral collect
  handler, which normalizes a request, runs the stages and publishes.

  The event bus and the clock act on the world \<open>'w\<close>; an option is a function on the handler under
  construction that may fail, nil is \<^const>\<open>None\<close>. The main result says exactly when \<open>Publish\<close> is
  called, and with what.
\<close>

record 'w collect_handler =
  ch_publish :: "event_envelope \<Rightarrow> 'w \<Rightarrow> go_error option \<times> 'w"
  ch_now :: "'w \<Rightarrow> gotime \<times> 'w"
  ch_stages :: "stage list"

type_synonym 'w handler_option = "'w collect_handler \<Rightarrow> go_error + 'w collect_handler"

fun with_stages :: "stage option list \<Rightarrow> 'w handler_option" where
  "with_stages [] h = Inr h"
| "with_stages (None # ss) h = Inl (ErrText ''collect stage is required'')"
| "with_stages (Some s # ss) h = with_stages ss (h\<lparr>ch_stages := ch_stages h @ [s]\<rparr>)"

fun apply_options :: "'w handler_option option list \<Rightarrow> 'w collect_handler \<Rightarrow> go_error + 'w collect_handler" where
  "apply_options [] h = Inr h"
| "apply_options (None # os) h = Inl (ErrText ''collect handler option is required'')"
| "apply_options (Some f # os) h = (case f h of Inl e \<Rightarrow> Inl e | Inr h1 \<Rightarrow> apply_options os h1)"

definition new_handler_with_options ::
  "('w \<Rightarrow> gotime \<times> 'w) \<Rightarrow> (event_envelope \<Rightarrow> 'w \<Rightarrow> go_error option \<times> 'w) option \<Rightarrow>
   ('w \<Rightarrow> gotime \<times> 'w) option \<Rightarrow> 'w handler_option option list \<Rightarrow> go_error + 'w collect_handler" where
  "new_handler_with_options time_now bus now opts =
     (case bus of
        None \<Rightarrow> Inl (ErrText ''event bus is required'')
      | Some publish \<Rightarrow>
          apply_options opts
            \<lparr>ch_publish = publish, ch_now = (case now of None \<Rightarrow> time_now | Some f \<Rightarrow> f), ch_stages = []\<rparr>)"

definition new_handler ::
  "('w \<Rightarrow> gotime \<times> 'w) \<Rightarrow> (event_envelope \<Rightarrow> 'w \<Rightarrow> go_error option \<times> 'w) option \<Rightarrow>
   ('w \<Rightarrow> gotime \<times> 'w) option \<Rightarrow> go_error + 'w collect_handler" where
  "new_handler time_now bus now = new_handler_with_options time_now bus now []"

definition handle ::
  "(string \<Rightarrow> go_float option) \<Rightarrow> 'w collect_handler option \<Rightarrow> request \<Rightarrow> 'w \<Rightarrow>
   (event_envelope \<times> go_error option) \<times> 'w" where
  "handle pf ho r w =
     (case ho of
        None \<Rightarrow> ((empty_envelope, Some (ErrText ''collect handler is required'')), w)
      | Some h \<Rightarrow>
          (case ch_now h w of
             (received_at, w1) \<Rightarrow>
               (case normalize pf r received_at of
                  Inl e \<Rightarrow> ((empty_envelope, Some e), w1)
                | Inr envl \<Rightarrow>
                    (case run_stages (ch_stages h)
                        \<lparr>si_request = trim_request r, si_received_at = utc received_at\<rparr> envl of
                       (envl', Some e) \<Rightarrow> ((envl', Some e), w1)
                     | (envl', None) \<Rightarrow>
                         (case ch_publish h envl' w1 of
                            (Some e, w2) \<Rightarrow> ((empty_envelope, Some e), w2)
                          | (None, w2) \<Rightarrow> ((envl', None), w2))))))"

section \<open>Construction\<close>

lemma with_stages_Inr:
  "with_stages ss h = Inr h' \<Longrightarrow> \<exists>xs. ss = map Some xs \<and> h' = h\<lparr>ch_stages := ch_stages h @ xs\<rparr>"
proof (induction ss h rule: with_stages.induct)
  case (3 s ss h)
  then obtain xs where "ss = map Some xs" "h' = h\<lparr>ch_stages := (ch_stages h @ [s]) @ xs\<rparr>" by auto
  then show ?case by (intro exI [of _ "s # xs"]) simp
qed auto

text \<open>The built-in stages behind one handler, whatever their configuration: an instance of the chain contract.\<close>

lemma built_chain: "\<forall>s \<in> set stages. built_stage ni s \<Longrightarrow> stage_chain pf stages"
  using built_stage_contract by (blast intro: stage_chain.intro)

interpretation default_chain: stage_chain pf
  "[filter_stage uni ni f, session_stage sha sc, visit_stage sha vc, enrichment_stage sha ec]"
  for pf uni ni f sha sc vc ec
  by (rule stage_chain.intro)
     (auto intro: session_stage.collect_stage_axioms visit_stage.collect_stage_axioms
        enrichment_stage.collect_stage_axioms filter_stage.collect_stage_axioms)

lemma handle_outcome:
  assumes "\<forall>s \<in> set (ch_stages h). built_stage ni s" and "ch_now h w = (received_at, w1)"
    and "handle pf (Some h) r w = ((e, err), w')"
  shows "case normalize pf r received_at of
      Inl x \<Rightarrow> err = Some x \<and> w' = w1
    | Inr e0 \<Rightarrow>
        (\<exists>reason. err = Some (ErrFiltered reason e) \<and> w' = w1 \<and> wf_envelope pf e \<and> same_event e0 e) \<or>
        (\<exists>e1. wf_envelope pf e1 \<and> same_event e0 e1 \<and> ch_publish h e1 w1 = (err, w') \<and>
           (err = None \<longrightarrow> e = e1))"
proof (cases "normalize pf r received_at")
  case (Inl x)
  with assms(2,3) show ?thesis by (simp add: handle_def)
next
  case (Inr e0)
  have wf: "wf_envelope pf e0"
  proof -
    from Inr have a: "admissible pf r received_at" and e0: "e0 = envelope_of (trim_request r) received_at"
      by (simp_all add: normalize_Inr)
    show ?thesis by (rule wf_envelope_of [OF a, folded e0])
  qed
  let ?inp = "\<lparr>si_request = trim_request r, si_received_at = utc received_at\<rparr>"
  have "stage_chain pf (ch_stages h)" using assms(1) by (rule built_chain)
  from stage_chain.chain_cases [OF this wf, of ?inp] show ?thesis
  proof
    assume "\<exists>e'. run_stages (ch_stages h) ?inp e0 = (e', None) \<and> wf_envelope pf e' \<and> same_event e0 e'"
    then obtain e1 where e1: "run_stages (ch_stages h) ?inp e0 = (e1, None)" "wf_envelope pf e1" "same_event e0 e1"
      by blast
    obtain perr w2 where p: "ch_publish h e1 w1 = (perr, w2)" by fastforce
    with assms(2,3) Inr e1 show ?thesis by (cases perr) (auto simp: handle_def)
  next
    assume "\<exists>reason e'. run_stages (ch_stages h) ?inp e0 = (e', Some (ErrFiltered reason e')) \<and>
      wf_envelope pf e' \<and> same_event e0 e'"
    with assms(2,3) Inr show ?thesis by (auto simp: handle_def)
  qed
qed

section \<open>Properties\<close>


text \<open>A handler that logs what it publishes, with one session stage.\<close>

definition sample_handler :: "event_envelope list collect_handler" where
  "sample_handler =
     \<lparr>ch_publish = (\<lambda>e w. if w = [] then (None, [e]) else (Some (ErrExternal ''broker down''), w)), ch_now = (\<lambda>w. (sample_time, w)),
      ch_stages = [session_stage (\<lambda>_. 0) sample_session_config]\<rparr>"

lemma sample_handler_built: "\<forall>s \<in> set (ch_stages sample_handler). built_stage ni s"
proof -
  have "new_session_resolver (\<lambda>_. 0) sample_session_config = Inr (session_stage (\<lambda>_. 0) sample_session_config)"
    by (simp add: new_session_resolver_def sample_session_config_def default_session_window_def minute_def
        second_def Let_def)
  then show ?thesis by (auto simp: sample_handler_def intro: built_session)
qed


end
