(* ===== verification/Http_Api.thy ===== *)
theory Http_Api
  imports Collect_Handler
begin

text \<open>
  Package \<open>collect/httpapi\<close>: the HTTP boundary of collect. A Fiber context is the record \<open>http_request\<close>
  (method, body, header lookup, remote address); JSON decoding of the body and the RFC 3339 format of a
  time are arguments. The response is its status code and JSON body.

  The lemmas show what each status code promises about the event, and that forwarded headers cannot
  influence the client address unless they are trusted.
\<close>

section \<open>Requests and responses\<close>

record http_request =
  hr_method :: string
  hr_body :: string
  hr_header :: "string \<Rightarrow> string"
  hr_ip :: string

datatype http_body =
    AcceptedResponse string string bool      \<comment> \<open>id, received at, filtered\<close>
  | ErrorResponse string

type_synonym http_response = "nat \<times> http_body"

text \<open>\<open>newCollectHandlerConfig\<close>: each option sets fields, nil options are ignored.\<close>

record collect_config =
  cc_trust_forwarded :: bool

definition with_trusted_proxy_headers :: "collect_config \<Rightarrow> collect_config" where
  "with_trusted_proxy_headers c = c\<lparr>cc_trust_forwarded := True\<rparr>"

definition new_collect_config :: "(collect_config \<Rightarrow> collect_config) option list \<Rightarrow> collect_config" where
  "new_collect_config opts =
     foldl (\<lambda>c f. case f of None \<Rightarrow> c | Some g \<Rightarrow> g c) \<lparr>cc_trust_forwarded = False\<rparr> opts"

section \<open>The client address\<close>

definition canonical_client_ip :: "('addr, 'prefix) netip \<Rightarrow> string \<Rightarrow> string" where
  "canonical_client_ip ni s0 =
     (let s = trim_space s0
      in if s = [] then []
         else
           case ni_parse_addr ni s of
             Some a \<Rightarrow> ni_addr_string ni a
           | None \<Rightarrow> (case ni_parse_addr_port ni s of Some a \<Rightarrow> ni_addr_string ni a | None \<Rightarrow> []))"

definition first_header_value :: "string \<Rightarrow> string" where
  "first_header_value s0 =
     (let s = trim_space s0
      in if s = [] then []
         else if CHR '','' \<in> set s then trim_space (before_comma s)
         else s)"

definition client_ip_from_request :: "('addr, 'prefix) netip \<Rightarrow> collect_config \<Rightarrow> http_request \<Rightarrow> string" where
  "client_ip_from_request ni cfg req =
     (let forwarded = first_header_value (hr_header req ''X-Forwarded-For'');
          real_ip = trim_space (hr_header req ''X-Real-IP'');
          a1 = (if forwarded = [] then [] else canonical_client_ip ni forwarded);
          a2 = (if real_ip = [] then [] else canonical_client_ip ni real_ip)
      in if cc_trust_forwarded cfg \<and> a1 \<noteq> [] then a1
         else if cc_trust_forwarded cfg \<and> a2 \<noteq> [] then a2
         else canonical_client_ip ni (hr_ip req))"

definition client_info_from_request :: "('addr, 'prefix) netip \<Rightarrow> collect_config \<Rightarrow> http_request \<Rightarrow> client_info" where
  "client_info_from_request ni cfg req =
     \<lparr>ci_user_agent = hr_header req ''User-Agent'', ci_ip = client_ip_from_request ni cfg req,
      ci_referrer = hr_header req ''Referer''\<rparr>"

section \<open>The handler\<close>

definition collect_http ::
  "(string \<Rightarrow> go_float option) \<Rightarrow> ('addr, 'prefix) netip \<Rightarrow> (string \<Rightarrow> request option) \<Rightarrow> (gotime \<Rightarrow> string) \<Rightarrow>
   collect_config \<Rightarrow> 'w collect_handler option \<Rightarrow> http_request \<Rightarrow> 'w \<Rightarrow> http_response \<times> 'w" where
  "collect_http pf ni decode fmt cfg ho req w =
     (if ho = None then ((500, ErrorResponse ''collect handler is required''), w)
      else if hr_method req \<noteq> ''POST'' then ((405, ErrorResponse ''method not allowed''), w)
      else
        case decode (hr_body req) of
          None \<Rightarrow> ((400, ErrorResponse ''invalid collect payload''), w)
        | Some r0 \<Rightarrow>
            (case handle pf ho (r0\<lparr>rq_client := client_info_from_request ni cfg req\<rparr>) w of
               ((envl, Some err), w1) \<Rightarrow>
                 (case as_filtered err of
                    Some (reason, fe) \<Rightarrow>
                      let e = (if env_id envl = [] then fe else envl)
                      in ((202, AcceptedResponse (env_id e) (fmt (env_received_at e)) True), w1)
                  | None \<Rightarrow>
                      (case as_validation err of
                         Some (field, reason) \<Rightarrow>
                           ((400, ErrorResponse (error_text (ErrValidation field reason))), w1)
                       | None \<Rightarrow> ((500, ErrorResponse (error_text err)), w1)))
             | ((envl, None), w1) \<Rightarrow>
                 ((202, AcceptedResponse (env_id envl) (fmt (env_received_at envl)) False), w1)))"

text \<open>\<open>RegisterCollectRoute\<close> fails before it touches the application.\<close>

definition register_collect_route :: "bool \<Rightarrow> string \<Rightarrow> go_error option" where
  "register_collect_route has_app path =
     (if \<not> has_app then Some (ErrText ''fiber app is required'')
      else if path = [] then Some (ErrText ''collect path is required'')
      else None)"

text \<open>
  \<open>NewCollectApp\<close>: an application is the function that answers a request for a URL path; \<open>matches\<close> is Fiber's
  routing of a path to a registered pattern. The catch-all handler is registered after the route, so it answers
  what the route does not match. \<open>app_error_handler\<close> is what Fiber calls with an error of a handler.
\<close>

definition app_error_handler :: "go_error \<Rightarrow> http_response" where
  "app_error_handler err = (500, ErrorResponse (error_text err))"

definition not_found_response :: http_response where
  "not_found_response = (404, ErrorResponse ''not found'')"

definition new_collect_app ::
  "(string \<Rightarrow> go_float option) \<Rightarrow> ('addr, 'prefix) netip \<Rightarrow> (string \<Rightarrow> request option) \<Rightarrow> (gotime \<Rightarrow> string) \<Rightarrow>
   (string \<Rightarrow> string \<Rightarrow> bool) \<Rightarrow> string \<Rightarrow> 'w collect_handler option \<Rightarrow> (collect_config \<Rightarrow> collect_config) option list \<Rightarrow>
   go_error + (string \<Rightarrow> http_request \<Rightarrow> 'w \<Rightarrow> http_response \<times> 'w)" where
  "new_collect_app pf ni decode fmt matches path ho opts =
     (case register_collect_route True path of
        Some err \<Rightarrow> Inl err
      | None \<Rightarrow>
          Inr (\<lambda>url req w.
            if matches path url then collect_http pf ni decode fmt (new_collect_config opts) ho req w
            else (not_found_response, w)))"

text \<open>A collect application fails on an empty path only, and answers 404 without an effect off its path.\<close>

lemma new_collect_app_Inr:
  "new_collect_app pf ni decode fmt matches path ho opts = Inr app \<longleftrightarrow>
   path \<noteq> [] \<and> app = (\<lambda>url req w. if matches path url then collect_http pf ni decode fmt (new_collect_config opts) ho req w
                          else (not_found_response, w))"
  by (auto simp: new_collect_app_def register_collect_route_def)

lemma new_collect_app_off_path:
  "new_collect_app pf ni decode fmt matches path ho opts = Inr app \<Longrightarrow> \<not> matches path url \<Longrightarrow> app url req w = (not_found_response, w)"
  by (simp add: new_collect_app_Inr)

text \<open>An event that is reported as accepted and not filtered was well-formed and accepted by the bus.\<close>

lemma http_accepted:
  assumes "\<forall>s \<in> set (ch_stages h). built_stage ni s"
    and "collect_http pf ni decode fmt cfg (Some h) req w = ((status, AcceptedResponse i ts False), w')"
  shows "\<exists>e. wf_envelope pf e \<and> env_id e = i \<and> ch_publish h e (snd (ch_now h w)) = (None, w')"
proof -
  from assms(2) obtain r0 where r0: "decode (hr_body req) = Some r0" and post: "hr_method req = ''POST''"
    by (auto simp: collect_http_def split: if_splits option.splits)
  obtain e err w2 where h: "handle pf (Some h) (r0\<lparr>rq_client := client_info_from_request ni cfg req\<rparr>) w = ((e, err), w2)"
    by (metis surj_pair)
  from assms(2) r0 post h have ok: "err = None" "w2 = w'" "env_id e = i"
    by (auto simp: collect_http_def Let_def split: option.splits prod.splits if_splits)
  from handle_outcome [OF assms(1) surjective_pairing h] ok show ?thesis
    by (auto split: sum.splits)
qed

section \<open>Properties\<close>

text \<open>
  C17. The status code tells the truth. With stages built by the package and a bus whose errors are not
  themselves validation or filter errors: 202 without the filtered flag means that a well-formed
  envelope with the reported id was accepted by the bus; 202 with the flag and 400 mean that the bus
  was not called; and whenever the bus accepted an envelope the answer is 202.
\<close>

theorem http_status_truthful:
  assumes "\<forall>s \<in> set (ch_stages h). built_stage ni s"
    and "\<forall>e w err w'. ch_publish h e w = (Some err, w') \<longrightarrow> as_filtered err = None \<and> as_validation err = None"
    and "hr_method req = ''POST''" and "decode (hr_body req) = Some r0" and "ch_now h w = (t, w1)"
    and "collect_http pf ni decode fmt cfg (Some h) req w = ((status, body), w')"
  shows "(\<exists>e ts. status = 202 \<and> body = AcceptedResponse (env_id e) ts False \<and> wf_envelope pf e \<and>
        env_id e = trim_space (rq_id r0) \<and> ch_publish h e w1 = (None, w')) \<or>
    (\<exists>i ts. status = 202 \<and> body = AcceptedResponse i ts True \<and> i = trim_space (rq_id r0) \<and> w' = w1) \<or>
    (status = 400 \<and> w' = w1) \<or>
    (status = 500 \<and> ((\<exists>e err. ch_publish h e w1 = (Some err, w')) \<or> tm_ns t = 0 \<and> w' = w1))"
proof -
  define r where "r = r0\<lparr>rq_client := client_info_from_request ni cfg req\<rparr>"
  obtain e err w2 where h: "handle pf (Some h) r w = ((e, err), w2)" by (metis surj_pair)
  have w2: "w2 = w'" and resp: "(status, body) = (case err of
      None \<Rightarrow> (202, AcceptedResponse (env_id e) (fmt (env_received_at e)) False)
    | Some x \<Rightarrow> (case as_filtered x of
          Some (reason, fe) \<Rightarrow> (202, AcceptedResponse (env_id (if env_id e = [] then fe else e))
            (fmt (env_received_at (if env_id e = [] then fe else e))) True)
        | None \<Rightarrow> (case as_validation x of
             Some (field, reason) \<Rightarrow> (400, ErrorResponse (error_text (ErrValidation field reason)))
           | None \<Rightarrow> (500, ErrorResponse (error_text x)))))"
    using assms(3,4,6) h
    by (auto simp: collect_http_def r_def Let_def split: option.splits prod.splits)
  note main = handle_outcome [OF assms(1,5) h]
  show ?thesis
  proof (cases "normalize pf r t")
    case (Inl x)
    with main have x: "err = Some x" "w2 = w1" by simp_all
    from normalize_Inl_cases [OF Inl] show ?thesis
      using x resp w2 by auto
  next
    case (Inr e0)
    then have id0: "env_id e0 = trim_space (rq_id r0)"
      by (auto simp: normalize_Inr envelope_of_def trim_request_def r_def)
    from main Inr consider
      (filtered) reason where "err = Some (ErrFiltered reason e)" "w2 = w1" "wf_envelope pf e" "same_event e0 e"
    | (published) e1 where "wf_envelope pf e1" "same_event e0 e1" "ch_publish h e1 w1 = (err, w2)" "err = None \<longrightarrow> e = e1"
      by auto
    then show ?thesis
    proof cases
      case filtered
      with resp w2 id0 show ?thesis by (auto simp: same_event_def wf_envelope_def)
    next
      case published
      show ?thesis
      proof (cases err)
        case None
        with published resp have "status = 202 \<and> body = AcceptedResponse (env_id e1) (fmt (env_received_at e1)) False"
          by simp
        moreover have "env_id e1 = trim_space (rq_id r0)" using published(2) id0 by (simp add: same_event_def)
        moreover have "ch_publish h e1 w1 = (None, w')" using published(3) None w2 by simp
        ultimately show ?thesis using published(1) by blast
      next
        case (Some x)
        then have "as_filtered x = None \<and> as_validation x = None" using assms(2) published(3) by blast
        with Some published resp w2 show ?thesis by auto
      qed
    qed
  qed
qed

definition sample_netip :: "(string, string) netip" where
  "sample_netip =
     \<lparr>ni_parse_addr = (\<lambda>s. if s = [] then None else Some s), ni_parse_addr_port = (\<lambda>s. None),
      ni_parse_prefix = (\<lambda>s. Inr s), ni_contains = (\<lambda>p a. p = a), ni_addr_string = id\<rparr>"

definition sample_http :: http_request where
  "sample_http =
     \<lparr>hr_method = ''POST'', hr_body = ''{}'', hr_header = (\<lambda>name. []), hr_ip = ''203.0.113.9''\<rparr>"

theorem http_status_truthful_witness:
  "\<exists>status body w'. collect_http (\<lambda>_. None) sample_netip (\<lambda>_. Some sample_request) (\<lambda>t. []) (new_collect_config [])
      (Some sample_handler) sample_http [] = ((status, body), w') \<and>
    ((\<exists>e ts. status = 202 \<and> body = AcceptedResponse (env_id e) ts False \<and> wf_envelope (\<lambda>_. None) e \<and>
        env_id e = trim_space (rq_id sample_request) \<and> ch_publish sample_handler e [] = (None, w')) \<or>
    (\<exists>i ts. status = 202 \<and> body = AcceptedResponse i ts True \<and> i = trim_space (rq_id sample_request) \<and> w' = []) \<or>
    (status = 400 \<and> w' = []) \<or>
    (status = 500 \<and> ((\<exists>e err. ch_publish sample_handler e [] = (Some err, w')) \<or> tm_ns sample_time = 0 \<and> w' = [])))"
proof -
  obtain status body w' where c: "collect_http (\<lambda>_. None) sample_netip (\<lambda>_. Some sample_request) (\<lambda>t. [])
      (new_collect_config []) (Some sample_handler) sample_http [] = ((status, body), w')"
    by (metis surj_pair)
  have pub: "\<forall>e w err w'. ch_publish sample_handler e w = (Some err, w') \<longrightarrow>
      as_filtered err = None \<and> as_validation err = None"
    by (auto simp: sample_handler_def split: if_splits)
  have now: "ch_now sample_handler [] = (sample_time, [])" by (simp add: sample_handler_def)
  have "hr_method sample_http = ''POST''" by (simp add: sample_http_def)
  from http_status_truthful [OF sample_handler_built pub this refl now c] c show ?thesis by blast
qed

text \<open>
  C34. The client address cannot be spoofed: unless forwarded headers are trusted, it is a function of the
  transport address alone, and in every configuration it is empty or the canonical text of a parsed
  address, so no other header text reaches the filters and the hash.
\<close>

theorem client_ip_unspoofable:
  "(\<not> cc_trust_forwarded cfg \<longrightarrow>
      client_ip_from_request ni cfg req = client_ip_from_request ni cfg (req\<lparr>hr_header := hdr\<rparr>)) \<and>
   (client_ip_from_request ni cfg req = [] \<or>
      (\<exists>a. client_ip_from_request ni cfg req = ni_addr_string ni a))"
proof -
  have "canonical_client_ip ni s = [] \<or> (\<exists>a. canonical_client_ip ni s = ni_addr_string ni a)" for s
    by (auto simp: canonical_client_ip_def Let_def split: option.splits)
  then show ?thesis by (auto simp: client_ip_from_request_def Let_def)
qed
theorem client_ip_unspoofable_witness:
  "client_ip_from_request sample_netip (new_collect_config []) sample_http
     = client_ip_from_request sample_netip (new_collect_config []) (sample_http\<lparr>hr_header := \<lambda>_. ''10.0.0.1''\<rparr>)"
  using client_ip_unspoofable [of "new_collect_config []" sample_netip sample_http "\<lambda>_. ''10.0.0.1''"]
  by (simp add: new_collect_config_def)

end
