(* ===== verification/Event_Query.thy ===== *)
theory Event_Query
  imports ClickHouse_Writers
begin

text \<open>
  Package \<open>storage\<close>, file \<open>event_query.go\<close>: the storage-neutral query contract. Typed string constants
  stay strings, so a caller can pass any text and the allowlists of the builder have to reject it.

  A value has no identity here, so cloning evidence is the identity on values; which slices share a
  backing array is not modelled.
\<close>

section \<open>Allowlisted constants\<close>

definition event_sort_by_event_time :: string where "event_sort_by_event_time = ''event_time''"
definition event_sort_by_received_at :: string where "event_sort_by_received_at = ''received_at''"
definition event_sort_by_event_name :: string where "event_sort_by_event_name = ''event_name''"

definition event_sort_ascending :: string where "event_sort_ascending = ''asc''"
definition event_sort_descending :: string where "event_sort_descending = ''desc''"

definition event_filter_by_event_name :: string where "event_filter_by_event_name = ''event_name''"
definition event_filter_by_distinct_id :: string where "event_filter_by_distinct_id = ''distinct_id''"
definition event_filter_by_session_id :: string where "event_filter_by_session_id = ''session_id''"
definition event_filter_by_visit_id :: string where "event_filter_by_visit_id = ''visit_id''"
definition event_filter_by_source_type :: string where "event_filter_by_source_type = ''source_type''"

definition event_filter_equals :: string where "event_filter_equals = ''eq''"
definition event_filter_not_equals :: string where "event_filter_not_equals = ''neq''"

definition family_events :: string where "family_events = ''events''"
definition family_goal :: string where "family_goal = ''goal''"
definition family_realtime :: string where "family_realtime = ''realtime''"
definition read_path_fact_events :: string where "read_path_fact_events = ''fact_events''"
definition optimization_direct_fact_table :: string where "optimization_direct_fact_table = ''direct_fact_table''"

section \<open>Queries\<close>

record event_filter =
  ef_field :: string
  ef_operator :: string
  ef_value :: string

text \<open>A property selector: scope and name.\<close>

datatype property_selector = PropertySelector (ps_scope: string) (ps_name: string)

record event_property_filter =
  pf_scope :: string
  pf_name :: string
  pf_value_type :: string
  pf_operator :: string
  pf_string :: string
  pf_number :: go_float
  pf_bool :: bool

datatype property_filter_evidence =
  FilterEvidence (fe_scope: string) (fe_name: string) (fe_value_type: string) (fe_operator: string)

record event_list_query =
  lq_tenant_id :: string
  lq_project_id :: string
  lq_source_id :: string
  lq_event_name :: string
  lq_distinct_id :: string
  lq_from :: gotime
  lq_to :: gotime
  lq_limit :: int
  lq_offset :: int
  lq_sort_field :: string
  lq_sort_direction :: string
  lq_filters :: "event_filter list"
  lq_property_filters :: "event_property_filter list"
  lq_allowed :: "property_selector list"

record event_count_query =
  cq_tenant_id :: string
  cq_project_id :: string
  cq_source_id :: string
  cq_event_name :: string
  cq_distinct_id :: string
  cq_from :: gotime
  cq_to :: gotime
  cq_filters :: "event_filter list"
  cq_property_filters :: "event_property_filter list"
  cq_allowed :: "property_selector list"

record realtime_query =
  rt_tenant_id :: string
  rt_project_id :: string
  rt_source_id :: string
  rt_since :: gotime
  rt_limit :: int

section \<open>Plans and results\<close>

record event_query_evidence =
  ev_family :: string
  ev_read_path :: string
  ev_optimization :: string
  ev_effective_limit :: int
  ev_offset :: int
  ev_has_lower_bound :: bool
  ev_has_upper_bound :: bool
  ev_window_seconds :: int
  ev_scalar_filter_count :: nat
  ev_property_filter_count :: nat
  ev_uses_property_table :: bool
  ev_property_filters :: "property_filter_evidence list"
  ev_sort_field :: string
  ev_sort_direction :: string

record event_query_plan =
  qp_sql :: string
  qp_args :: "sql_value list"
  qp_logical :: string
  qp_physical :: string
  qp_limit :: int
  qp_evidence :: event_query_evidence

definition clone_evidence :: "event_query_evidence \<Rightarrow> event_query_evidence" where
  "clone_evidence ev = ev\<lparr>ev_property_filters := [] @ ev_property_filters ev\<rparr>"

definition new_event_query_plan ::
  "string \<Rightarrow> sql_value list \<Rightarrow> string \<Rightarrow> string \<Rightarrow> int \<Rightarrow> event_query_evidence \<Rightarrow> event_query_plan" where
  "new_event_query_plan sql args logical physical limit evidence =
     \<lparr>qp_sql = sql, qp_args = [] @ args, qp_logical = logical, qp_physical = physical, qp_limit = limit,
      qp_evidence = clone_evidence evidence\<rparr>"

definition query_evidence :: "event_query_plan \<Rightarrow> event_query_evidence" where
  "query_evidence p = clone_evidence (qp_evidence p)"

record event_record =
  rc_id :: string
  rc_tenant_id :: string
  rc_project_id :: string
  rc_source_id :: string
  rc_source_type :: string
  rc_event_name :: string
  rc_distinct_id :: string
  rc_session_id :: string
  rc_visit_id :: string
  rc_event_time :: gotime
  rc_received_at :: gotime
  rc_properties :: string
  rc_user_properties :: string
  rc_source :: string

record event_query_result =
  qr_records :: "event_record list"
  qr_evidence :: event_query_evidence

record event_count_result =
  cr_count :: int
  cr_evidence :: event_query_evidence

lemma clone_evidence [simp]: "clone_evidence ev = ev"
  by (simp add: clone_evidence_def)

lemma query_evidence_new [simp]: "query_evidence (new_event_query_plan sql args l p n ev) = ev"
  by (simp add: query_evidence_def new_event_query_plan_def)

lemma new_event_query_plan_simps [simp]:
  "qp_sql (new_event_query_plan sql args l p n ev) = sql"
  "qp_args (new_event_query_plan sql args l p n ev) = args"
  "qp_logical (new_event_query_plan sql args l p n ev) = l"
  "qp_physical (new_event_query_plan sql args l p n ev) = p"
  "qp_limit (new_event_query_plan sql args l p n ev) = n"
  "qp_evidence (new_event_query_plan sql args l p n ev) = ev"
  by (simp_all add: new_event_query_plan_def)

end
