(* ===== verification/Query_Builder.thy ===== *)
theory Query_Builder
  imports Event_Query
begin

text \<open>
  Package \<open>storage/clickhouse\<close>, file \<open>query_builder.go\<close>: from a storage-neutral query to a plan.

  The builder composes its statement by calls on a GORM scope. GORM is not part of the repository, so a
  scope is here the list of the calls made on it, with their texts and bound arguments, and what GORM
  makes of them is the argument \<open>qb_db\<close>: the SQL text and the arguments of the materialised statement,
  or nothing. A session with \<open>NewDB\<close> starts from the empty list. Opening the dry-run database is the
  argument \<open>open_db\<close>, SHA-256 is \<open>sha\<close>.
\<close>

section \<open>Scopes\<close>

datatype row_model = EventRows | CountRows

datatype scope_call =
    ScTable string
  | ScSelectColumns "string list"
  | ScSelect string
  | ScWhere string "sql_value list"
  | ScOrder string
  | ScLimit int
  | ScOffset int
  | ScFind row_model

type_synonym scope = "scope_call list"
type_synonym query_db = "scope \<Rightarrow> (string \<times> sql_value list) option"

section \<open>Allowlists\<close>

definition default_events_limit :: int where "default_events_limit = 100"
definition default_realtime_limit :: int where "default_realtime_limit = 50"
definition default_max_query_limit :: int where "default_max_query_limit = 1000"
definition default_max_filters :: int where "default_max_filters = 20"
definition default_max_property_filter_window :: int where "default_max_property_filter_window = 7 * 24 * hour"

definition event_select_columns :: "string list" where
  "event_select_columns =
     [''event_id'', ''tenant_id'', ''project_id'', ''source_id'', ''source_type'', ''event_name'', ''distinct_id'',
      ''session_id'', ''visit_id'', ''event_time'', ''received_at'', ''properties'', ''user_properties'', ''source'']"

definition event_sort_columns :: "(string \<times> string) list" where
  "event_sort_columns =
     [(event_sort_by_event_time, ''event_time''), (event_sort_by_received_at, ''received_at''),
      (event_sort_by_event_name, ''event_name'')]"

definition event_sort_directions :: "(string \<times> string) list" where
  "event_sort_directions = [(event_sort_ascending, ''ASC''), (event_sort_descending, ''DESC'')]"

definition event_filter_columns :: "(string \<times> string) list" where
  "event_filter_columns =
     [(event_filter_by_event_name, ''event_name''), (event_filter_by_distinct_id, ''distinct_id''),
      (event_filter_by_session_id, ''session_id''), (event_filter_by_visit_id, ''visit_id''),
      (event_filter_by_source_type, ''source_type'')]"

definition event_filter_operators :: "(string \<times> string) list" where
  "event_filter_operators = [(event_filter_equals, ''=''), (event_filter_not_equals, ''!='')]"

definition property_value_columns :: "(string \<times> string) list" where
  "property_value_columns =
     [(property_value_string, ''string_value''), (property_value_number, ''number_value''),
      (property_value_bool, ''bool_value'')]"

section \<open>The builder and its policy\<close>

text \<open>\<open>rp_allowed\<close> is a map with empty values, so its keys; \<^const>\<open>None\<close> is the nil map.\<close>

record read_side_policy =
  rp_max_query_limit :: int
  rp_max_filters :: int
  rp_max_property_filter_window :: int
  rp_allowed :: "property_selector list option"

record event_query_builder =
  qb_router :: string
  qb_db :: "query_db option"
  qb_policy :: read_side_policy

type_synonym query_builder_option = "event_query_builder \<Rightarrow> event_query_builder"

definition normalize_property_selector :: "string \<Rightarrow> string \<Rightarrow> go_error + property_selector" where
  "normalize_property_selector scope name0 =
     (let name = trim_space name0
      in if name = [] then Inl (ErrText ''property name is required'')
         else if scope \<in> {property_scope_event, property_scope_user} then Inr (PropertySelector scope name)
         else Inl (ErrText (''unsupported property scope '' @ go_quote scope)))"

definition with_query_db :: "query_db option \<Rightarrow> query_builder_option" where
  "with_query_db db b = b\<lparr>qb_db := db\<rparr>"

definition with_max_query_limit :: "int \<Rightarrow> query_builder_option" where
  "with_max_query_limit m b = b\<lparr>qb_policy := (qb_policy b)\<lparr>rp_max_query_limit := m\<rparr>\<rparr>"

fun allow_selectors :: "property_selector list \<Rightarrow> property_selector list \<Rightarrow> property_selector list" where
  "allow_selectors [] allowed = allowed"
| "allow_selectors (s # ss) allowed =
     (case normalize_property_selector (ps_scope s) (ps_name s) of
        Inl _ \<Rightarrow> allow_selectors ss allowed
      | Inr n \<Rightarrow> allow_selectors ss (List.insert n allowed))"

definition with_allowed_property_filters :: "property_selector list \<Rightarrow> query_builder_option" where
  "with_allowed_property_filters selectors b =
     b\<lparr>qb_policy := (qb_policy b)\<lparr>rp_allowed :=
         Some (allow_selectors selectors (case rp_allowed (qb_policy b) of None \<Rightarrow> [] | Some xs \<Rightarrow> xs))\<rparr>\<rparr>"

definition default_read_side_policy :: read_side_policy where
  "default_read_side_policy =
     \<lparr>rp_max_query_limit = default_max_query_limit, rp_max_filters = default_max_filters,
      rp_max_property_filter_window = default_max_property_filter_window, rp_allowed = Some []\<rparr>"

definition validate_policy :: "read_side_policy \<Rightarrow> go_error option" where
  "validate_policy p =
     first_error
       [(rp_max_query_limit p \<le> 0, ''max query limit must be positive''),
        (rp_max_filters p \<le> 0, ''max event filters must be positive''),
        (rp_max_property_filter_window p \<le> 0, ''max property-filter time window must be positive''),
        (rp_allowed p = None, ''allowed property filter map is required'')]"

definition new_event_query_builder ::
  "(go_error + query_db) \<Rightarrow> string option \<Rightarrow> query_builder_option option list \<Rightarrow> go_error + event_query_builder" where
  "new_event_query_builder open_db router opts =
     (case router of
        None \<Rightarrow> Inl (ErrText ''table router is required'')
      | Some prfx \<Rightarrow>
          (case open_db of
             Inl err \<Rightarrow> Inl (ErrWrap ''open dry-run clickhouse gorm db: '' err)
           | Inr db \<Rightarrow>
               (let b = foldl (\<lambda>b opt. case opt of None \<Rightarrow> b | Some f \<Rightarrow> f b)
                    \<lparr>qb_router = prfx, qb_db = Some db, qb_policy = default_read_side_policy\<rparr> opts
                in case qb_db b of
                     None \<Rightarrow> Inl (ErrText ''gorm query db is required'')
                   | Some _ \<Rightarrow>
                       (case validate_policy (qb_policy b) of Some err \<Rightarrow> Inl err | None \<Rightarrow> Inr b))))"

section \<open>Durations in error texts\<close>

text \<open>\<open>Duration.Truncate(time.Second)\<close> and the text of a duration of whole, non-negative seconds.\<close>

definition truncate_seconds :: "int \<Rightarrow> int" where
  "truncate_seconds d = d - (if d < 0 then - ((- d) mod second) else d mod second)"

definition duration_text :: "int \<Rightarrow> string" where
  "duration_text d =
     (let s = d div second
      in if s < 60 then format_int s @ ''s''
         else if s < 3600 then format_int (s div 60) @ ''m'' @ format_int (s mod 60) @ ''s''
         else format_int (s div 3600) @ ''h'' @ format_int (s div 60 mod 60) @ ''m'' @ format_int (s mod 60) @ ''s'')"

section \<open>Normalisation against the allowlists\<close>

definition normalize_sort_field :: "string \<Rightarrow> go_error + string" where
  "normalize_sort_field field =
     (let f = (if field = [] then event_sort_by_event_time else field)
      in case map_of event_sort_columns f of
           None \<Rightarrow> Inl (ErrInvalidQuery (''unsupported events sort field '' @ go_quote f))
         | Some column \<Rightarrow> Inr column)"

definition normalize_sort_direction :: "string \<Rightarrow> go_error + string" where
  "normalize_sort_direction direction =
     (let d = (if direction = [] then event_sort_descending else direction)
      in case map_of event_sort_directions d of
           None \<Rightarrow> Inl (ErrInvalidQuery (''unsupported events sort direction '' @ go_quote d))
         | Some dir \<Rightarrow> Inr dir)"

definition normalize_filter_field :: "string \<Rightarrow> go_error + string" where
  "normalize_filter_field field =
     (case map_of event_filter_columns field of
        None \<Rightarrow> Inl (ErrInvalidQuery (''unsupported events filter field '' @ go_quote field))
      | Some column \<Rightarrow> Inr column)"

definition normalize_filter_operator :: "string \<Rightarrow> go_error + string" where
  "normalize_filter_operator operator =
     (case map_of event_filter_operators operator of
        None \<Rightarrow> Inl (ErrInvalidQuery (''unsupported events filter operator '' @ go_quote operator))
      | Some sql_operator \<Rightarrow> Inr sql_operator)"

definition property_value_column_and_arg :: "event_property_filter \<Rightarrow> go_error + string \<times> sql_value" where
  "property_value_column_and_arg f =
     (case map_of property_value_columns (pf_value_type f) of
        None \<Rightarrow> Inl (ErrText (''unsupported property value type '' @ go_quote (pf_value_type f)))
      | Some column \<Rightarrow>
          if pf_value_type f = property_value_string then Inr (column, SvString (pf_string f))
          else if pf_value_type f = property_value_number then Inr (column, SvFloat (pf_number f))
          else if pf_value_type f = property_value_bool then Inr (column, SvBool (pf_bool f))
          else Inl (ErrText (''unsupported property value type '' @ go_quote (pf_value_type f))))"

definition normalize_limit :: "event_query_builder \<Rightarrow> int \<Rightarrow> int \<Rightarrow> int" where
  "normalize_limit b limit fallback =
     (let l = (if limit \<le> 0 then fallback else limit)
      in if rp_max_query_limit (qb_policy b) < l then rp_max_query_limit (qb_policy b) else l)"

definition property_selector_allowed :: "event_query_builder \<Rightarrow> event_list_query \<Rightarrow> property_selector \<Rightarrow> bool" where
  "property_selector_allowed b q selector \<longleftrightarrow>
     selector \<in> set (case rp_allowed (qb_policy b) of None \<Rightarrow> [] | Some xs \<Rightarrow> xs) \<or>
     list_ex (\<lambda>a. normalize_property_selector (ps_scope a) (ps_name a) = Inr selector) (lq_allowed q)"

section \<open>Predicates\<close>

fun apply_event_filters :: "nat \<Rightarrow> event_filter list \<Rightarrow> scope \<Rightarrow> go_error + scope" where
  "apply_event_filters idx [] sc = Inr sc"
| "apply_event_filters idx (f # fs) sc =
     (case normalize_filter_field (ef_field f) of
        Inl err \<Rightarrow> Inl err
      | Inr column \<Rightarrow>
          (case normalize_filter_operator (ef_operator f) of
             Inl err \<Rightarrow> Inl err
           | Inr operator \<Rightarrow>
               if ef_value f = []
               then Inl (ErrInvalidQuery (''event filter '' @ format_int (int idx) @ '' value is required''))
               else apply_event_filters (Suc idx) fs
                 (sc @ [ScWhere (column @ '' '' @ operator @ '' ?'') [SvString (ef_value f)]])))"

definition base_property_predicate :: "string \<Rightarrow> string" where
  "base_property_predicate table_name =
     ''(tenant_id, project_id, source_id, event_id) IN (SELECT tenant_id, project_id, source_id, event_id FROM ''
     @ [backtick] @ table_name @ [backtick]
     @ '' WHERE tenant_id = ? AND project_id = ? AND source_id = ? AND property_scope = ? AND property_name = ?''
     @ '' AND property_type = ?''"

definition build_property_filter_predicate ::
  "event_query_builder \<Rightarrow> table \<Rightarrow> event_list_query \<Rightarrow> nat \<Rightarrow> event_property_filter \<Rightarrow>
   go_error + string \<times> sql_value list" where
  "build_property_filter_predicate b t q idx f =
     (let place = ''property filter '' @ format_int (int idx) @ '' ''
      in case normalize_property_selector (pf_scope f) (pf_name f) of
           Inl err \<Rightarrow> Inl (ErrInvalidQuery (place @ error_text err))
         | Inr selector \<Rightarrow>
             if \<not> property_selector_allowed b q selector
             then Inl (ErrInvalidQuery (place @ ps_scope selector @ ''.'' @ ps_name selector @ '' is not allowlisted''))
             else
               (case normalize_filter_operator (pf_operator f) of
                  Inl err \<Rightarrow> Inl err
                | Inr operator \<Rightarrow>
                    (case property_table_for t of
                       Inl err \<Rightarrow> Inl err
                     | Inr pt \<Rightarrow>
                         (let base = base_property_predicate (tbl_physical pt);
                              args = [SvString (lq_tenant_id q), SvString (lq_project_id q), SvString (lq_source_id q),
                                      SvString (ps_scope selector), SvString (ps_name selector), SvString (pf_value_type f)]
                          in if pf_value_type f = property_value_null
                             then
                               (if pf_operator f \<noteq> event_filter_equals
                                then Inl (ErrInvalidQuery (place @ ''null only supports eq''))
                                else Inr (base @ '')'', args))
                             else
                               (case property_value_column_and_arg f of
                                  Inl err \<Rightarrow> Inl (ErrInvalidQuery (place @ error_text err))
                                | Inr (column, val) \<Rightarrow>
                                    Inr (base @ '' AND '' @ column @ '' '' @ operator @ '' ?)'', args @ [val]))))))"

fun apply_property_filters ::
  "event_query_builder \<Rightarrow> table \<Rightarrow> event_list_query \<Rightarrow> nat \<Rightarrow> event_property_filter list \<Rightarrow> scope \<Rightarrow> go_error + scope" where
  "apply_property_filters b t q idx [] sc = Inr sc"
| "apply_property_filters b t q idx (f # fs) sc =
     (case build_property_filter_predicate b t q idx f of
        Inl err \<Rightarrow> Inl err
      | Inr (predicate, args) \<Rightarrow> apply_property_filters b t q (Suc idx) fs (sc @ [ScWhere predicate args]))"

definition validate_property_filter_window :: "event_query_builder \<Rightarrow> event_list_query \<Rightarrow> go_error option" where
  "validate_property_filter_window b q =
     (if lq_property_filters q = [] then None
      else if is_zero_time (lq_from q) \<or> is_zero_time (lq_to q)
      then Some (ErrInvalidQuery ''property filters require bounded from and to'')
      else
        (let window = sub_time (lq_to q) (lq_from q)
         in if rp_max_property_filter_window (qb_policy b) < window
            then Some (ErrInvalidQuery (''property-filter time window '' @ duration_text (truncate_seconds window)
              @ '' exceeds max '' @ duration_text (truncate_seconds (rp_max_property_filter_window (qb_policy b)))))
            else None))"

definition route_query :: "(string \<Rightarrow> 256 word) \<Rightarrow> event_query_builder \<Rightarrow> string \<Rightarrow> string \<Rightarrow> string \<Rightarrow> go_error + table" where
  "route_query sha b tenant project source =
     route_key sha (Some (qb_router b)) \<lparr>rk_tenant_id = tenant, rk_project_id = project, rk_source_id = source\<rparr>"

definition base_scope :: "string \<Rightarrow> scope" where
  "base_scope table_name = [ScTable table_name, ScSelectColumns event_select_columns]"

definition scalar_predicates :: "event_list_query \<Rightarrow> scope" where
  "scalar_predicates q =
     [ScWhere ''tenant_id = ? AND project_id = ? AND source_id = ?''
        [SvString (lq_tenant_id q), SvString (lq_project_id q), SvString (lq_source_id q)]]
     @ (if is_zero_time (lq_from q) then [] else [ScWhere ''event_time >= ?'' [SvTime (utc (lq_from q))]])
     @ (if is_zero_time (lq_to q) then [] else [ScWhere ''event_time < ?'' [SvTime (utc (lq_to q))]])
     @ (if lq_event_name q = [] then [] else [ScWhere ''event_name = ?'' [SvString (lq_event_name q)]])
     @ (if lq_distinct_id q = [] then [] else [ScWhere ''distinct_id = ?'' [SvString (lq_distinct_id q)]])"

definition build_filtered_events_scope ::
  "(string \<Rightarrow> 256 word) \<Rightarrow> event_query_builder \<Rightarrow> event_list_query \<Rightarrow> go_error + scope \<times> table" where
  "build_filtered_events_scope sha b q =
     (let filters = int (length (lq_filters q)) + int (length (lq_property_filters q))
      in if lq_offset q < 0 then Inl (ErrInvalidQuery ''offset must be non-negative'')
         else if \<not> is_zero_time (lq_from q) \<and> \<not> is_zero_time (lq_to q) \<and> \<not> before (lq_from q) (lq_to q)
         then Inl (ErrInvalidQuery ''from must be before to'')
         else if rp_max_filters (qb_policy b) < filters
         then Inl (ErrInvalidQuery (''too many event filters: '' @ format_int filters @ '' > ''
           @ format_int (rp_max_filters (qb_policy b))))
         else
           (case validate_property_filter_window b q of
              Some err \<Rightarrow> Inl err
            | None \<Rightarrow>
                (case route_query sha b (lq_tenant_id q) (lq_project_id q) (lq_source_id q) of
                   Inl err \<Rightarrow> Inl (ErrInvalidQuery (error_text err))
                 | Inr t \<Rightarrow>
                     (case apply_event_filters 0 (lq_filters q) (base_scope (tbl_physical t) @ scalar_predicates q) of
                        Inl err \<Rightarrow> Inl err
                      | Inr sc \<Rightarrow>
                          (case apply_property_filters b t q 0 (lq_property_filters q) sc of
                             Inl err \<Rightarrow> Inl err
                           | Inr sc' \<Rightarrow> Inr (sc', t))))))"

section \<open>Evidence\<close>

definition property_filter_evidence_of :: "event_property_filter \<Rightarrow> property_filter_evidence" where
  "property_filter_evidence_of f =
     (let selector = (case normalize_property_selector (pf_scope f) (pf_name f) of
            Inl _ \<Rightarrow> PropertySelector (pf_scope f) (pf_name f)
          | Inr s \<Rightarrow> s)
      in FilterEvidence (ps_scope selector) (ps_name selector) (pf_value_type f) (pf_operator f))"

definition property_filter_evidences :: "event_property_filter list \<Rightarrow> property_filter_evidence list" where
  "property_filter_evidences fs = (if fs = [] then [] else map property_filter_evidence_of fs)"

definition scalar_filter_count :: "event_list_query \<Rightarrow> nat" where
  "scalar_filter_count q =
     length (lq_filters q)
     + (if lq_event_name q \<noteq> [] then 1 else 0)
     + (if lq_distinct_id q \<noteq> [] then 1 else 0)
     + (if \<not> is_zero_time (lq_from q) then 1 else 0)
     + (if \<not> is_zero_time (lq_to q) then 1 else 0)"

definition build_evidence :: "string \<Rightarrow> event_list_query \<Rightarrow> int \<Rightarrow> event_query_evidence" where
  "build_evidence family q effective_limit =
     \<lparr>ev_family = family,
      ev_read_path = read_path_fact_events,
      ev_optimization = optimization_direct_fact_table,
      ev_effective_limit = effective_limit,
      ev_offset = lq_offset q,
      ev_has_lower_bound = (\<not> is_zero_time (lq_from q)),
      ev_has_upper_bound = (\<not> is_zero_time (lq_to q)),
      ev_window_seconds =
        (if \<not> is_zero_time (lq_from q) \<and> \<not> is_zero_time (lq_to q) \<and> after (lq_to q) (lq_from q)
         then sub_time (lq_to q) (lq_from q) div second else 0),
      ev_scalar_filter_count = scalar_filter_count q,
      ev_property_filter_count = length (lq_property_filters q),
      ev_uses_property_table = (0 < length (lq_property_filters q)),
      ev_property_filters = property_filter_evidences (lq_property_filters q),
      ev_sort_field = (if lq_sort_field q = [] then event_sort_by_event_time else lq_sort_field q),
      ev_sort_direction = (if lq_sort_direction q = [] then event_sort_descending else lq_sort_direction q)\<rparr>"

section \<open>Plans\<close>

definition apply_events_order :: "string \<Rightarrow> string \<Rightarrow> scope \<Rightarrow> go_error + scope" where
  "apply_events_order field direction sc =
     (case normalize_sort_field field of
        Inl err \<Rightarrow> Inl err
      | Inr column \<Rightarrow>
          (case normalize_sort_direction direction of
             Inl err \<Rightarrow> Inl err
           | Inr dir \<Rightarrow>
               Inr (sc @ [ScOrder (column @ '' '' @ dir)]
                 @ (if column \<noteq> ''event_time'' then [ScOrder ''event_time DESC''] else [])
                 @ (if column \<noteq> ''received_at'' then [ScOrder ''received_at DESC''] else []))))"

text \<open>\<open>buildPlan\<close> and \<open>buildCountPlan\<close>: the last call on the scope materialises the statement.\<close>

definition materialize ::
  "event_query_builder \<Rightarrow> row_model \<Rightarrow> string \<Rightarrow> scope \<Rightarrow> table \<Rightarrow> int \<Rightarrow> event_query_evidence \<Rightarrow> go_error + event_query_plan" where
  "materialize b model failure sc t limit evidence =
     (case qb_db b of
        None \<Rightarrow> Inl (ErrText failure)
      | Some db \<Rightarrow>
          (case db (sc @ [ScFind model]) of
             None \<Rightarrow> Inl (ErrText failure)
           | Some (sql, vars) \<Rightarrow>
               if sql = [] then Inl (ErrText failure)
               else Inr (new_event_query_plan sql ([] @ vars) (tbl_logical t) (tbl_physical t) limit evidence)))"

definition build_plan ::
  "event_query_builder \<Rightarrow> scope \<Rightarrow> table \<Rightarrow> int \<Rightarrow> event_query_evidence \<Rightarrow> go_error + event_query_plan" where
  "build_plan b = materialize b EventRows ''gorm did not build an event query''"

definition build_count_plan ::
  "event_query_builder \<Rightarrow> scope \<Rightarrow> table \<Rightarrow> event_query_evidence \<Rightarrow> go_error + event_query_plan" where
  "build_count_plan b sc t evidence = materialize b CountRows ''gorm did not build an event count query'' sc t 0 evidence"

definition events_scope ::
  "(string \<Rightarrow> 256 word) \<Rightarrow> event_query_builder \<Rightarrow> event_list_query \<Rightarrow> go_error + scope \<times> table" where
  "events_scope sha b q =
     (case build_filtered_events_scope sha b q of
        Inl err \<Rightarrow> Inl err
      | Inr (sc, t) \<Rightarrow>
          (case apply_events_order (lq_sort_field q) (lq_sort_direction q) sc of
             Inl err \<Rightarrow> Inl err
           | Inr sc' \<Rightarrow>
               Inr (sc' @ [ScLimit (normalize_limit b (lq_limit q) default_events_limit)]
                 @ (if 0 < lq_offset q then [ScOffset (lq_offset q)] else []), t)))"

definition build_events_query_for ::
  "(string \<Rightarrow> 256 word) \<Rightarrow> event_query_builder option \<Rightarrow> event_list_query \<Rightarrow> string \<Rightarrow> go_error + event_query_plan" where
  "build_events_query_for sha bo q family =
     (case bo of
        None \<Rightarrow> Inl (ErrText ''event query builder is required'')
      | Some b \<Rightarrow>
          (case events_scope sha b q of
             Inl err \<Rightarrow> Inl err
           | Inr (sc, t) \<Rightarrow>
               (let limit = normalize_limit b (lq_limit q) default_events_limit
                in build_plan b sc t limit (build_evidence family q limit))))"

definition build_events_query ::
  "(string \<Rightarrow> 256 word) \<Rightarrow> event_query_builder option \<Rightarrow> event_list_query \<Rightarrow> go_error + event_query_plan" where
  "build_events_query sha bo q = build_events_query_for sha bo q family_events"

definition event_count_query_as_list_query :: "event_count_query \<Rightarrow> event_list_query" where
  "event_count_query_as_list_query q =
     \<lparr>lq_tenant_id = cq_tenant_id q, lq_project_id = cq_project_id q, lq_source_id = cq_source_id q,
      lq_event_name = cq_event_name q, lq_distinct_id = cq_distinct_id q, lq_from = cq_from q, lq_to = cq_to q,
      lq_limit = 0, lq_offset = 0, lq_sort_field = [], lq_sort_direction = [],
      lq_filters = cq_filters q, lq_property_filters = cq_property_filters q, lq_allowed = cq_allowed q\<rparr>"

definition count_scope ::
  "(string \<Rightarrow> 256 word) \<Rightarrow> event_query_builder \<Rightarrow> event_count_query \<Rightarrow> go_error + scope \<times> table" where
  "count_scope sha b q =
     (case build_filtered_events_scope sha b (event_count_query_as_list_query q) of
        Inl err \<Rightarrow> Inl err
      | Inr (sc, t) \<Rightarrow> Inr (sc @ [ScSelect ''count() AS count''], t))"

definition build_event_count_query ::
  "(string \<Rightarrow> 256 word) \<Rightarrow> event_query_builder option \<Rightarrow> event_count_query \<Rightarrow> go_error + event_query_plan" where
  "build_event_count_query sha bo q =
     (case bo of
        None \<Rightarrow> Inl (ErrText ''event query builder is required'')
      | Some b \<Rightarrow>
          (case count_scope sha b q of
             Inl err \<Rightarrow> Inl err
           | Inr (sc, t) \<Rightarrow>
               build_count_plan b sc t (build_evidence family_goal (event_count_query_as_list_query q) 0)))"

definition realtime_as_list_query :: "event_query_builder \<Rightarrow> realtime_query \<Rightarrow> event_list_query" where
  "realtime_as_list_query b q =
     \<lparr>lq_tenant_id = rt_tenant_id q, lq_project_id = rt_project_id q, lq_source_id = rt_source_id q,
      lq_event_name = [], lq_distinct_id = [], lq_from = rt_since q, lq_to = zero_time,
      lq_limit = normalize_limit b (rt_limit q) default_realtime_limit, lq_offset = 0,
      lq_sort_field = [], lq_sort_direction = [], lq_filters = [], lq_property_filters = [], lq_allowed = []\<rparr>"

definition build_realtime_query ::
  "(string \<Rightarrow> 256 word) \<Rightarrow> event_query_builder option \<Rightarrow> realtime_query \<Rightarrow> go_error + event_query_plan" where
  "build_realtime_query sha bo q =
     (case bo of
        None \<Rightarrow> Inl (ErrText ''event query builder is required'')
      | Some b \<Rightarrow> build_events_query_for sha bo (realtime_as_list_query b q) family_realtime)"
end
