(* ===== verification/Query_Plans.thy ===== *)
theory Query_Plans
  imports Query_Builder
begin

text \<open>
  What the query builder promises: which queries it accepts, the calls it makes for an accepted query,
  that caller text reaches the statement only as bound arguments, the bounds of a plan, the truth of its
  evidence, and the kind of every error.
\<close>

section \<open>What an accepted query looks like\<close>

definition filter_fields :: "string set" where
  "filter_fields = {''event_name'', ''distinct_id'', ''session_id'', ''visit_id'', ''source_type''}"

definition filter_operators :: "string set" where
  "filter_operators = {''eq'', ''neq''}"

definition sort_fields :: "string set" where
  "sort_fields = {[], ''event_time'', ''received_at'', ''event_name''}"

definition sort_directions :: "string set" where
  "sort_directions = {[], ''asc'', ''desc''}"

lemmas query_constants =
  event_sort_by_event_time_def event_sort_by_received_at_def event_sort_by_event_name_def
  event_sort_ascending_def event_sort_descending_def
  event_filter_by_event_name_def event_filter_by_distinct_id_def event_filter_by_session_id_def
  event_filter_by_visit_id_def event_filter_by_source_type_def
  event_filter_equals_def event_filter_not_equals_def

lemmas query_allowlists =
  event_sort_columns_def event_sort_directions_def event_filter_columns_def event_filter_operators_def
  property_value_columns_def

definition sql_operator_of :: "string \<Rightarrow> string" where
  "sql_operator_of operator = (if operator = event_filter_equals then ''='' else ''!='')"

definition sort_column_of :: "string \<Rightarrow> string" where
  "sort_column_of field = (if field = [] then ''event_time'' else field)"

definition sort_direction_of :: "string \<Rightarrow> string" where
  "sort_direction_of direction = (if direction = ''asc'' then ''ASC'' else ''DESC'')"

lemma normalize_filter_field_eq:
  "normalize_filter_field f =
     (if f \<in> filter_fields then Inr f else Inl (ErrInvalidQuery (''unsupported events filter field '' @ go_quote f)))"
  by (simp add: normalize_filter_field_def query_allowlists query_constants filter_fields_def)

lemma normalize_filter_operator_eq:
  "normalize_filter_operator o' =
     (if o' \<in> filter_operators then Inr (sql_operator_of o')
      else Inl (ErrInvalidQuery (''unsupported events filter operator '' @ go_quote o')))"
  by (simp add: normalize_filter_operator_def query_allowlists query_constants filter_operators_def sql_operator_of_def)

lemma normalize_sort_field_eq:
  "normalize_sort_field f =
     (if f \<in> sort_fields then Inr (sort_column_of f)
      else Inl (ErrInvalidQuery (''unsupported events sort field '' @ go_quote f)))"
  by (simp add: normalize_sort_field_def query_allowlists query_constants sort_fields_def sort_column_of_def)

lemma normalize_sort_direction_eq:
  "normalize_sort_direction d =
     (if d \<in> sort_directions then Inr (sort_direction_of d)
      else Inl (ErrInvalidQuery (''unsupported events sort direction '' @ go_quote d)))"
  by (simp add: normalize_sort_direction_def query_allowlists query_constants sort_directions_def sort_direction_of_def)

lemmas normalize_eqs =
  normalize_filter_field_eq normalize_filter_operator_eq normalize_sort_field_eq normalize_sort_direction_eq

definition event_filter_ok :: "event_filter \<Rightarrow> bool" where
  "event_filter_ok f \<longleftrightarrow> ef_field f \<in> filter_fields \<and> ef_operator f \<in> filter_operators \<and> ef_value f \<noteq> []"

definition event_filter_call :: "event_filter \<Rightarrow> scope_call" where
  "event_filter_call f = ScWhere (ef_field f @ '' '' @ sql_operator_of (ef_operator f) @ '' ?'') [SvString (ef_value f)]"

lemma apply_event_filters_Inr:
  "apply_event_filters idx fs sc = Inr sc' \<longleftrightarrow> (\<forall>f \<in> set fs. event_filter_ok f) \<and> sc' = sc @ map event_filter_call fs"
  by (induction fs arbitrary: idx sc) (auto simp: normalize_eqs event_filter_ok_def event_filter_call_def)

lemma apply_event_filters_Inl:
  "apply_event_filters idx fs sc = Inl err \<Longrightarrow> is_invalid_query err"
  by (induction fs arbitrary: idx sc) (auto simp: normalize_eqs split: if_splits)

text \<open>A property filter: the selector it names, and the columns its value goes to.\<close>

definition selector_of :: "event_property_filter \<Rightarrow> property_selector" where
  "selector_of f = PropertySelector (pf_scope f) (trim_space (pf_name f))"

definition value_column_of :: "string \<Rightarrow> string" where
  "value_column_of t =
     (if t = property_value_string then ''string_value'' else if t = property_value_number then ''number_value''
      else ''bool_value'')"

definition filter_argument :: "event_property_filter \<Rightarrow> sql_value" where
  "filter_argument f =
     (if pf_value_type f = property_value_string then SvString (pf_string f)
      else if pf_value_type f = property_value_number then SvFloat (pf_number f) else SvBool (pf_bool f))"

definition property_filter_ok :: "event_query_builder \<Rightarrow> event_list_query \<Rightarrow> event_property_filter \<Rightarrow> bool" where
  "property_filter_ok b q f \<longleftrightarrow>
     pf_scope f \<in> {property_scope_event, property_scope_user} \<and> trim_space (pf_name f) \<noteq> [] \<and>
     property_selector_allowed b q (selector_of f) \<and> pf_operator f \<in> filter_operators \<and>
     (pf_value_type f = property_value_null \<and> pf_operator f = event_filter_equals \<or>
      pf_value_type f \<in> {property_value_string, property_value_number, property_value_bool})"

definition property_filter_call :: "string \<Rightarrow> event_list_query \<Rightarrow> event_property_filter \<Rightarrow> scope_call" where
  "property_filter_call table_name q f =
     (let base = base_property_predicate table_name;
          args = [SvString (lq_tenant_id q), SvString (lq_project_id q), SvString (lq_source_id q),
                  SvString (pf_scope f), SvString (trim_space (pf_name f)), SvString (pf_value_type f)]
      in if pf_value_type f = property_value_null then ScWhere (base @ '')'') args
         else ScWhere (base @ '' AND '' @ value_column_of (pf_value_type f) @ '' '' @ sql_operator_of (pf_operator f) @ '' ?)'')
           (args @ [filter_argument f]))"

lemma normalize_property_selector_Inr:
  "normalize_property_selector scope name = Inr s \<longleftrightarrow>
     scope \<in> {property_scope_event, property_scope_user} \<and> trim_space name \<noteq> [] \<and>
     s = PropertySelector scope (trim_space name)"
  by (auto simp: normalize_property_selector_def Let_def)

lemma property_value_column_and_arg_Inr:
  "property_value_column_and_arg f = Inr cv \<longleftrightarrow>
     pf_value_type f \<in> {property_value_string, property_value_number, property_value_bool} \<and>
     cv = (value_column_of (pf_value_type f), filter_argument f)"
  by (auto simp: property_value_column_and_arg_def query_allowlists value_column_of_def filter_argument_def
      property_constants split: if_splits)

lemma property_table_name:
  assumes "table_prefix_pattern (tbl_physical t)"
  shows "property_table_for t =
    Inr \<lparr>tbl_logical = default_logical_table @ property_table_suffix, tbl_physical = tbl_physical t @ property_table_suffix\<rparr>"
  using assms by (simp add: property_table_for_def validated_safe)

lemma property_value_types_distinct:
  "property_value_null \<noteq> property_value_string" "property_value_null \<noteq> property_value_number"
  "property_value_null \<noteq> property_value_bool"
  by (simp_all add: property_constants)

lemma build_property_filter_predicate_Inr:
  assumes "table_prefix_pattern (tbl_physical t)"
  shows "build_property_filter_predicate b t q idx f = Inr (p, args) \<longleftrightarrow>
    property_filter_ok b q f \<and>
    property_filter_call (tbl_physical t @ property_table_suffix) q f = ScWhere p args"
proof (cases "normalize_property_selector (pf_scope f) (pf_name f)")
  case (Inl err)
  then show ?thesis
    using normalize_property_selector_Inr [of "pf_scope f" "pf_name f" "selector_of f"]
    by (auto simp: build_property_filter_predicate_def property_filter_ok_def selector_of_def)
next
  case (Inr s)
  then have s: "pf_scope f \<in> {property_scope_event, property_scope_user}" "trim_space (pf_name f) \<noteq> []" "s = selector_of f"
    by (auto simp: normalize_property_selector_Inr selector_of_def)
  show ?thesis
  proof (cases "pf_value_type f = property_value_null")
    case True
    then show ?thesis
      using Inr s property_value_types_distinct
      by (auto simp: build_property_filter_predicate_def property_filter_ok_def property_filter_call_def normalize_eqs
          property_table_name [OF assms] selector_of_def Let_def)
  next
    case False
    show ?thesis
    proof (cases "property_value_column_and_arg f")
      case (Inl err)
      then show ?thesis
        using Inr s False property_value_column_and_arg_Inr [of f "(value_column_of (pf_value_type f), filter_argument f)"]
        by (auto simp: build_property_filter_predicate_def property_filter_ok_def normalize_eqs
            property_table_name [OF assms] Let_def)
    next
      case (Inr cv)
      then have "pf_value_type f \<in> {property_value_string, property_value_number, property_value_bool}"
        "cv = (value_column_of (pf_value_type f), filter_argument f)"
        by (simp_all only: property_value_column_and_arg_Inr)
      with False Inr \<open>normalize_property_selector _ _ = Inr s\<close> s show ?thesis
        by (auto simp: build_property_filter_predicate_def property_filter_ok_def property_filter_call_def normalize_eqs
            property_table_name [OF assms] selector_of_def Let_def)
    qed
  qed
qed

lemma build_property_filter_predicate_Inl:
  assumes "table_prefix_pattern (tbl_physical t)" and "build_property_filter_predicate b t q idx f = Inl err"
  shows "is_invalid_query err"
  using assms(2)
  by (auto simp: build_property_filter_predicate_def normalize_eqs property_table_name [OF assms(1)] Let_def
      split: sum.splits if_splits)

lemma apply_property_filters_Inr:
  assumes "table_prefix_pattern (tbl_physical t)"
  shows "apply_property_filters b t q idx fs sc = Inr sc' \<longleftrightarrow>
    (\<forall>f \<in> set fs. property_filter_ok b q f) \<and>
    sc' = sc @ map (property_filter_call (tbl_physical t @ property_table_suffix) q) fs"
proof (induction fs arbitrary: idx sc)
  case (Cons f fs)
  obtain p args where c: "property_filter_call (tbl_physical t @ property_table_suffix) q f = ScWhere p args"
    by (cases "property_filter_call (tbl_physical t @ property_table_suffix) q f")
      (auto simp: property_filter_call_def Let_def split: if_splits)
  note iff = build_property_filter_predicate_Inr [OF assms, of b q idx f]
  show ?case
  proof (cases "property_filter_ok b q f")
    case True
    with iff c have "build_property_filter_predicate b t q idx f = Inr (p, args)" by simp
    with True c Cons.IH show ?thesis by simp
  next
    case False
    with iff obtain err where "build_property_filter_predicate b t q idx f = Inl err"
      by (cases "build_property_filter_predicate b t q idx f") auto
    with False show ?thesis by simp
  qed
qed auto

lemma apply_property_filters_Inl:
  assumes "table_prefix_pattern (tbl_physical t)" and "apply_property_filters b t q idx fs sc = Inl err"
  shows "is_invalid_query err"
  using assms(2)
proof (induction fs arbitrary: idx sc)
  case (Cons f fs)
  then show ?case
    using build_property_filter_predicate_Inl [OF assms(1)] by (fastforce split: sum.splits)
qed simp

section \<open>Accepted queries and their scopes\<close>

definition window_ok :: "event_query_builder \<Rightarrow> event_list_query \<Rightarrow> bool" where
  "window_ok b q \<longleftrightarrow>
     (\<not> is_zero_time (lq_from q) \<and> \<not> is_zero_time (lq_to q) \<longrightarrow> tm_ns (lq_from q) < tm_ns (lq_to q)) \<and>
     (lq_property_filters q \<noteq> [] \<longrightarrow> \<not> is_zero_time (lq_from q) \<and> \<not> is_zero_time (lq_to q) \<and>
        sub_time (lq_to q) (lq_from q) \<le> rp_max_property_filter_window (qb_policy b))"

definition filtered_query_ok :: "event_query_builder \<Rightarrow> event_list_query \<Rightarrow> bool" where
  "filtered_query_ok b q \<longleftrightarrow>
     0 \<le> lq_offset q \<and> window_ok b q \<and>
     int (length (lq_filters q)) + int (length (lq_property_filters q)) \<le> rp_max_filters (qb_policy b) \<and>
     lq_tenant_id q \<noteq> [] \<and> lq_project_id q \<noteq> [] \<and> lq_source_id q \<noteq> [] \<and>
     (\<forall>f \<in> set (lq_filters q). event_filter_ok f) \<and>
     (\<forall>f \<in> set (lq_property_filters q). property_filter_ok b q f)"

definition events_query_ok :: "event_query_builder \<Rightarrow> event_list_query \<Rightarrow> bool" where
  "events_query_ok b q \<longleftrightarrow>
     filtered_query_ok b q \<and> lq_sort_field q \<in> sort_fields \<and> lq_sort_direction q \<in> sort_directions"

definition source_table :: "(string \<Rightarrow> 256 word) \<Rightarrow> event_query_builder \<Rightarrow> event_list_query \<Rightarrow> table" where
  "source_table sha b q =
     \<lparr>tbl_logical = default_logical_table,
      tbl_physical = qb_router b @ ''_'' @ short_hash sha (lq_tenant_id q) @ ''_'' @ short_hash sha (lq_project_id q)
        @ ''_'' @ short_hash sha (lq_source_id q)\<rparr>"

definition predicate_calls :: "table \<Rightarrow> event_list_query \<Rightarrow> scope" where
  "predicate_calls t q =
     scalar_predicates q @ map event_filter_call (lq_filters q) @
     map (property_filter_call (tbl_physical t @ property_table_suffix) q) (lq_property_filters q)"

definition order_calls :: "event_list_query \<Rightarrow> scope" where
  "order_calls q =
     (let column = sort_column_of (lq_sort_field q)
      in [ScOrder (column @ '' '' @ sort_direction_of (lq_sort_direction q))]
         @ (if column \<noteq> ''event_time'' then [ScOrder ''event_time DESC''] else [])
         @ (if column \<noteq> ''received_at'' then [ScOrder ''received_at DESC''] else []))"

lemma route_query_Inr:
  "route_query sha b (lq_tenant_id q) (lq_project_id q) (lq_source_id q) = Inr t \<longleftrightarrow>
     lq_tenant_id q \<noteq> [] \<and> lq_project_id q \<noteq> [] \<and> lq_source_id q \<noteq> [] \<and> t = source_table sha b q"
  by (auto simp: route_query_def route_key_Inr source_table_def)

lemma source_table_pattern:
  assumes "table_prefix_pattern (qb_router b)"
  shows "table_prefix_pattern (tbl_physical (source_table sha b q))"
proof -
  have u: "prefix_char CHR ''_''" by (simp add: prefix_char_def)
  then show ?thesis using assms by (auto simp: source_table_def short_hash_chars intro!: pattern_append)
qed

lemma validate_property_filter_window_None:
  "validate_property_filter_window b q = None \<longleftrightarrow>
     (lq_property_filters q \<noteq> [] \<longrightarrow> \<not> is_zero_time (lq_from q) \<and> \<not> is_zero_time (lq_to q) \<and>
        sub_time (lq_to q) (lq_from q) \<le> rp_max_property_filter_window (qb_policy b))"
  by (auto simp: validate_property_filter_window_def Let_def)

definition bounds_ok :: "event_query_builder \<Rightarrow> event_list_query \<Rightarrow> bool" where
  "bounds_ok b q \<longleftrightarrow>
     0 \<le> lq_offset q \<and> window_ok b q \<and>
     int (length (lq_filters q)) + int (length (lq_property_filters q)) \<le> rp_max_filters (qb_policy b) \<and>
     lq_tenant_id q \<noteq> [] \<and> lq_project_id q \<noteq> [] \<and> lq_source_id q \<noteq> []"

lemma filtered_scope_cases:
  obtains (refused) msg where "build_filtered_events_scope sha b q = Inl (ErrInvalidQuery msg)" "\<not> bounds_ok b q"
  | (routed) "bounds_ok b q"
      "build_filtered_events_scope sha b q =
        (case apply_event_filters 0 (lq_filters q) (base_scope (tbl_physical (source_table sha b q)) @ scalar_predicates q) of
           Inl err \<Rightarrow> Inl err
         | Inr sc \<Rightarrow>
             (case apply_property_filters b (source_table sha b q) q 0 (lq_property_filters q) sc of
                Inl err \<Rightarrow> Inl err
              | Inr sc' \<Rightarrow> Inr (sc', source_table sha b q)))"
proof (cases "lq_offset q < 0 \<or>
    \<not> is_zero_time (lq_from q) \<and> \<not> is_zero_time (lq_to q) \<and> \<not> before (lq_from q) (lq_to q) \<or>
    rp_max_filters (qb_policy b) < int (length (lq_filters q)) + int (length (lq_property_filters q))")
  case True
  then have "\<not> bounds_ok b q" by (auto simp: bounds_ok_def window_ok_def before_def)
  moreover from True have "\<exists>msg. build_filtered_events_scope sha b q = Inl (ErrInvalidQuery msg)"
    unfolding build_filtered_events_scope_def Let_def by (elim disjE) (simp_all split: if_split)
  ultimately show ?thesis using refused by blast
next
  case early: False
  then have head: "build_filtered_events_scope sha b q =
      (case validate_property_filter_window b q of
         Some err \<Rightarrow> Inl err
       | None \<Rightarrow>
           (case route_query sha b (lq_tenant_id q) (lq_project_id q) (lq_source_id q) of
              Inl err \<Rightarrow> Inl (ErrInvalidQuery (error_text err))
            | Inr t \<Rightarrow>
                (case apply_event_filters 0 (lq_filters q) (base_scope (tbl_physical t) @ scalar_predicates q) of
                   Inl err \<Rightarrow> Inl err
                 | Inr sc \<Rightarrow>
                     (case apply_property_filters b t q 0 (lq_property_filters q) sc of
                        Inl err \<Rightarrow> Inl err
                      | Inr sc' \<Rightarrow> Inr (sc', t)))))"
    by (auto simp: build_filtered_events_scope_def Let_def)
  show ?thesis
  proof (cases "validate_property_filter_window b q")
    case (Some err)
    then have "\<not> bounds_ok b q"
      using validate_property_filter_window_None [of b q] by (auto simp: bounds_ok_def window_ok_def)
    moreover from Some obtain msg where "err = ErrInvalidQuery msg"
      by (auto simp: validate_property_filter_window_def Let_def split: if_splits)
    ultimately show ?thesis
      using Some refused [of msg] by (simp add: head)
  next
    case None
    show ?thesis
    proof (cases "route_query sha b (lq_tenant_id q) (lq_project_id q) (lq_source_id q)")
      case (Inl err)
      with route_query_Inr [of sha b q "source_table sha b q"] have "\<not> bounds_ok b q" by (auto simp: bounds_ok_def)
      with None Inl refused [of "error_text err"] show ?thesis by (simp add: head)
    next
      case (Inr t)
      with early None have "bounds_ok b q"
        by (auto simp: bounds_ok_def window_ok_def before_def route_query_Inr validate_property_filter_window_None)
      moreover from Inr have "t = source_table sha b q" by (simp add: route_query_Inr)
      ultimately show ?thesis using None Inr routed by (simp add: head)
    qed
  qed
qed

lemma build_filtered_events_scope_Inr:
  assumes "table_prefix_pattern (qb_router b)"
  shows "build_filtered_events_scope sha b q = Inr (sc, t) \<longleftrightarrow>
    filtered_query_ok b q \<and> t = source_table sha b q \<and> sc = base_scope (tbl_physical t) @ predicate_calls t q"
proof (cases rule: filtered_scope_cases [of sha b q])
  case (refused msg)
  then show ?thesis by (auto simp: bounds_ok_def filtered_query_ok_def)
next
  case routed
  let ?t = "source_table sha b q"
  let ?sc = "base_scope (tbl_physical ?t) @ scalar_predicates q"
  let ?sc' = "?sc @ map event_filter_call (lq_filters q)"
  have ok: "filtered_query_ok b q \<longleftrightarrow> (\<forall>f \<in> set (lq_filters q). event_filter_ok f) \<and>
      (\<forall>f \<in> set (lq_property_filters q). property_filter_ok b q f)"
    using routed(1) by (auto simp: bounds_ok_def filtered_query_ok_def)
  note ev = apply_event_filters_Inr [of 0 "lq_filters q" ?sc]
  note pr = apply_property_filters_Inr [OF source_table_pattern [OF assms], of b sha q q 0 "lq_property_filters q" ?sc']
  show ?thesis
  proof (cases "\<forall>f \<in> set (lq_filters q). event_filter_ok f")
    case True
    then have "apply_event_filters 0 (lq_filters q) ?sc = Inr ?sc'" by (simp add: ev)
    with routed(2) ok True pr show ?thesis
      by (auto simp: predicate_calls_def split: sum.splits)
  next
    case False
    then obtain err where "apply_event_filters 0 (lq_filters q) ?sc = Inl err"
      using ev by (cases "apply_event_filters 0 (lq_filters q) ?sc") auto
    with routed(2) ok False show ?thesis by simp
  qed
qed

lemma build_filtered_events_scope_Inl:
  assumes "table_prefix_pattern (qb_router b)" and "build_filtered_events_scope sha b q = Inl err"
  shows "is_invalid_query err"
proof (cases rule: filtered_scope_cases [of sha b q])
  case (refused msg)
  with assms(2) show ?thesis by auto
next
  case routed
  with assms(2) source_table_pattern [OF assms(1), of sha q] show ?thesis
    by (auto split: sum.splits dest: apply_event_filters_Inl apply_property_filters_Inl)
qed

lemma apply_events_order_Inr:
  "apply_events_order (lq_sort_field q) (lq_sort_direction q) sc = Inr sc' \<longleftrightarrow>
     lq_sort_field q \<in> sort_fields \<and> lq_sort_direction q \<in> sort_directions \<and> sc' = sc @ order_calls q"
  by (auto simp: apply_events_order_def normalize_eqs order_calls_def Let_def)

definition paging_calls :: "event_query_builder \<Rightarrow> event_list_query \<Rightarrow> scope" where
  "paging_calls b q =
     [ScLimit (normalize_limit b (lq_limit q) default_events_limit)]
     @ (if 0 < lq_offset q then [ScOffset (lq_offset q)] else [])"

lemma events_scope_Inr:
  assumes "table_prefix_pattern (qb_router b)"
  shows "events_scope sha b q = Inr (sc, t) \<longleftrightarrow>
    events_query_ok b q \<and> t = source_table sha b q \<and>
    sc = base_scope (tbl_physical t) @ predicate_calls t q @ order_calls q @ paging_calls b q"
proof (cases "build_filtered_events_scope sha b q")
  case (Inl err)
  with build_filtered_events_scope_Inr [OF assms, of sha q] show ?thesis
    by (auto simp: events_scope_def events_query_ok_def)
next
  case (Inr st)
  then obtain sc0 t0 where st: "build_filtered_events_scope sha b q = Inr (sc0, t0)" by (cases st) auto
  note f = this [unfolded build_filtered_events_scope_Inr [OF assms]]
  show ?thesis
  proof (cases "apply_events_order (lq_sort_field q) (lq_sort_direction q) sc0")
    case (Inl err)
    with st apply_events_order_Inr [of q sc0] show ?thesis by (auto simp: events_scope_def events_query_ok_def)
  next
    case (Inr sc1)
    then have "events_scope sha b q = Inr (sc1 @ paging_calls b q, t0)"
      by (simp add: events_scope_def st paging_calls_def)
    with Inr f show ?thesis
      unfolding apply_events_order_Inr by (auto simp: events_query_ok_def)
  qed
qed

lemma events_scope_Inl:
  assumes "table_prefix_pattern (qb_router b)" and "events_scope sha b q = Inl err"
  shows "is_invalid_query err"
  using assms(2) build_filtered_events_scope_Inl [OF assms(1), of sha q]
  by (auto simp: events_scope_def apply_events_order_def normalize_eqs split: sum.splits prod.splits if_splits)

lemma new_event_query_builder_Inr:
  assumes "new_event_query_builder open_db (Some prfx) opts = Inr b"
  shows "validate_policy (qb_policy b) = None \<and> qb_db b \<noteq> None"
  using assms by (auto simp: new_event_query_builder_def Let_def split: sum.splits option.splits)

text \<open>The options of the package do not touch the router or the filter limits.\<close>

definition package_option :: "query_builder_option \<Rightarrow> bool" where
  "package_option opt \<longleftrightarrow>
     (\<exists>db. opt = with_query_db db) \<or> (\<exists>m. opt = with_max_query_limit m) \<or>
     (\<exists>ss. opt = with_allowed_property_filters ss)"

definition configured :: "string \<Rightarrow> event_query_builder \<Rightarrow> bool" where
  "configured prfx b \<longleftrightarrow>
     qb_router b = prfx \<and> rp_max_filters (qb_policy b) = default_max_filters \<and>
     rp_max_property_filter_window (qb_policy b) = default_max_property_filter_window \<and>
     rp_allowed (qb_policy b) \<noteq> None"

lemma package_option_configured: "package_option opt \<Longrightarrow> configured prfx b \<Longrightarrow> configured prfx (opt b)"
  by (auto simp: package_option_def configured_def with_query_db_def with_max_query_limit_def
      with_allowed_property_filters_def)

lemma options_configured:
  assumes "\<forall>opt \<in> set opts. \<forall>f. opt = Some f \<longrightarrow> package_option f" and "configured prfx b"
  shows "configured prfx (foldl (\<lambda>b opt. case opt of None \<Rightarrow> b | Some f \<Rightarrow> f b) b opts)"
  using assms by (induction opts arbitrary: b) (auto simp: package_option_configured split: option.split)

lemma new_event_query_builder_configured:
  assumes "new_event_query_builder open_db (Some prfx) opts = Inr b"
    and "\<forall>opt \<in> set opts. \<forall>f. opt = Some f \<longrightarrow> package_option f"
  shows "configured prfx b \<and> 0 < rp_max_query_limit (qb_policy b)"
proof -
  from assms(1) obtain db where db: "open_db = Inr db"
    by (auto simp: new_event_query_builder_def split: sum.splits)
  let ?b = "\<lparr>qb_router = prfx, qb_db = Some db, qb_policy = default_read_side_policy\<rparr>"
  have "configured prfx ?b" by (simp add: configured_def default_read_side_policy_def)
  with assms(2) have "configured prfx (foldl (\<lambda>b opt. case opt of None \<Rightarrow> b | Some f \<Rightarrow> f b) ?b opts)"
    by (rule options_configured)
  moreover from assms(1) db have "b = foldl (\<lambda>b opt. case opt of None \<Rightarrow> b | Some f \<Rightarrow> f b) ?b opts"
    by (auto simp: new_event_query_builder_def Let_def split: option.splits)
  moreover from new_event_query_builder_Inr [OF assms(1)] have "0 < rp_max_query_limit (qb_policy b)"
    by (auto simp: validate_policy_def split: if_splits)
  ultimately show ?thesis by simp
qed

section \<open>Properties\<close>

lemma materialize_Inr:
  "materialize b model failure sc t limit ev = Inr plan \<longleftrightarrow>
     (\<exists>db sql vars. qb_db b = Some db \<and> db (sc @ [ScFind model]) = Some (sql, vars) \<and> sql \<noteq> [] \<and>
        plan = new_event_query_plan sql vars (tbl_logical t) (tbl_physical t) limit ev)"
  by (auto simp: materialize_def split: option.splits)

lemma materialize_Inl: "materialize b model failure sc t limit ev = Inl err \<Longrightarrow> err = ErrText failure"
  by (auto simp: materialize_def split: option.splits if_splits)

text \<open>
  C13. Exactly which plans the Events builder returns: a query is planned precisely when it keeps every rule
  of the read-side policy (scope, time window, number of filters, allowlisted fields, operators, selectors
  and sort) and GORM builds a statement; the statement then comes from exactly these calls, in this order,
  on the table that the writers route the same source to.
\<close>

theorem events_plan_exact:
  assumes "table_prefix_pattern (qb_router b)"
  shows "build_events_query sha (Some b) q = Inr plan \<longleftrightarrow>
    events_query_ok b q \<and>
    (\<exists>db sql vars. qb_db b = Some db \<and> sql \<noteq> [] \<and>
       db (base_scope (tbl_physical (source_table sha b q)) @ predicate_calls (source_table sha b q) q @ order_calls q
           @ paging_calls b q @ [ScFind EventRows]) = Some (sql, vars) \<and>
       plan = new_event_query_plan sql vars ''events'' (tbl_physical (source_table sha b q))
         (normalize_limit b (lq_limit q) default_events_limit)
         (build_evidence ''events'' q (normalize_limit b (lq_limit q) default_events_limit)))"
proof (cases "events_scope sha b q")
  case (Inl err)
  with events_scope_Inr [OF assms, of sha q] show ?thesis
    by (auto simp: build_events_query_def build_events_query_for_def)
next
  case (Inr st)
  then obtain sc t where "events_scope sha b q = Inr (sc, t)" by (cases st) auto
  with events_scope_Inr [OF assms, of sha q sc t] show ?thesis
    by (auto simp: build_events_query_def build_events_query_for_def build_plan_def materialize_Inr Let_def
        source_table_def default_logical_table_def family_events_def)
qed

text \<open>The texts of the calls of a scope, without the bound arguments.\<close>

fun call_text :: "scope_call \<Rightarrow> scope_call" where
  "call_text (ScWhere p args) = ScWhere p []"
| "call_text c = c"

definition query_shape :: "event_list_query \<Rightarrow> _" where
  "query_shape q =
     ((is_zero_time (lq_from q), is_zero_time (lq_to q), lq_event_name q = [], lq_distinct_id q = []),
      map (\<lambda>f. (ef_field f, ef_operator f)) (lq_filters q),
      map (\<lambda>f. (pf_value_type f, pf_operator f)) (lq_property_filters q),
      (lq_sort_field q, lq_sort_direction q, lq_limit q, lq_offset q))"

lemma scalar_predicates_text:
  assumes "query_shape q = query_shape q'"
  shows "map call_text (scalar_predicates q) = map call_text (scalar_predicates q')"
  using assms by (auto simp: scalar_predicates_def query_shape_def)

lemma event_filter_texts:
  "map (\<lambda>f. (ef_field f, ef_operator f)) fs = map (\<lambda>f. (ef_field f, ef_operator f)) fs' \<Longrightarrow>
   map (call_text \<circ> event_filter_call) fs = map (call_text \<circ> event_filter_call) fs'"
  by (induction fs fs' rule: list_induct2') (auto simp: event_filter_call_def)

lemma property_filter_texts:
  "map (\<lambda>f. (pf_value_type f, pf_operator f)) fs = map (\<lambda>f. (pf_value_type f, pf_operator f)) fs' \<Longrightarrow>
   map (call_text \<circ> property_filter_call n q) fs = map (call_text \<circ> property_filter_call n q') fs'"
  by (induction fs fs' rule: list_induct2') (auto simp: property_filter_call_def Let_def)

lemma where_call_sources:
  assumes "ScWhere p args \<in> set (base_scope n @ predicate_calls t q @ order_calls q @ paging_calls b q)"
  obtains "ScWhere p args \<in> set (scalar_predicates q)"
    | f where "f \<in> set (lq_filters q)" "event_filter_call f = ScWhere p args"
    | f where "f \<in> set (lq_property_filters q)"
        "property_filter_call (tbl_physical t @ property_table_suffix) q f = ScWhere p args"
proof -
  have "ScWhere p args \<notin> set (base_scope n @ order_calls q @ paging_calls b q)"
    by (simp add: base_scope_def order_calls_def paging_calls_def Let_def)
  with assms have "ScWhere p args \<in> set (predicate_calls t q)" by simp
  then consider "ScWhere p args \<in> set (scalar_predicates q)"
    | "ScWhere p args \<in> event_filter_call ` set (lq_filters q)"
    | "ScWhere p args \<in> property_filter_call (tbl_physical t @ property_table_suffix) q ` set (lq_property_filters q)"
    unfolding predicate_calls_def by auto
  then show ?thesis using that by cases (blast, metis imageE, metis imageE)
qed

abbreviation placeholders :: "string \<Rightarrow> nat" where
  "placeholders p \<equiv> length (filter (\<lambda>c. c = CHR ''?'') p)"

lemma prefix_char_placeholders: "\<forall>c \<in> set s. prefix_char c \<Longrightarrow> placeholders s = 0"
  by (auto simp: filter_empty_conv prefix_char_def is_lower_def is_digit_def)

lemma filter_text_placeholders: "event_filter_ok f \<Longrightarrow> event_filter_call f = ScWhere p args \<Longrightarrow> placeholders p = length args"
  by (auto simp: event_filter_ok_def event_filter_call_def filter_fields_def sql_operator_of_def)

lemma property_text_placeholders:
  assumes "\<forall>c \<in> set n. prefix_char c" and "property_filter_call n q f = ScWhere p args"
  shows "placeholders p = length args"
  using assms prefix_char_placeholders [OF assms(1)]
  by (auto simp: property_filter_call_def base_property_predicate_def value_column_of_def sql_operator_of_def
      backtick_def Let_def split: if_splits)

text \<open>
  C22. No caller text reaches a statement: two accepted queries on the same table with the same shape (which
  optional parts are set, which allowlisted fields and operators are used, how many filters there are, sort
  and paging) make calls with the same texts, whatever tenant, ids, event names, property names, property
  values and times they carry; those only occur as bound arguments, one for each placeholder.
\<close>

theorem caller_text_only_bound:
  assumes "table_prefix_pattern (qb_router b)"
    and "events_scope sha b q = Inr (sc, t)" and "events_scope sha b q' = Inr (sc', t')"
    and "tbl_physical t = tbl_physical t'" and "query_shape q = query_shape q'"
  shows "map call_text sc = map call_text sc' \<and> (\<forall>p args. ScWhere p args \<in> set sc \<longrightarrow> placeholders p = length args)"
proof -
  note e = assms(2) [unfolded events_scope_Inr [OF assms(1)]]
  note e' = assms(3) [unfolded events_scope_Inr [OF assms(1)]]
  have "map call_text (predicate_calls t q) = map call_text (predicate_calls t' q')"
    unfolding predicate_calls_def map_append map_map assms(4)
    by (intro arg_cong2 [where f = append] scalar_predicates_text event_filter_texts property_filter_texts)
      (use assms(5) in \<open>simp_all add: query_shape_def\<close>)
  moreover have "order_calls q = order_calls q'" "paging_calls b q = paging_calls b q'"
    using assms(5) by (simp_all add: order_calls_def paging_calls_def query_shape_def)
  ultimately have texts: "map call_text sc = map call_text sc'"
    using e e' assms(4) by (simp add: base_scope_def)
  have safe: "\<forall>c \<in> set (tbl_physical t @ property_table_suffix). prefix_char c"
    using source_table_pattern [OF assms(1), of sha q] suffix_chars e by (auto simp: table_prefix_pattern_iff)
  have "placeholders p = length args" if w: "ScWhere p args \<in> set sc" for p args
  proof -
    from w e have "ScWhere p args \<in> set (base_scope (tbl_physical t) @ predicate_calls t q @ order_calls q @ paging_calls b q)"
      by simp
    then show ?thesis
    proof (cases rule: where_call_sources)
      case 1
      then show ?thesis by (auto simp: scalar_predicates_def split: if_splits)
    next
      case (2 f)
      with e filter_text_placeholders show ?thesis by (auto simp: events_query_ok_def filtered_query_ok_def)
    next
      case (3 f)
      show ?thesis by (rule property_text_placeholders [OF safe 3(2)])
    qed
  qed
  with texts show ?thesis by blast
qed

definition sample_builder :: event_query_builder where
  "sample_builder =
     \<lparr>qb_router = ''events'', qb_db = Some (\<lambda>sc. Some (''SELECT'', [])), qb_policy = default_read_side_policy\<rparr>"

definition sample_query :: event_list_query where
  "sample_query =
     \<lparr>lq_tenant_id = ''t'', lq_project_id = ''p'', lq_source_id = ''s'', lq_event_name = ''page_view'', lq_distinct_id = [],
      lq_from = \<lparr>tm_ns = 62135596800 * second, tm_zone = ZoneUTC\<rparr>, lq_to = \<lparr>tm_ns = 62135596800 * second + 3 * hour, tm_zone = ZoneUTC\<rparr>,
      lq_limit = 5000, lq_offset = 0, lq_sort_field = [], lq_sort_direction = [],
      lq_filters = [\<lparr>ef_field = ''visit_id'', ef_operator = ''eq'', ef_value = ''v1''\<rparr>],
      lq_property_filters =
        [\<lparr>pf_scope = ''event'', pf_name = '' plan '', pf_value_type = ''string'', pf_operator = ''neq'', pf_string = ''free'',
          pf_number = Finite 0, pf_bool = False\<rparr>],
      lq_allowed = [PropertySelector ''event'' ''plan'']\<rparr>"

definition sample_query_2 :: event_list_query where
  "sample_query_2 =
     sample_query\<lparr>lq_event_name := ''x OR 1 = 1'', lq_filters := [\<lparr>ef_field = ''visit_id'', ef_operator = ''eq'', ef_value = ''?''\<rparr>]\<rparr>"

definition sample_scope :: "event_list_query \<Rightarrow> scope" where
  "sample_scope q = fst (projr (events_scope (\<lambda>_. 0) sample_builder q))"

lemma sample_events_scope:
  "q \<in> {sample_query, sample_query_2} \<Longrightarrow>
   events_scope (\<lambda>_. 0) sample_builder q = Inr (sample_scope q, source_table (\<lambda>_. 0) sample_builder sample_query)"
proof (elim insertE)
  show "events_scope (\<lambda>_. 0) sample_builder q = Inr (sample_scope q, source_table (\<lambda>_. 0) sample_builder sample_query)"
    if "q = sample_query" unfolding that sample_scope_def by code_simp
  show "events_scope (\<lambda>_. 0) sample_builder q = Inr (sample_scope q, source_table (\<lambda>_. 0) sample_builder sample_query)"
    if "q = sample_query_2" unfolding that sample_scope_def by code_simp
qed simp

lemma sample_router: "table_prefix_pattern (qb_router sample_builder)"
  by code_simp

theorem events_plan_exact_witness:
  "\<exists>plan. build_events_query (\<lambda>_. 0) (Some sample_builder) sample_query = Inr plan \<and> events_query_ok sample_builder sample_query"
proof -
  have "isl (build_events_query (\<lambda>_. 0) (Some sample_builder) sample_query) = False" by code_simp
  then obtain plan where "build_events_query (\<lambda>_. 0) (Some sample_builder) sample_query = Inr plan"
    by (cases "build_events_query (\<lambda>_. 0) (Some sample_builder) sample_query") auto
  with events_plan_exact [OF sample_router, of "\<lambda>_. 0" sample_query plan] show ?thesis by blast
qed

theorem caller_text_only_bound_witness:
  "map call_text (sample_scope sample_query) = map call_text (sample_scope sample_query_2)"
proof -
  have "query_shape sample_query = query_shape sample_query_2" by code_simp
  then show ?thesis
    using caller_text_only_bound [OF sample_router sample_events_scope sample_events_scope refl] by blast
qed

text \<open>
  Every plan is bounded, whatever the caller asks for: with a builder from the constructor and the
  options of the package, an Events plan returns between one row and the configured maximum, skips no
  negative number of rows, has at most 25 predicates besides the routing scope (20 filters, two time bounds
  and two scalar selectors), and a plan that touches the property table covers at most seven days. A
  Realtime plan obeys the same maximum and, when no limit is given, asks for at most 50 rows.
\<close>

theorem plans_are_bounded:
  assumes "new_table_router raw = Inr prfx"
    and "new_event_query_builder open_db (Some prfx) opts = Inr b"
    and "\<forall>opt \<in> set opts. \<forall>f. opt = Some f \<longrightarrow> package_option f"
    and "build_events_query sha (Some b) q = Inr plan" and "build_realtime_query sha (Some b) r = Inr rplan"
  shows "1 \<le> qp_limit plan \<and> qp_limit plan \<le> rp_max_query_limit (qb_policy b) \<and> 0 \<le> lq_offset q \<and>
    length (predicate_calls (source_table sha b q) q) \<le> 25 \<and>
    (lq_property_filters q \<noteq> [] \<longrightarrow> 0 < tm_ns (lq_to q) - tm_ns (lq_from q) \<and> tm_ns (lq_to q) - tm_ns (lq_from q) \<le> 7 * 24 * hour) \<and>
    1 \<le> qp_limit rplan \<and> qp_limit rplan \<le> rp_max_query_limit (qb_policy b) \<and>
    (rt_limit r \<le> 0 \<longrightarrow> qp_limit rplan \<le> 50)"
proof -
  from new_event_query_builder_configured [OF assms(2,3)] have c: "configured prfx b" and m: "0 < rp_max_query_limit (qb_policy b)"
    by auto
  from c new_table_router_Inr [OF assms(1)] have p: "table_prefix_pattern (qb_router b)" by (simp add: configured_def)
  from assms(4) have ok: "events_query_ok b q" and lim: "qp_limit plan = normalize_limit b (lq_limit q) default_events_limit"
    unfolding events_plan_exact [OF p] by auto
  have rlim: "qp_limit rplan = normalize_limit b (normalize_limit b (rt_limit r) default_realtime_limit) default_events_limit"
    using assms(5) by (auto simp: build_realtime_query_def build_events_query_for_def build_plan_def materialize_Inr
        realtime_as_list_query_def Let_def split: sum.splits prod.splits)
  have n: "int (length (lq_filters q)) + int (length (lq_property_filters q)) \<le> 20"
    using ok c by (simp add: events_query_ok_def filtered_query_ok_def configured_def default_max_filters_def)
  have "length (scalar_predicates q) \<le> 5" by (simp add: scalar_predicates_def)
  with n have "length (predicate_calls (source_table sha b q) q) \<le> 25" by (simp add: predicate_calls_def)
  moreover have "0 < tm_ns (lq_to q) - tm_ns (lq_from q) \<and> tm_ns (lq_to q) - tm_ns (lq_from q) \<le> 7 * 24 * hour"
    if "lq_property_filters q \<noteq> []"
    using ok c that
    by (auto simp: events_query_ok_def filtered_query_ok_def window_ok_def configured_def sub_time_def
        default_max_property_filter_window_def hour_def minute_def second_def)
  ultimately show ?thesis
    using m ok lim rlim
    by (auto simp: normalize_limit_def default_events_limit_def default_realtime_limit_def Let_def
        events_query_ok_def filtered_query_ok_def)
qed

definition sample_realtime :: realtime_query where
  "sample_realtime = \<lparr>rt_tenant_id = ''t'', rt_project_id = ''p'', rt_source_id = ''s'', rt_since = zero_time, rt_limit = 0\<rparr>"

theorem plans_are_bounded_witness:
  "qp_limit (projr (build_realtime_query (\<lambda>_. 0) (Some sample_builder) sample_realtime)) \<le> 50 \<and>
   qp_limit (projr (build_events_query (\<lambda>_. 0) (Some sample_builder) sample_query)) \<le> 1000"
proof -
  have r: "new_table_router ''events'' = Inr ''events''" by code_simp
  have b: "new_event_query_builder (Inr (\<lambda>sc. Some (''SELECT'', []))) (Some ''events'') [] = Inr sample_builder"
    by (simp add: new_event_query_builder_def sample_builder_def validate_policy_def default_read_side_policy_def
        default_max_query_limit_def default_max_filters_def default_max_property_filter_window_def hour_def minute_def second_def)
  have e: "build_events_query (\<lambda>_. 0) (Some sample_builder) sample_query =
      Inr (projr (build_events_query (\<lambda>_. 0) (Some sample_builder) sample_query))" by code_simp
  have t: "build_realtime_query (\<lambda>_. 0) (Some sample_builder) sample_realtime =
      Inr (projr (build_realtime_query (\<lambda>_. 0) (Some sample_builder) sample_realtime))" by code_simp
  from plans_are_bounded [OF r b _ e t] show ?thesis
    by (simp add: sample_realtime_def sample_builder_def default_read_side_policy_def default_max_query_limit_def)
qed

lemma count_scope_Inr:
  assumes "table_prefix_pattern (qb_router b)"
  shows "count_scope sha b cq = Inr (sc, t) \<longleftrightarrow>
    (let q = event_count_query_as_list_query cq
     in filtered_query_ok b q \<and> t = source_table sha b q \<and>
        sc = base_scope (tbl_physical t) @ predicate_calls t q @ [ScSelect ''count() AS count''])"
proof (cases "build_filtered_events_scope sha b (event_count_query_as_list_query cq)")
  case (Inl err)
  with build_filtered_events_scope_Inr [OF assms, of sha "event_count_query_as_list_query cq"] show ?thesis
    by (auto simp: count_scope_def Let_def)
next
  case (Inr st)
  then obtain sc0 t0 where st: "build_filtered_events_scope sha b (event_count_query_as_list_query cq) = Inr (sc0, t0)"
    by (cases st) auto
  then have "count_scope sha b cq = Inr (sc0 @ [ScSelect ''count() AS count''], t0)" by (simp add: count_scope_def)
  with st [unfolded build_filtered_events_scope_Inr [OF assms]] show ?thesis by (auto simp: Let_def)
qed

lemma count_scope_Inl:
  assumes "table_prefix_pattern (qb_router b)" and "count_scope sha b cq = Inl err"
  shows "is_invalid_query err"
  using assms(2) build_filtered_events_scope_Inl [OF assms(1), of sha "event_count_query_as_list_query cq"]
  by (auto simp: count_scope_def split: sum.splits)

text \<open>
  C25. Errors tell the caller's fault from the system's: whenever one of the three builders refuses a query,
  the error wraps \<open>ErrInvalidEventQuery\<close>, unless the query itself was acceptable and GORM built no statement.
\<close>

theorem builder_errors_classified:
  assumes "table_prefix_pattern (qb_router b)"
  shows "(build_events_query sha (Some b) q = Inl err \<longrightarrow>
       is_invalid_query err \<or> events_query_ok b q \<and> err = ErrText ''gorm did not build an event query'') \<and>
    (build_event_count_query sha (Some b) cq = Inl err \<longrightarrow>
       is_invalid_query err \<or>
       filtered_query_ok b (event_count_query_as_list_query cq) \<and> err = ErrText ''gorm did not build an event count query'') \<and>
    (build_realtime_query sha (Some b) r = Inl err \<longrightarrow>
       is_invalid_query err \<or>
       events_query_ok b (realtime_as_list_query b r) \<and> err = ErrText ''gorm did not build an event query'')"
proof -
  have ev: "is_invalid_query err \<or> events_query_ok b q \<and> err = ErrText ''gorm did not build an event query''"
    if f: "build_events_query_for sha (Some b) q family = Inl err" for q family
  proof (cases "events_scope sha b q")
    case (Inl e)
    with f events_scope_Inl [OF assms] show ?thesis by (auto simp: build_events_query_for_def)
  next
    case (Inr st)
    then obtain sc t where st: "events_scope sha b q = Inr (sc, t)" by (cases st) auto
    with f have "err = ErrText ''gorm did not build an event query''"
      by (auto simp: build_events_query_for_def build_plan_def Let_def dest: materialize_Inl)
    with st events_scope_Inr [OF assms] show ?thesis by blast
  qed
  have ct: "is_invalid_query err \<or>
      filtered_query_ok b (event_count_query_as_list_query cq) \<and> err = ErrText ''gorm did not build an event count query''"
    if f: "build_event_count_query sha (Some b) cq = Inl err"
  proof (cases "count_scope sha b cq")
    case (Inl e)
    with f count_scope_Inl [OF assms] show ?thesis by (auto simp: build_event_count_query_def)
  next
    case (Inr st)
    then obtain sc t where st: "count_scope sha b cq = Inr (sc, t)" by (cases st) auto
    with f have "err = ErrText ''gorm did not build an event count query''"
      by (auto simp: build_event_count_query_def build_count_plan_def dest: materialize_Inl)
    with st count_scope_Inr [OF assms, of sha cq sc t] show ?thesis by (auto simp: Let_def)
  qed
  from ev ct show ?thesis by (simp add: build_events_query_def build_realtime_query_def)
qed

theorem builder_errors_classified_witness:
  "\<exists>err. build_events_query (\<lambda>_. 0) (Some sample_builder) (sample_query\<lparr>lq_sort_field := ''1; DROP TABLE x''\<rparr>) = Inl err \<and>
     is_invalid_query err"
proof -
  let ?q = "sample_query\<lparr>lq_sort_field := ''1; DROP TABLE x''\<rparr>"
  have "isl (build_events_query (\<lambda>_. 0) (Some sample_builder) ?q)" by code_simp
  then obtain err where err: "build_events_query (\<lambda>_. 0) (Some sample_builder) ?q = Inl err"
    by (cases "build_events_query (\<lambda>_. 0) (Some sample_builder) ?q") auto
  moreover have "\<not> events_query_ok sample_builder ?q"
    by (simp add: events_query_ok_def sort_fields_def)
  ultimately show ?thesis using builder_errors_classified [OF sample_router, of "\<lambda>_. 0" ?q err] by blast
qed

text \<open>The predicates of a scope, and those among them that read the property table.\<close>

definition is_where :: "scope_call \<Rightarrow> bool" where
  "is_where c = (case c of ScWhere p args \<Rightarrow> True | _ \<Rightarrow> False)"

definition reads_property_table :: "string \<Rightarrow> scope_call \<Rightarrow> bool" where
  "reads_property_table n c = (case c of ScWhere p args \<Rightarrow> prefix (base_property_predicate n) p | _ \<Rightarrow> False)"

lemma property_call_reads: "reads_property_table n (property_filter_call n q f) \<and> is_where (property_filter_call n q f)"
  by (simp add: reads_property_table_def is_where_def property_filter_call_def Let_def)

lemma scalar_call_kinds:
  "c \<in> set (scalar_predicates q) \<Longrightarrow> is_where c \<and> \<not> reads_property_table n c"
  by (auto simp: scalar_predicates_def is_where_def reads_property_table_def base_property_predicate_def split: if_splits)

lemma event_filter_call_kinds:
  "event_filter_ok f \<Longrightarrow> is_where (event_filter_call f) \<and> \<not> reads_property_table n (event_filter_call f)"
  by (auto simp: event_filter_ok_def event_filter_call_def is_where_def reads_property_table_def base_property_predicate_def
      filter_fields_def)

lemma other_call_kinds:
  "c \<in> set (base_scope n @ order_calls q @ paging_calls b q) \<Longrightarrow> \<not> is_where c \<and> \<not> reads_property_table m c"
  by (auto simp: base_scope_def order_calls_def paging_calls_def is_where_def reads_property_table_def Let_def
      split: if_splits)

lemma no_other_calls:
  assumes "\<And>c. c \<in> set (base_scope n @ order_calls q @ paging_calls b q) \<Longrightarrow> \<not> P c"
  shows "filter P (base_scope n @ cs @ order_calls q @ paging_calls b q) = filter P cs"
proof -
  have "filter P (base_scope n) = []" "filter P (order_calls q) = []" "filter P (paging_calls b q) = []"
    using assms by (simp_all add: filter_empty_conv)
  then show ?thesis by (simp only: filter_append append_Nil append_Nil2)
qed

lemma where_calls:
  assumes "\<forall>f \<in> set (lq_filters q). event_filter_ok f"
  shows "filter is_where (base_scope n @ predicate_calls t q @ order_calls q @ paging_calls b q) = predicate_calls t q"
proof -
  have "is_where c" if c: "c \<in> set (predicate_calls t q)" for c
  proof -
    from c consider "c \<in> set (scalar_predicates q)" | f where "f \<in> set (lq_filters q)" "c = event_filter_call f"
      | f where "c = property_filter_call (tbl_physical t @ property_table_suffix) q f"
      unfolding predicate_calls_def by auto
    then show ?thesis
      using assms scalar_call_kinds event_filter_call_kinds property_call_reads by cases blast+
  qed
  then have "filter is_where (predicate_calls t q) = predicate_calls t q" by (simp add: filter_id_conv)
  moreover have "filter is_where (base_scope n @ predicate_calls t q @ order_calls q @ paging_calls b q)
      = filter is_where (predicate_calls t q)"
    by (rule no_other_calls) (use other_call_kinds in blast)
  ultimately show ?thesis by simp
qed

lemma property_calls:
  assumes "\<forall>f \<in> set (lq_filters q). event_filter_ok f"
  shows "filter (reads_property_table (tbl_physical t @ property_table_suffix))
      (base_scope n @ predicate_calls t q @ order_calls q @ paging_calls b q)
    = map (property_filter_call (tbl_physical t @ property_table_suffix) q) (lq_property_filters q)"
proof -
  let ?P = "reads_property_table (tbl_physical t @ property_table_suffix)"
  have "filter ?P (scalar_predicates q) = []" using scalar_call_kinds by (auto simp: filter_empty_conv)
  moreover have "filter ?P (map event_filter_call (lq_filters q)) = []"
    using assms event_filter_call_kinds by (auto simp: filter_empty_conv)
  moreover have "filter ?P (map (property_filter_call (tbl_physical t @ property_table_suffix) q) fs)
      = map (property_filter_call (tbl_physical t @ property_table_suffix) q) fs" for fs
    using property_call_reads by (auto simp: filter_id_conv)
  ultimately have "filter ?P (predicate_calls t q)
      = map (property_filter_call (tbl_physical t @ property_table_suffix) q) (lq_property_filters q)"
    unfolding predicate_calls_def by (simp only: filter_append append_Nil)
  moreover have "filter ?P (base_scope n @ predicate_calls t q @ order_calls q @ paging_calls b q) = filter ?P (predicate_calls t q)"
    by (rule no_other_calls) (use other_call_kinds in blast)
  ultimately show ?thesis by simp
qed

lemma evidence_fields:
  "ev_scalar_filter_count (build_evidence family q n) = scalar_filter_count q"
  "ev_property_filter_count (build_evidence family q n) = length (lq_property_filters q)"
  "ev_uses_property_table (build_evidence family q n) \<longleftrightarrow> lq_property_filters q \<noteq> []"
  "ev_effective_limit (build_evidence family q n) = n"
  "ev_has_lower_bound (build_evidence family q n) \<longleftrightarrow> \<not> is_zero_time (lq_from q)"
  "ev_has_upper_bound (build_evidence family q n) \<longleftrightarrow> \<not> is_zero_time (lq_to q)"
  "ev_sort_field (build_evidence family q n) = sort_column_of (lq_sort_field q)"
  "sort_direction_of (ev_sort_direction (build_evidence family q n)) = sort_direction_of (lq_sort_direction q)"
  by (simp_all add: build_evidence_def sort_column_of_def sort_direction_of_def query_constants)

lemma time_bound_calls:
  "(\<exists>args. ScWhere ''event_time >= ?'' args \<in> set (scalar_predicates q)) \<longleftrightarrow> \<not> is_zero_time (lq_from q)"
  "(\<exists>args. ScWhere ''event_time < ?'' args \<in> set (scalar_predicates q)) \<longleftrightarrow> \<not> is_zero_time (lq_to q)"
  by (simp_all add: scalar_predicates_def)

lemma evidence_hides_values:
  "build_evidence family (q\<lparr>lq_property_filters :=
      map (\<lambda>f. f\<lparr>pf_string := s, pf_number := x, pf_bool := y\<rparr>) (lq_property_filters q)\<rparr>) n = build_evidence family q n"
proof -
  have "property_filter_evidence_of (f\<lparr>pf_string := s, pf_number := x, pf_bool := y\<rparr>) = property_filter_evidence_of f" for f
    by (simp add: property_filter_evidence_of_def Let_def split: sum.split)
  then have "property_filter_evidences (map (\<lambda>f. f\<lparr>pf_string := s, pf_number := x, pf_bool := y\<rparr>) (lq_property_filters q))
      = property_filter_evidences (lq_property_filters q)"
    by (simp add: property_filter_evidences_def o_def)
  then show ?thesis by (simp add: build_evidence_def scalar_filter_count_def)
qed

lemma length_scalar_predicates: "length (scalar_predicates q) + length (lq_filters q) = 1 + scalar_filter_count q"
  by (simp add: scalar_predicates_def scalar_filter_count_def)

text \<open>
  The evidence of a plan tells the truth about its statement: it counts the predicates that were really
  added (beyond the routing scope), says that the property table is read exactly when a predicate reads it,
  names the order and the paging that were applied and the two time bounds, and never depends on a property
  value: replacing the values of the property filters leaves it unchanged.
\<close>

theorem evidence_truthful:
  assumes "table_prefix_pattern (qb_router b)"
    and "build_events_query sha (Some b) q = Inr plan" and "events_scope sha b q = Inr (sc, t)"
  shows "let ev = query_evidence plan; n = tbl_physical t @ property_table_suffix in
    length (filter is_where sc) = 1 + ev_scalar_filter_count ev + ev_property_filter_count ev \<and>
    length (filter (reads_property_table n) sc) = ev_property_filter_count ev \<and>
    (ev_uses_property_table ev \<longleftrightarrow> (\<exists>c \<in> set sc. reads_property_table n c)) \<and>
    ScOrder (ev_sort_field ev @ '' '' @ sort_direction_of (ev_sort_direction ev)) \<in> set sc \<and>
    ScLimit (ev_effective_limit ev) \<in> set sc \<and> qp_limit plan = ev_effective_limit ev \<and>
    (ev_has_lower_bound ev \<longleftrightarrow> (\<exists>args. ScWhere ''event_time >= ?'' args \<in> set (scalar_predicates q))) \<and>
    (ev_has_upper_bound ev \<longleftrightarrow> (\<exists>args. ScWhere ''event_time < ?'' args \<in> set (scalar_predicates q))) \<and>
    (\<forall>s x y. build_evidence ''events'' (q\<lparr>lq_property_filters :=
        map (\<lambda>f. f\<lparr>pf_string := s, pf_number := x, pf_bool := y\<rparr>) (lq_property_filters q)\<rparr>) (ev_effective_limit ev) = ev)"
proof -
  from assms(2) have ok: "events_query_ok b q"
    and ev: "query_evidence plan = build_evidence ''events'' q (normalize_limit b (lq_limit q) default_events_limit)"
      "qp_limit plan = normalize_limit b (lq_limit q) default_events_limit"
    unfolding events_plan_exact [OF assms(1)] by auto
  from assms(3) have sc: "sc = base_scope (tbl_physical t) @ predicate_calls t q @ order_calls q @ paging_calls b q"
    unfolding events_scope_Inr [OF assms(1)] by simp
  let ?n = "tbl_physical t @ property_table_suffix"
  have filters: "\<forall>f \<in> set (lq_filters q). event_filter_ok f" using ok by (simp add: events_query_ok_def filtered_query_ok_def)
  note wh = where_calls [OF filters, of "tbl_physical t" t b, folded sc]
  note rd = property_calls [OF filters, of t "tbl_physical t" b, folded sc]
  let ?lim = "normalize_limit b (lq_limit q) default_events_limit"
  have "length (predicate_calls t q) = 1 + scalar_filter_count q + length (lq_property_filters q)"
    using length_scalar_predicates [of q] by (simp add: predicate_calls_def)
  with wh rd have counts: "length (filter is_where sc) = 1 + scalar_filter_count q + length (lq_property_filters q)"
    "length (filter (reads_property_table ?n) sc) = length (lq_property_filters q)" by simp_all
  have uses: "(\<exists>c \<in> set sc. reads_property_table ?n c) \<longleftrightarrow> lq_property_filters q \<noteq> []"
    using rd filter_empty_conv [of "reads_property_table ?n" sc] by (metis map_is_Nil_conv)
  have order: "ScOrder (sort_column_of (lq_sort_field q) @ '' '' @ sort_direction_of (lq_sort_direction q)) \<in> set sc"
    "ScLimit ?lim \<in> set sc"
    by (simp_all add: sc order_calls_def paging_calls_def Let_def)
  note fields = evidence_fields [of "''events''" q ?lim, folded ev(1)]
  show ?thesis
    unfolding Let_def fields ev(2) uses counts
    using order evidence_hides_values [where family = "''events''" and q = q and n = ?lim] ev(1) by (simp add: time_bound_calls)
qed

theorem evidence_truthful_witness:
  "let ev = query_evidence (projr (build_events_query (\<lambda>_. 0) (Some sample_builder) sample_query)) in
   length (filter is_where (sample_scope sample_query)) = 1 + ev_scalar_filter_count ev + ev_property_filter_count ev"
proof -
  have "build_events_query (\<lambda>_. 0) (Some sample_builder) sample_query =
      Inr (projr (build_events_query (\<lambda>_. 0) (Some sample_builder) sample_query))" by code_simp
  from evidence_truthful [OF sample_router this sample_events_scope] show ?thesis by (simp add: Let_def)
qed

end
