(* ===== verification/Query_Semantics.thy ===== *)
theory Query_Semantics
  imports Query_Plans
begin

text \<open>
  What the predicates of a plan select. The meaning of a \<open>WHERE\<close> text with its bound arguments belongs to
  ClickHouse; the locale \<open>sql_where\<close> states the part of it that the builder uses: conjunctions of
  comparisons between a column and a placeholder, and tuple membership in a subquery over another table.
  It asks for arguments that survive the binding unchanged (times on whole seconds, finite numbers).
  Under it, the predicates of an accepted query select exactly the rows the query asks for.

  \<open>sql_eval\<close> evaluates such texts, word by word, and interprets the locale.
\<close>

section \<open>Rows and comparisons\<close>

type_synonym row = "string \<Rightarrow> sql_value option"
type_synonym snapshot = "string \<Rightarrow> row list"

fun canonical :: "sql_value \<Rightarrow> sql_value" where
  "canonical (SvTime t) = SvTime (utc t)"
| "canonical (SvFloat x) = SvFloat (if x = NegZero then Finite 0 else x)"
| "canonical v = v"

fun bindable :: "sql_value \<Rightarrow> bool" where
  "bindable (SvTime t) \<longleftrightarrow> tm_ns t mod second = 0"
| "bindable (SvFloat x) \<longleftrightarrow> \<not> is_nan x \<and> \<not> is_inf x"
| "bindable _ \<longleftrightarrow> True"

definition sql_compare :: "string \<Rightarrow> sql_value \<Rightarrow> sql_value \<Rightarrow> bool" where
  "sql_compare op a v \<longleftrightarrow>
     (if op = ''='' then canonical a = canonical v
      else if op = ''!='' then canonical a \<noteq> canonical v
      else
        (case (a, v) of
           (SvTime x, SvTime y) \<Rightarrow> if op = ''>='' then tm_ns y \<le> tm_ns x else op = ''<'' \<and> tm_ns x < tm_ns y
         | _ \<Rightarrow> False))"

definition comparison_holds :: "string \<times> string \<Rightarrow> sql_value \<Rightarrow> row \<Rightarrow> bool" where
  "comparison_holds cop v r \<longleftrightarrow> (case r (fst cop) of None \<Rightarrow> False | Some a \<Rightarrow> sql_compare (snd cop) a v)"

definition comparison_text :: "string \<times> string \<Rightarrow> string" where
  "comparison_text cop = fst cop @ '' '' @ snd cop @ '' ?''"

definition conjunction_text :: "(string \<times> string) list \<Rightarrow> string" where
  "conjunction_text cs = join_with '' AND '' (map comparison_text cs)"

definition sql_identifier :: "string \<Rightarrow> bool" where
  "sql_identifier s \<longleftrightarrow> s \<noteq> [] \<and> (\<forall>c \<in> set s. prefix_char c)"

definition comparisons_ok :: "(string \<times> string) list \<Rightarrow> sql_value list \<Rightarrow> bool" where
  "comparisons_ok cs vs \<longleftrightarrow>
     cs \<noteq> [] \<and> length vs = length cs \<and> (\<forall>v \<in> set vs. bindable v) \<and>
     (\<forall>(c, op) \<in> set cs. sql_identifier c \<and> op \<in> {''='', ''!='', ''>='', ''<''})"

abbreviation all_hold :: "(string \<times> string) list \<Rightarrow> sql_value list \<Rightarrow> row \<Rightarrow> bool" where
  "all_hold cs vs r \<equiv> list_all2 (\<lambda>cop v. comparison_holds cop v r) cs vs"

definition same_event :: "row \<Rightarrow> row \<Rightarrow> bool" where
  "same_event r r' \<longleftrightarrow> (\<forall>c \<in> {''tenant_id'', ''project_id'', ''source_id'', ''event_id''}. r c = r' c)"

definition tuple_in_head :: string where
  "tuple_in_head =
     ''(tenant_id, project_id, source_id, event_id) IN (SELECT tenant_id, project_id, source_id, event_id FROM '' @ [backtick]"

locale sql_where =
  fixes holds :: "snapshot \<Rightarrow> string \<Rightarrow> sql_value list \<Rightarrow> row \<Rightarrow> bool"
  assumes conjunction: "comparisons_ok cs vs \<Longrightarrow> holds db (conjunction_text cs) vs r \<longleftrightarrow> all_hold cs vs r"
    and tuple_in: "comparisons_ok cs vs \<Longrightarrow> sql_identifier n \<Longrightarrow>
      holds db (tuple_in_head @ n @ [backtick] @ '' WHERE '' @ conjunction_text cs @ '')'') vs r \<longleftrightarrow>
      (\<exists>r' \<in> set (db n). all_hold cs vs r' \<and> same_event r' r)"

section \<open>What a query asks for\<close>

definition in_scope :: "event_list_query \<Rightarrow> row \<Rightarrow> bool" where
  "in_scope q r \<longleftrightarrow>
     r ''tenant_id'' = Some (SvString (lq_tenant_id q)) \<and> r ''project_id'' = Some (SvString (lq_project_id q)) \<and>
     r ''source_id'' = Some (SvString (lq_source_id q))"

definition in_window :: "event_list_query \<Rightarrow> row \<Rightarrow> bool" where
  "in_window q r \<longleftrightarrow>
     (\<not> is_zero_time (lq_from q) \<longrightarrow> (\<exists>t. r ''event_time'' = Some (SvTime t) \<and> tm_ns (lq_from q) \<le> tm_ns t)) \<and>
     (\<not> is_zero_time (lq_to q) \<longrightarrow> (\<exists>t. r ''event_time'' = Some (SvTime t) \<and> tm_ns t < tm_ns (lq_to q)))"

definition names_match :: "event_list_query \<Rightarrow> row \<Rightarrow> bool" where
  "names_match q r \<longleftrightarrow>
     (lq_event_name q \<noteq> [] \<longrightarrow> r ''event_name'' = Some (SvString (lq_event_name q))) \<and>
     (lq_distinct_id q \<noteq> [] \<longrightarrow> r ''distinct_id'' = Some (SvString (lq_distinct_id q)))"

definition cell_matches :: "string \<Rightarrow> string \<Rightarrow> sql_value \<Rightarrow> row \<Rightarrow> bool" where
  "cell_matches column operator v r \<longleftrightarrow>
     (\<exists>a. r column = Some a \<and> (canonical a = canonical v \<longleftrightarrow> operator = event_filter_equals))"

definition property_matches :: "snapshot \<Rightarrow> string \<Rightarrow> event_list_query \<Rightarrow> event_property_filter \<Rightarrow> row \<Rightarrow> bool" where
  "property_matches db n q f r \<longleftrightarrow>
     (\<exists>r' \<in> set (db n). in_scope q r' \<and> same_event r' r \<and>
        r' ''property_scope'' = Some (SvString (pf_scope f)) \<and>
        r' ''property_name'' = Some (SvString (trim_space (pf_name f))) \<and>
        r' ''property_type'' = Some (SvString (pf_value_type f)) \<and>
        (pf_value_type f \<noteq> property_value_null \<longrightarrow>
           cell_matches (value_column_of (pf_value_type f)) (pf_operator f) (filter_argument f) r'))"

definition wanted :: "snapshot \<Rightarrow> string \<Rightarrow> event_list_query \<Rightarrow> row \<Rightarrow> bool" where
  "wanted db n q r \<longleftrightarrow>
     in_scope q r \<and> in_window q r \<and> names_match q r \<and>
     (\<forall>f \<in> set (lq_filters q). cell_matches (ef_field f) (ef_operator f) (SvString (ef_value f)) r) \<and>
     (\<forall>f \<in> set (lq_property_filters q). property_matches db n q f r)"

definition bindable_query :: "event_list_query \<Rightarrow> bool" where
  "bindable_query q \<longleftrightarrow>
     tm_ns (lq_from q) mod second = 0 \<and> tm_ns (lq_to q) mod second = 0 \<and>
     (\<forall>f \<in> set (lq_property_filters q). bindable (SvFloat (pf_number f)))"

text \<open>A row passes a call when the call is no predicate or its predicate holds.\<close>

definition passes :: "(snapshot \<Rightarrow> string \<Rightarrow> sql_value list \<Rightarrow> row \<Rightarrow> bool) \<Rightarrow> snapshot \<Rightarrow> row \<Rightarrow> scope_call \<Rightarrow> bool" where
  "passes holds db r c \<longleftrightarrow> (case c of ScWhere p args \<Rightarrow> holds db p args r | _ \<Rightarrow> True)"

section \<open>The predicates select what the query asks for\<close>

lemma canonical_string [simp]: "canonical a = SvString s \<longleftrightarrow> a = SvString s"
  by (cases a) auto

lemma compare_equal [simp]: "sql_compare ''='' a v \<longleftrightarrow> canonical a = canonical v"
  by (simp add: sql_compare_def)

lemma compare_operator: "operator \<in> filter_operators \<Longrightarrow>
    sql_compare (sql_operator_of operator) a v \<longleftrightarrow> (canonical a = canonical v \<longleftrightarrow> operator = event_filter_equals)"
  by (auto simp: sql_compare_def sql_operator_of_def filter_operators_def query_constants)

lemma compare_from [simp]: "sql_compare ''>='' a (SvTime t) \<longleftrightarrow> (\<exists>x. a = SvTime x \<and> tm_ns t \<le> tm_ns x)"
  by (cases a) (auto simp: sql_compare_def)

lemma compare_to [simp]: "sql_compare ''<'' a (SvTime t) \<longleftrightarrow> (\<exists>x. a = SvTime x \<and> tm_ns x < tm_ns t)"
  by (cases a) (auto simp: sql_compare_def)

lemma equals_string [simp]: "comparison_holds (c, ''='') (SvString s) r \<longleftrightarrow> r c = Some (SvString s)"
  by (auto simp: comparison_holds_def split: option.splits)

lemma sql_identifiers [simp]:
  "sql_identifier ''tenant_id''" "sql_identifier ''project_id''" "sql_identifier ''source_id''" "sql_identifier ''event_time''"
  "sql_identifier ''event_name''" "sql_identifier ''distinct_id''" "sql_identifier ''property_scope''" "sql_identifier ''property_name''"
  "sql_identifier ''property_type''"
  by (simp_all add: sql_identifier_def prefix_char_def is_lower_def)

lemma filter_field_sql_identifier: "f \<in> filter_fields \<Longrightarrow> sql_identifier f"
  by (auto simp: filter_fields_def sql_identifier_def prefix_char_def is_lower_def)

lemma value_column_sql_identifier: "sql_identifier (value_column_of t)"
  by (simp add: value_column_of_def sql_identifier_def prefix_char_def is_lower_def)

lemma sql_operator_cases: "sql_operator_of operator \<in> {''='', ''!=''}"
  by (simp add: sql_operator_of_def)

context sql_where
begin

lemma single:
  assumes "sql_identifier c" and "op \<in> {''='', ''!='', ''>='', ''<''}" and "bindable v"
  shows "holds db (c @ '' '' @ op @ '' ?'') [v] r \<longleftrightarrow> comparison_holds (c, op) v r"
  using conjunction [of "[(c, op)]" "[v]" db r] assms
  by (simp add: comparisons_ok_def conjunction_text_def comparison_text_def)

lemma scope_holds:
  "holds db ''tenant_id = ? AND project_id = ? AND source_id = ?''
     [SvString (lq_tenant_id q), SvString (lq_project_id q), SvString (lq_source_id q)] r \<longleftrightarrow> in_scope q r"
  using conjunction [of "[(''tenant_id'', ''=''), (''project_id'', ''=''), (''source_id'', ''='')]"
      "[SvString (lq_tenant_id q), SvString (lq_project_id q), SvString (lq_source_id q)]" db r]
  by (simp add: comparisons_ok_def conjunction_text_def comparison_text_def in_scope_def)

lemma event_filter_holds:
  assumes "event_filter_ok f"
  shows "passes holds db r (event_filter_call f) \<longleftrightarrow> cell_matches (ef_field f) (ef_operator f) (SvString (ef_value f)) r"
proof -
  have "passes holds db r (event_filter_call f) \<longleftrightarrow>
      comparison_holds (ef_field f, sql_operator_of (ef_operator f)) (SvString (ef_value f)) r"
    unfolding event_filter_call_def passes_def scope_call.case
    using assms sql_operator_cases [of "ef_operator f"]
    by (intro single) (auto simp: event_filter_ok_def filter_field_sql_identifier)
  also have "\<dots> \<longleftrightarrow> cell_matches (ef_field f) (ef_operator f) (SvString (ef_value f)) r"
    using assms by (auto simp: comparison_holds_def cell_matches_def event_filter_ok_def compare_operator
        simp del: canonical.simps split: option.splits)
  finally show ?thesis .
qed

lemma property_filter_holds:
  assumes ok: "property_filter_ok b q f" and n: "sql_identifier n" and x: "bindable (SvFloat (pf_number f))"
  shows "passes holds db r (property_filter_call n q f) \<longleftrightarrow> property_matches db n q f r"
proof -
  let ?cs = "[(''tenant_id'', ''=''), (''project_id'', ''=''), (''source_id'', ''=''), (''property_scope'', ''=''),
      (''property_name'', ''=''), (''property_type'', ''='')]"
  let ?vs = "[SvString (lq_tenant_id q), SvString (lq_project_id q), SvString (lq_source_id q),
      SvString (pf_scope f), SvString (trim_space (pf_name f)), SvString (pf_value_type f)]"
  let ?more = "(value_column_of (pf_value_type f), sql_operator_of (pf_operator f))"
  let ?sub = "\<lambda>cs. tuple_in_head @ n @ [backtick] @ '' WHERE '' @ conjunction_text cs @ '')''"
  have base: "base_property_predicate n = tuple_in_head @ n @ [backtick] @ '' WHERE '' @ conjunction_text ?cs"
    by (simp add: base_property_predicate_def tuple_in_head_def conjunction_text_def comparison_text_def)
  show ?thesis
  proof (cases "pf_value_type f = property_value_null")
    case True
    then have "passes holds db r (property_filter_call n q f) \<longleftrightarrow> holds db (?sub ?cs) ?vs r"
      by (simp add: property_filter_call_def base passes_def)
    also have "\<dots> \<longleftrightarrow> (\<exists>r' \<in> set (db n). all_hold ?cs ?vs r' \<and> same_event r' r)"
      by (rule tuple_in [OF _ n]) (simp add: comparisons_ok_def)
    finally show ?thesis
      using True by (auto simp: property_matches_def in_scope_def)
  next
    case False
    have "conjunction_text (?cs @ [?more]) = conjunction_text ?cs @ '' AND '' @ comparison_text ?more"
      by (simp add: conjunction_text_def)
    with False have "passes holds db r (property_filter_call n q f) \<longleftrightarrow>
        holds db (?sub (?cs @ [?more])) (?vs @ [filter_argument f]) r"
      by (simp add: property_filter_call_def base passes_def comparison_text_def)
    also have "\<dots> \<longleftrightarrow> (\<exists>r' \<in> set (db n). all_hold (?cs @ [?more]) (?vs @ [filter_argument f]) r' \<and> same_event r' r)"
      using x value_column_sql_identifier sql_operator_cases
      by (intro tuple_in [OF _ n]) (auto simp: comparisons_ok_def filter_argument_def)
    also have "\<dots> \<longleftrightarrow> property_matches db n q f r"
    proof -
      have "comparison_holds ?more (filter_argument f) r' \<longleftrightarrow>
          cell_matches (value_column_of (pf_value_type f)) (pf_operator f) (filter_argument f) r'" for r'
        using ok by (simp add: comparison_holds_def cell_matches_def property_filter_ok_def compare_operator split: option.splits)
      with False show ?thesis
        unfolding property_matches_def in_scope_def by (simp add: conj_ac)
    qed
    finally show ?thesis .
  qed
qed

lemma scalar_predicates_hold:
  assumes "bindable_query q"
  shows "list_all (passes holds db r) (scalar_predicates q) \<longleftrightarrow>
    in_scope q r \<and> in_window q r \<and> names_match q r"
proof -
  have "holds db ''event_time >= ?'' [SvTime (utc (lq_from q))] r \<longleftrightarrow>
      (\<exists>t. r ''event_time'' = Some (SvTime t) \<and> tm_ns (lq_from q) \<le> tm_ns t)"
    using single [of "''event_time''" "''>=''" "SvTime (utc (lq_from q))" db r] assms
    by (auto simp: bindable_query_def comparison_holds_def split: option.splits)
  moreover have "holds db ''event_time < ?'' [SvTime (utc (lq_to q))] r \<longleftrightarrow>
      (\<exists>t. r ''event_time'' = Some (SvTime t) \<and> tm_ns t < tm_ns (lq_to q))"
    using single [of "''event_time''" "''<''" "SvTime (utc (lq_to q))" db r] assms
    by (auto simp: bindable_query_def comparison_holds_def split: option.splits)
  moreover have "holds db ''event_name = ?'' [SvString (lq_event_name q)] r \<longleftrightarrow>
      r ''event_name'' = Some (SvString (lq_event_name q))"
    using single [of "''event_name''" "''=''" "SvString (lq_event_name q)" db r] by simp
  moreover have "holds db ''distinct_id = ?'' [SvString (lq_distinct_id q)] r \<longleftrightarrow>
      r ''distinct_id'' = Some (SvString (lq_distinct_id q))"
    using single [of "''distinct_id''" "''=''" "SvString (lq_distinct_id q)" db r] by simp
  ultimately show ?thesis
    using scope_holds [of db q r]
    by (simp add: scalar_predicates_def in_window_def names_match_def passes_def)
qed

lemma predicates_select:
  assumes ok: "filtered_query_ok b q" and n: "sql_identifier n" and bq: "bindable_query q"
  shows "list_all (passes holds db r)
      (scalar_predicates q @ map event_filter_call (lq_filters q) @ map (property_filter_call n q) (lq_property_filters q))
    \<longleftrightarrow> wanted db n q r"
proof -
  have ev: "passes holds db r (event_filter_call f) \<longleftrightarrow> cell_matches (ef_field f) (ef_operator f) (SvString (ef_value f)) r"
    if "f \<in> set (lq_filters q)" for f
    using that ok by (simp add: filtered_query_ok_def event_filter_holds)
  have pr: "passes holds db r (property_filter_call n q f) \<longleftrightarrow> property_matches db n q f r"
    if "f \<in> set (lq_property_filters q)" for f
    using that ok bq n by (intro property_filter_holds) (auto simp: filtered_query_ok_def bindable_query_def)
  show ?thesis
    unfolding wanted_def using ev pr scalar_predicates_hold [OF bq, of db r]
    by (simp add: list_all_iff ball_Un)
qed

end

section \<open>An evaluator for these texts\<close>

fun split_on :: "char \<Rightarrow> string \<Rightarrow> string list" where
  "split_on c [] = [[]]"
| "split_on c (x # xs) =
     (if x = c then [] # split_on c xs
      else (case split_on c xs of [] \<Rightarrow> [[x]] | y # ys \<Rightarrow> (x # y) # ys))"

lemma split_on_none: "c \<notin> set xs \<Longrightarrow> split_on c xs = [xs]"
  by (induction xs) auto

lemma split_on_append: "c \<notin> set xs \<Longrightarrow> split_on c (xs @ c # ys) = xs # split_on c ys"
  by (induction xs) auto

fun run_words :: "string list \<Rightarrow> sql_value list \<Rightarrow> row \<Rightarrow> bool" where
  "run_words (c # op # p # rest) (v # vs) r \<longleftrightarrow>
     p = ''?'' \<and> comparison_holds (c, op) v r \<and>
     (case rest of [] \<Rightarrow> vs = [] | a # rest' \<Rightarrow> a = ''AND'' \<and> run_words rest' vs r)"
| "run_words _ _ r \<longleftrightarrow> False"

definition sql_eval :: "snapshot \<Rightarrow> string \<Rightarrow> sql_value list \<Rightarrow> row \<Rightarrow> bool" where
  "sql_eval db p vs r \<longleftrightarrow>
     (if prefix tuple_in_head p
      then
        (let rest = drop (length tuple_in_head) p;
             n = takeWhile (\<lambda>c. c \<noteq> backtick) rest;
             body = butlast (drop (length n + 8) rest)
         in list_ex (\<lambda>r'. run_words (split_on CHR '' '' body) vs r' \<and> same_event r' r) (db n))
      else run_words (split_on CHR '' '' p) vs r)"

lemma identifier_no_space: "sql_identifier s \<Longrightarrow> CHR '' '' \<notin> set s"
  by (auto simp: sql_identifier_def prefix_char_def is_lower_def is_digit_def)

lemma identifier_no_backtick: "sql_identifier s \<Longrightarrow> c \<in> set s \<Longrightarrow> c \<noteq> backtick"
  by (auto simp: sql_identifier_def prefix_char_def is_lower_def is_digit_def backtick_def)

lemma run_conjunction:
  "comparisons_ok cs vs \<Longrightarrow> run_words (split_on CHR '' '' (conjunction_text cs)) vs r \<longleftrightarrow> all_hold cs vs r"
proof (induction cs arbitrary: vs)
  case (Cons cop cs)
  obtain c op where cop: "cop = (c, op)" by fastforce
  from Cons.prems cop obtain v vs' where vs: "vs = v # vs'" by (cases vs) (auto simp: comparisons_ok_def)
  from Cons.prems cop have c: "CHR '' '' \<notin> set c" and op: "CHR '' '' \<notin> set op"
    by (auto simp: comparisons_ok_def identifier_no_space)
  show ?case
  proof (cases cs)
    case Nil
    with Cons.prems vs cop show ?thesis
      by (simp add: conjunction_text_def comparison_text_def split_on_append [OF c] split_on_append [OF op] comparisons_ok_def)
  next
    case (Cons d ds)
    then have rest: "conjunction_text (cop # cs) = c @ CHR '' '' # op @ CHR '' '' # ''?'' @ CHR '' '' # ''AND'' @ CHR '' '' # conjunction_text cs"
      by (simp add: conjunction_text_def comparison_text_def cop)
    have words: "split_on CHR '' '' (conjunction_text (cop # cs)) = c # op # ''?'' # ''AND'' # split_on CHR '' '' (conjunction_text cs)"
      unfolding rest split_on_append [OF c] split_on_append [OF op] by simp
    have "comparisons_ok cs vs'" using Cons.prems Cons vs by (auto simp: comparisons_ok_def)
    from Cons.IH [OF this] show ?thesis by (simp add: words [unfolded cop] vs cop)
  qed
qed (simp add: comparisons_ok_def)

lemma conjunction_not_tuple: "comparisons_ok cs vs \<Longrightarrow> \<not> prefix tuple_in_head (conjunction_text cs)"
proof -
  assume ok: "comparisons_ok cs vs"
  then obtain c op ds where cs: "cs = (c, op) # ds" by (cases cs) (auto simp: comparisons_ok_def)
  with ok obtain x c' where c: "c = x # c'" "prefix_char x" by (cases c) (auto simp: comparisons_ok_def sql_identifier_def)
  then have "x \<noteq> CHR ''(''" by (auto simp: prefix_char_def is_lower_def is_digit_def)
  then show ?thesis
    by (cases ds) (auto simp: cs c conjunction_text_def comparison_text_def tuple_in_head_def)
qed

interpretation evaluator: sql_where sql_eval
proof
  fix cs vs db r
  assume "comparisons_ok cs vs"
  then show "sql_eval db (conjunction_text cs) vs r \<longleftrightarrow> all_hold cs vs r"
    by (simp add: sql_eval_def conjunction_not_tuple run_conjunction)
next
  fix cs vs n db r
  assume ok: "comparisons_ok cs vs" and n: "sql_identifier n"
  have "takeWhile (\<lambda>c. c \<noteq> backtick) (n @ [backtick] @ xs) = n" for xs
    using identifier_no_backtick [OF n] by (simp add: takeWhile_append2)
  then show "sql_eval db (tuple_in_head @ n @ [backtick] @ '' WHERE '' @ conjunction_text cs @ '')'') vs r \<longleftrightarrow>
      (\<exists>r' \<in> set (db n). all_hold cs vs r' \<and> same_event r' r)"
    by (simp add: sql_eval_def Let_def run_conjunction [OF ok] list_ex_iff butlast_append)
qed
section \<open>Property\<close>

lemma property_table_identifier:
  assumes "table_prefix_pattern (qb_router b)"
  shows "sql_identifier (tbl_physical (source_table sha b q) @ property_table_suffix)"
  using pattern_append [OF source_table_pattern [OF assms] suffix_chars, of sha q]
  by (auto simp: sql_identifier_def table_prefix_pattern_iff)

lemma scope_selects:
  assumes "sql_where holds" and "table_prefix_pattern (qb_router b)"
    and "events_scope sha b q = Inr (sc, t)" and "bindable_query q"
  shows "list_all (passes holds db r) sc \<longleftrightarrow> wanted db (tbl_physical t @ property_table_suffix) q r"
proof -
  note e = assms(3) [unfolded events_scope_Inr [OF assms(2)]]
  have "list_all (passes holds db r) (base_scope (tbl_physical t))" "list_all (passes holds db r) (order_calls q)"
    "list_all (passes holds db r) (paging_calls b q)"
    by (simp_all add: base_scope_def order_calls_def paging_calls_def passes_def Let_def)
  with e have "list_all (passes holds db r) sc \<longleftrightarrow> list_all (passes holds db r) (predicate_calls t q)" by simp
  also have "\<dots> \<longleftrightarrow> wanted db (tbl_physical t @ property_table_suffix) q r"
    unfolding predicate_calls_def
    using e property_table_identifier [OF assms(2), of sha q]
    by (intro sql_where.predicates_select [OF assms(1) _ _ assms(4)]) (auto simp: events_query_ok_def)
  finally show ?thesis .
qed

text \<open>
  C12. A plan selects exactly the events the query asks for: under any SQL semantics that reads conjunctions
  of comparisons and tuple membership in the documented way, and for arguments that binding leaves
  unchanged, a row passes all predicates of an accepted query when and only when it is in the caller's
  tenant, project and source, in the half-open time window, matches every scalar filter, and for every
  property filter the paired property table has a row of the same event with that scope, name, type and
  value. No predicate is missing and none is added.
\<close>

theorem query_selects_exactly:
  assumes "sql_where holds" and "table_prefix_pattern (qb_router b)"
    and "events_scope sha b q = Inr (sc, t)" and "bindable_query q"
  shows "list_all (passes holds db r) sc \<longleftrightarrow> wanted db (tbl_physical t @ property_table_suffix) q r"
  using assms by (rule scope_selects)

definition sample_event_row :: row where
  "sample_event_row =
     map_of [(''event_id'', SvString ''e1''), (''tenant_id'', SvString ''t''), (''project_id'', SvString ''p''),
       (''source_id'', SvString ''s''), (''event_name'', SvString ''page_view''), (''visit_id'', SvString ''v1''),
       (''event_time'', SvTime (lq_from sample_query))]"

definition sample_property_row :: row where
  "sample_property_row =
     map_of [(''event_id'', SvString ''e1''), (''tenant_id'', SvString ''t''), (''project_id'', SvString ''p''),
       (''source_id'', SvString ''s''), (''property_scope'', SvString ''event''), (''property_name'', SvString ''plan''),
       (''property_type'', SvString ''string''), (''string_value'', SvString ''pro'')]"

theorem query_selects_exactly_witness:
  "list_all (passes sql_eval (\<lambda>n. [sample_property_row]) sample_event_row) (sample_scope sample_query) \<and>
   \<not> list_all (passes sql_eval (\<lambda>n. []) sample_event_row) (sample_scope sample_query)"
proof -
  have bq: "bindable_query sample_query" by code_simp
  note sel = query_selects_exactly [OF evaluator.sql_where_axioms sample_router sample_events_scope bq, of _ sample_event_row]
  have trim: "trim_space '' plan '' = ''plan''" by code_simp
  have "wanted (\<lambda>n. [sample_property_row]) n sample_query sample_event_row" for n
    by (simp add: wanted_def in_scope_def in_window_def names_match_def property_matches_def cell_matches_def same_event_def
        sample_query_def sample_property_row_def sample_event_row_def is_zero_time_def second_def hour_def minute_def
        property_constants value_column_of_def filter_argument_def query_constants trim)
  moreover have "\<not> wanted (\<lambda>n. []) n sample_query sample_event_row" for n
    by (simp add: wanted_def property_matches_def sample_query_def)
  ultimately show ?thesis by (simp add: sel)
qed

end
