(* ===== verification/Event_Reader.thy ===== *)
theory Event_Reader
  imports Query_Semantics
begin

text \<open>
  Package \<open>storage/clickhouse\<close>, file \<open>event_reader.go\<close>: running plans and turning rows into records.

  GORM's \<open>Raw(...).Scan\<close> is the record \<open>query_conn\<close>, one function per row model, on a world; the rows
  they return or the error they report are anything. \<open>errors.As\<close> for the exception type of the ClickHouse
  driver is the argument \<open>as_exception\<close> (its code and message), the Unicode path of \<open>strings.ToLower\<close> is
  \<open>uni\<close>.

  \<open>serves\<close> states what a working pair of GORM and ClickHouse does with a scope of the builder: it returns a
  page of the rows of the table that pass the predicates, or their number. With it, the reader's answers are
  the events the query asks for.
\<close>

section \<open>Rows\<close>

record event_row_model =
  em_event_id :: string
  em_tenant_id :: string
  em_project_id :: string
  em_source_id :: string
  em_source_type :: string
  em_event_name :: string
  em_distinct_id :: string
  em_session_id :: string
  em_visit_id :: string
  em_event_time :: gotime
  em_received_at :: gotime
  em_properties :: string
  em_user_properties :: string
  em_source :: string

definition to_record :: "event_row_model \<Rightarrow> event_record" where
  "to_record r =
     \<lparr>rc_id = em_event_id r, rc_tenant_id = em_tenant_id r, rc_project_id = em_project_id r,
      rc_source_id = em_source_id r, rc_source_type = em_source_type r, rc_event_name = em_event_name r,
      rc_distinct_id = em_distinct_id r, rc_session_id = em_session_id r, rc_visit_id = em_visit_id r,
      rc_event_time = em_event_time r, rc_received_at = em_received_at r, rc_properties = em_properties r,
      rc_user_properties = em_user_properties r, rc_source = em_source r\<rparr>"

section \<open>The reader\<close>

record 'w query_conn =
  qc_events :: "string \<Rightarrow> sql_value list \<Rightarrow> 'w \<Rightarrow> (go_error + event_row_model list) \<times> 'w"
  qc_counts :: "string \<Rightarrow> sql_value list \<Rightarrow> 'w \<Rightarrow> (go_error + int list) \<times> 'w"

record 'w event_reader =
  rd_db :: "'w query_conn"
  rd_builder :: event_query_builder

definition new_event_reader :: "'w query_conn option \<Rightarrow> event_query_builder option \<Rightarrow> go_error + 'w event_reader" where
  "new_event_reader db builder =
     (case db of
        None \<Rightarrow> Inl (ErrText ''gorm db is required'')
      | Some conn \<Rightarrow>
          (case builder of
             None \<Rightarrow> Inl (ErrText ''event query builder is required'')
           | Some b \<Rightarrow> Inr \<lparr>rd_db = conn, rd_builder = b\<rparr>))"

definition is_missing_table ::
  "(string \<Rightarrow> string) \<Rightarrow> (go_error \<Rightarrow> (int \<times> string) option) \<Rightarrow> go_error \<Rightarrow> bool" where
  "is_missing_table uni as_exception err =
     (case as_exception err of
        None \<Rightarrow> False
      | Some (code, msg) \<Rightarrow>
          if code \<noteq> 60 then False
          else
            (let message = to_lower uni msg
             in str_contains message ''unknown table'' \<or> str_contains message (''doesn'' @ [CHR 0x27] @ ''t exist'')))"

definition execute_plan ::
  "(string \<Rightarrow> string) \<Rightarrow> (go_error \<Rightarrow> (int \<times> string) option) \<Rightarrow> 'w event_reader \<Rightarrow> event_query_plan \<Rightarrow> 'w \<Rightarrow>
   (go_error + event_record list) \<times> 'w" where
  "execute_plan uni ex rd plan w =
     (case qc_events (rd_db rd) (qp_sql plan) (qp_args plan) w of
        (Inl err, w1) \<Rightarrow> if is_missing_table uni ex err then (Inr [], w1) else (Inl err, w1)
      | (Inr rows, w1) \<Rightarrow> (Inr (map to_record rows), w1))"

definition execute_count_plan ::
  "(string \<Rightarrow> string) \<Rightarrow> (go_error \<Rightarrow> (int \<times> string) option) \<Rightarrow> 'w event_reader \<Rightarrow> event_query_plan \<Rightarrow> 'w \<Rightarrow>
   (go_error + int) \<times> 'w" where
  "execute_count_plan uni ex rd plan w =
     (case qc_counts (rd_db rd) (qp_sql plan) (qp_args plan) w of
        (Inl err, w1) \<Rightarrow> if is_missing_table uni ex err then (Inr 0, w1) else (Inl err, w1)
      | (Inr rows, w1) \<Rightarrow> (case rows of [] \<Rightarrow> (Inr 0, w1) | n # _ \<Rightarrow> (Inr n, w1)))"

text \<open>Both list views run their plan in the same way.\<close>

definition list_plan ::
  "(string \<Rightarrow> string) \<Rightarrow> (go_error \<Rightarrow> (int \<times> string) option) \<Rightarrow> 'w event_reader \<Rightarrow> (go_error + event_query_plan) \<Rightarrow> 'w \<Rightarrow>
   (go_error + event_query_result) \<times> 'w" where
  "list_plan uni ex rd built w =
     (case built of
        Inl err \<Rightarrow> (Inl err, w)
      | Inr plan \<Rightarrow>
          (case execute_plan uni ex rd plan w of
             (Inl err, w1) \<Rightarrow> (Inl err, w1)
           | (Inr records, w1) \<Rightarrow> (Inr \<lparr>qr_records = records, qr_evidence = query_evidence plan\<rparr>, w1)))"

definition list_events_with_evidence ::
  "(string \<Rightarrow> 256 word) \<Rightarrow> (string \<Rightarrow> string) \<Rightarrow> (go_error \<Rightarrow> (int \<times> string) option) \<Rightarrow> 'w event_reader option \<Rightarrow>
   event_list_query \<Rightarrow> 'w \<Rightarrow> (go_error + event_query_result) \<times> 'w" where
  "list_events_with_evidence sha uni ex rdo q w =
     (case rdo of
        None \<Rightarrow> (Inl (ErrText ''event reader is required''), w)
      | Some rd \<Rightarrow> list_plan uni ex rd (build_events_query sha (Some (rd_builder rd)) q) w)"

definition list_realtime_with_evidence ::
  "(string \<Rightarrow> 256 word) \<Rightarrow> (string \<Rightarrow> string) \<Rightarrow> (go_error \<Rightarrow> (int \<times> string) option) \<Rightarrow> 'w event_reader option \<Rightarrow>
   realtime_query \<Rightarrow> 'w \<Rightarrow> (go_error + event_query_result) \<times> 'w" where
  "list_realtime_with_evidence sha uni ex rdo q w =
     (case rdo of
        None \<Rightarrow> (Inl (ErrText ''event reader is required''), w)
      | Some rd \<Rightarrow> list_plan uni ex rd (build_realtime_query sha (Some (rd_builder rd)) q) w)"

definition count_events_with_evidence ::
  "(string \<Rightarrow> 256 word) \<Rightarrow> (string \<Rightarrow> string) \<Rightarrow> (go_error \<Rightarrow> (int \<times> string) option) \<Rightarrow> 'w event_reader option \<Rightarrow>
   event_count_query \<Rightarrow> 'w \<Rightarrow> (go_error + event_count_result) \<times> 'w" where
  "count_events_with_evidence sha uni ex rdo q w =
     (case rdo of
        None \<Rightarrow> (Inl (ErrText ''event reader is required''), w)
      | Some rd \<Rightarrow>
          (case build_event_count_query sha (Some (rd_builder rd)) q of
             Inl err \<Rightarrow> (Inl err, w)
           | Inr plan \<Rightarrow>
               (case execute_count_plan uni ex rd plan w of
                  (Inl err, w1) \<Rightarrow> (Inl err, w1)
                | (Inr n, w1) \<Rightarrow> (Inr \<lparr>cr_count = n, cr_evidence = query_evidence plan\<rparr>, w1))))"

definition list_events ::
  "(string \<Rightarrow> 256 word) \<Rightarrow> (string \<Rightarrow> string) \<Rightarrow> (go_error \<Rightarrow> (int \<times> string) option) \<Rightarrow> 'w event_reader option \<Rightarrow>
   event_list_query \<Rightarrow> 'w \<Rightarrow> (go_error + event_record list) \<times> 'w" where
  "list_events sha uni ex rdo q w = apfst (map_sum id qr_records) (list_events_with_evidence sha uni ex rdo q w)"

definition list_realtime ::
  "(string \<Rightarrow> 256 word) \<Rightarrow> (string \<Rightarrow> string) \<Rightarrow> (go_error \<Rightarrow> (int \<times> string) option) \<Rightarrow> 'w event_reader option \<Rightarrow>
   realtime_query \<Rightarrow> 'w \<Rightarrow> (go_error + event_record list) \<times> 'w" where
  "list_realtime sha uni ex rdo q w = apfst (map_sum id qr_records) (list_realtime_with_evidence sha uni ex rdo q w)"

definition count_events ::
  "(string \<Rightarrow> 256 word) \<Rightarrow> (string \<Rightarrow> string) \<Rightarrow> (go_error \<Rightarrow> (int \<times> string) option) \<Rightarrow> 'w event_reader option \<Rightarrow>
   event_count_query \<Rightarrow> 'w \<Rightarrow> (go_error + int) \<times> 'w" where
  "count_events sha uni ex rdo q w = apfst (map_sum id cr_count) (count_events_with_evidence sha uni ex rdo q w)"

section \<open>A working database\<close>

definition matching ::
  "(snapshot \<Rightarrow> string \<Rightarrow> sql_value list \<Rightarrow> row \<Rightarrow> bool) \<Rightarrow> snapshot \<Rightarrow> string \<Rightarrow> scope \<Rightarrow> row list" where
  "matching holds db n calls = filter (\<lambda>r. list_all (passes holds db r) calls) (db n)"

fun page :: "scope \<Rightarrow> 'a list \<Rightarrow> 'a list" where
  "page [] xs = xs"
| "page (ScLimit n # cs) xs = take (nat n) (page cs xs)"
| "page (ScOffset n # cs) xs = drop (nat n) (page cs xs)"
| "page (c # cs) xs = page cs xs"

definition serves ::
  "(snapshot \<Rightarrow> string \<Rightarrow> sql_value list \<Rightarrow> row \<Rightarrow> bool) \<Rightarrow> query_db \<Rightarrow> 'w query_conn \<Rightarrow> ('w \<Rightarrow> snapshot) \<Rightarrow>
   (row \<Rightarrow> event_row_model) \<Rightarrow> bool" where
  "serves holds db conn snap decode \<longleftrightarrow>
     (\<forall>n cols calls sql vars w rows w'.
        (db ([ScTable n, ScSelectColumns cols] @ calls @ [ScFind EventRows]) = Some (sql, vars) \<and>
         qc_events conn sql vars w = (Inr rows, w') \<longrightarrow>
         (\<exists>found. mset found = mset (matching holds (snap w) n calls) \<and> rows = map decode (page calls found))) \<and>
        (\<forall>ns. db ([ScTable n, ScSelectColumns cols] @ calls @ [ScSelect ''count() AS count'', ScFind CountRows]) = Some (sql, vars) \<and>
           qc_counts conn sql vars w = (Inr ns, w') \<longrightarrow>
           ns = [int (length (matching holds (snap w) n calls))]))"

lemma page_append: "page (cs @ ds) xs = page cs (page ds xs)"
  by (induction cs xs rule: page.induct) auto

lemma page_other: "(\<And>n. ScLimit n \<notin> set cs \<and> ScOffset n \<notin> set cs) \<Longrightarrow> page cs xs = xs"
  by (induction cs xs rule: page.induct) force+

lemma page_predicates: "page (predicate_calls t q @ order_calls q) xs = xs"
  by (rule page_other) (auto simp: predicate_calls_def scalar_predicates_def event_filter_call_def property_filter_call_def
      order_calls_def Let_def split: if_splits)

lemma page_paging:
  "page (paging_calls b q) xs = take (nat (normalize_limit b (lq_limit q) default_events_limit)) (drop (nat (lq_offset q)) xs)"
  by (simp add: paging_calls_def)
section \<open>Answers of the reader\<close>

lemma routed_for_writers:
  assumes "table_prefix_pattern (qb_router b)" and "lq_tenant_id q \<noteq> []" "lq_project_id q \<noteq> []" "lq_source_id q \<noteq> []"
  shows "env_tenant_id e = lq_tenant_id q \<Longrightarrow> env_project_id e = lq_project_id q \<Longrightarrow> env_source_id e = lq_source_id q \<Longrightarrow>
      route sha (Some (qb_router b)) e = Inr (source_table sha b q)"
    and "er_tenant_id x = lq_tenant_id q \<Longrightarrow> er_project_id x = lq_project_id q \<Longrightarrow> er_source_id x = lq_source_id q \<Longrightarrow>
      route_property_record sha (qb_router b) x
        = Inr \<lparr>tbl_logical = default_logical_table @ property_table_suffix,
            tbl_physical = tbl_physical (source_table sha b q) @ property_table_suffix\<rparr>"
  using assms property_table_name [OF source_table_pattern [OF assms(1), of sha q]]
  by (simp_all add: route_def route_key_def source_table_def route_property_record_def)

lemma list_plan_Inr:
  assumes "list_plan uni ex rd (Inr plan) w = (Inr res, w')"
  shows "qr_evidence res = query_evidence plan \<and>
    ((\<exists>rows. qc_events (rd_db rd) (qp_sql plan) (qp_args plan) w = (Inr rows, w') \<and> qr_records res = map to_record rows) \<or>
     (\<exists>err. qc_events (rd_db rd) (qp_sql plan) (qp_args plan) w = (Inl err, w') \<and> is_missing_table uni ex err \<and> qr_records res = []))"
  using assms
  by (cases "qc_events (rd_db rd) (qp_sql plan) (qp_args plan) w")
    (auto simp: list_plan_def execute_plan_def split: sum.splits if_splits)

text \<open>
  C6. The reader answers with the caller's events. Over a database that serves the builder's scopes, a list
  that succeeds is the requested page of the events that the query asks for, taken in some order from the
  table that the writers route this source to (its property predicates from the table the property writer
  uses), converted field by field, together with the evidence of the plan; the only other success is the
  empty list, when the driver reported that the routed table does not exist.
\<close>

theorem reader_lists_wanted_events:
  assumes "sql_where holds" and "table_prefix_pattern (qb_router b)" and "qb_db b = Some db"
    and "serves holds db conn snap decode" and "bindable_query q"
    and "list_events_with_evidence sha uni ex (Some \<lparr>rd_db = conn, rd_builder = b\<rparr>) q w = (Inr res, w')"
  shows "let t = source_table sha b q; limit = normalize_limit b (lq_limit q) default_events_limit in
    qr_evidence res = build_evidence ''events'' q limit \<and>
    (\<forall>e. env_tenant_id e = lq_tenant_id q \<and> env_project_id e = lq_project_id q \<and> env_source_id e = lq_source_id q \<longrightarrow>
       route sha (Some (qb_router b)) e = Inr t) \<and>
    ((\<exists>found. mset found = mset (filter (wanted (snap w) (tbl_physical t @ property_table_suffix) q) (snap w (tbl_physical t))) \<and>
        qr_records res = map (to_record \<circ> decode) (take (nat limit) (drop (nat (lq_offset q)) found))) \<or>
     qr_records res = [] \<and> (\<exists>sql args err. qc_events conn sql args w = (Inl err, w') \<and> is_missing_table uni ex err))"
proof -
  let ?t = "source_table sha b q" and ?limit = "normalize_limit b (lq_limit q) default_events_limit"
  let ?calls = "predicate_calls ?t q @ order_calls q @ paging_calls b q"
  from assms(6) obtain plan where plan: "build_events_query sha (Some b) q = Inr plan"
    and run: "list_plan uni ex \<lparr>rd_db = conn, rd_builder = b\<rparr> (Inr plan) w = (Inr res, w')"
    by (auto simp: list_events_with_evidence_def list_plan_def split: sum.splits)
  from plan [unfolded events_plan_exact [OF assms(2)]] assms(3) obtain sql vars where ok: "events_query_ok b q"
    and db: "db ([ScTable (tbl_physical ?t), ScSelectColumns event_select_columns] @ ?calls @ [ScFind EventRows]) = Some (sql, vars)"
    and pl: "plan = new_event_query_plan sql vars ''events'' (tbl_physical ?t) ?limit (build_evidence ''events'' q ?limit)"
    by (auto simp: base_scope_def)
  have sel: "matching holds (snap w) (tbl_physical ?t) ?calls
      = filter (wanted (snap w) (tbl_physical ?t @ property_table_suffix) q) (snap w (tbl_physical ?t))"
  proof -
    have "events_scope sha b q = Inr (base_scope (tbl_physical ?t) @ ?calls, ?t)"
      using ok by (simp add: events_scope_Inr [OF assms(2)])
    from scope_selects [OF assms(1,2) this assms(5)] show ?thesis
      by (simp add: matching_def base_scope_def passes_def)
  qed
  have pg: "page ?calls xs = take (nat ?limit) (drop (nat (lq_offset q)) xs)" for xs :: "row list"
    by (metis append_assoc page_append page_paging page_predicates)
  have found: "\<exists>found. mset found = mset (matching holds (snap w) (tbl_physical ?t) ?calls) \<and> rows = map decode (page ?calls found)"
    if "qc_events conn sql vars w = (Inr rows, w')" for rows
    using assms(4) db that unfolding serves_def by blast
  have routed: "\<forall>e. env_tenant_id e = lq_tenant_id q \<and> env_project_id e = lq_project_id q \<and> env_source_id e = lq_source_id q \<longrightarrow>
      route sha (Some (qb_router b)) e = Inr ?t"
    using ok routed_for_writers(1) [OF assms(2)] by (simp add: events_query_ok_def filtered_query_ok_def)
  from list_plan_Inr [OF run] pl have ev: "qr_evidence res = build_evidence ''events'' q ?limit"
    and out: "(\<exists>rows. qc_events conn sql vars w = (Inr rows, w') \<and> qr_records res = map to_record rows) \<or>
      (\<exists>err. qc_events conn sql vars w = (Inl err, w') \<and> is_missing_table uni ex err \<and> qr_records res = [])"
    by simp_all
  from out show ?thesis
    unfolding Let_def
  proof (elim disjE exE conjE)
    fix rows
    assume rows: "qc_events conn sql vars w = (Inr rows, w')" "qr_records res = map to_record rows"
    from found [OF rows(1)] obtain found where f: "mset found = mset (matching holds (snap w) (tbl_physical ?t) ?calls)"
      "rows = map decode (page ?calls found)" by blast
    from f(2) rows(2) pg have "qr_records res = map (to_record \<circ> decode) (take (nat ?limit) (drop (nat (lq_offset q)) found))"
      by simp
    with f(1) sel ev routed show "qr_evidence res = build_evidence ''events'' q ?limit \<and>
      (\<forall>e. env_tenant_id e = lq_tenant_id q \<and> env_project_id e = lq_project_id q \<and> env_source_id e = lq_source_id q \<longrightarrow>
         route sha (Some (qb_router b)) e = Inr ?t) \<and>
      ((\<exists>found. mset found = mset (filter (wanted (snap w) (tbl_physical ?t @ property_table_suffix) q) (snap w (tbl_physical ?t))) \<and>
          qr_records res = map (to_record \<circ> decode) (take (nat ?limit) (drop (nat (lq_offset q)) found))) \<or>
       qr_records res = [] \<and> (\<exists>sql args err. qc_events conn sql args w = (Inl err, w') \<and> is_missing_table uni ex err))"
      by metis
  qed (use ev routed in blast)
qed
definition text_cell :: "row \<Rightarrow> string \<Rightarrow> string" where
  "text_cell r c = (case r c of Some (SvString s) \<Rightarrow> s | _ \<Rightarrow> [])"

definition time_cell :: "row \<Rightarrow> string \<Rightarrow> gotime" where
  "time_cell r c = (case r c of Some (SvTime t) \<Rightarrow> t | _ \<Rightarrow> zero_time)"

text \<open>Scanning a row: every column of the select list goes to the field with its tag.\<close>

definition scan_row :: "row \<Rightarrow> event_row_model" where
  "scan_row r =
     \<lparr>em_event_id = text_cell r ''event_id'', em_tenant_id = text_cell r ''tenant_id'',
      em_project_id = text_cell r ''project_id'', em_source_id = text_cell r ''source_id'',
      em_source_type = text_cell r ''source_type'', em_event_name = text_cell r ''event_name'',
      em_distinct_id = text_cell r ''distinct_id'', em_session_id = text_cell r ''session_id'',
      em_visit_id = text_cell r ''visit_id'', em_event_time = time_cell r ''event_time'',
      em_received_at = time_cell r ''received_at'', em_properties = text_cell r ''properties'',
      em_user_properties = text_cell r ''user_properties'', em_source = text_cell r ''source''\<rparr>"

definition sample_snapshot :: "unit \<Rightarrow> snapshot" where
  "sample_snapshot = (\<lambda>_ n. if n = tbl_physical (source_table (\<lambda>_. 0) sample_builder sample_query)
     then [sample_event_row] else [sample_property_row])"

definition sample_render :: query_db where
  "sample_render sc = (if sc = sample_scope sample_query @ [ScFind EventRows] then Some (''SELECT'', []) else None)"

definition sample_conn :: "unit query_conn" where
  "sample_conn = \<lparr>qc_events = (\<lambda>sql args w. (Inr [scan_row sample_event_row], w)), qc_counts = (\<lambda>sql args w. (Inr [], w))\<rparr>"

definition sample_reader :: "unit event_reader" where
  "sample_reader = \<lparr>rd_db = sample_conn, rd_builder = sample_builder\<lparr>qb_db := Some sample_render\<rparr>\<rparr>"

lemma sample_scope_head:
  "sample_scope sample_query =
     [ScTable (tbl_physical (source_table (\<lambda>_. 0) sample_builder sample_query)), ScSelectColumns event_select_columns]
     @ drop 2 (sample_scope sample_query)"
  by code_simp

lemma sample_matching:
  "list_all (passes sql_eval (sample_snapshot w) sample_event_row) (drop 2 (sample_scope sample_query))"
  by (cases w) code_simp

lemma sample_page: "page (drop 2 (sample_scope sample_query)) [x] = [x]"
proof -
  note e = sample_events_scope [of sample_query, unfolded events_scope_Inr [OF sample_router], simplified]
  have "normalize_limit sample_builder (lq_limit sample_query) default_events_limit = 1000" by code_simp
  moreover have "lq_offset sample_query = 0" by code_simp
  ultimately show ?thesis
    using e by (simp add: base_scope_def page_append page_predicates [unfolded page_append] page_paging)
qed

lemma sample_serves: "serves sql_eval sample_render sample_conn sample_snapshot scan_row"
  unfolding serves_def
proof (intro allI conjI impI)
  fix n cols calls sql vars rows and w w' :: unit
  assume a: "sample_render ([ScTable n, ScSelectColumns cols] @ calls @ [ScFind EventRows]) = Some (sql, vars) \<and>
    qc_events sample_conn sql vars w = (Inr rows, w')"
  then have eq: "[ScTable n, ScSelectColumns cols] @ calls @ [ScFind EventRows] = sample_scope sample_query @ [ScFind EventRows]"
    by (auto simp: sample_render_def split: if_splits)
  have calls: "calls = drop 2 (sample_scope sample_query)"
    and n: "n = tbl_physical (source_table (\<lambda>_. 0) sample_builder sample_query)"
    using eq by (subst (asm) sample_scope_head, simp)+
  have "matching sql_eval (sample_snapshot w) n calls = [sample_event_row]"
  proof -
    have "sample_snapshot w n = [sample_event_row]" by (simp add: sample_snapshot_def n)
    then show ?thesis using sample_matching [of w] by (simp add: matching_def calls)
  qed
  moreover have "rows = map scan_row [sample_event_row]" using a by (simp add: sample_conn_def)
  ultimately show "\<exists>found. mset found = mset (matching sql_eval (sample_snapshot w) n calls) \<and> rows = map scan_row (page calls found)"
    by (intro exI [of _ "[sample_event_row]"]) (simp add: calls sample_page)
next
  fix n cols calls sql vars ns and w w' :: unit
  assume "sample_render ([ScTable n, ScSelectColumns cols] @ calls @ [ScSelect ''count() AS count'', ScFind CountRows]) = Some (sql, vars) \<and>
    qc_counts sample_conn sql vars w = (Inr ns, w')"
  then show "ns = [int (length (matching sql_eval (sample_snapshot w) n calls))]"
    by (auto simp: sample_render_def dest!: arg_cong [of _ _ last] split: if_splits)
qed

theorem reader_lists_wanted_events_witness:
  "qr_evidence (projr (fst (list_events_with_evidence (\<lambda>_. 0) id (\<lambda>_. None) (Some sample_reader) sample_query ())))
     = build_evidence ''events'' sample_query 1000"
proof -
  let ?run = "list_events_with_evidence (\<lambda>_. 0) id (\<lambda>_. None) (Some sample_reader) sample_query ()"
  have run: "?run = (Inr (projr (fst ?run)), ())" by code_simp
  have bq: "bindable_query sample_query" by code_simp
  have router: "table_prefix_pattern (qb_router (sample_builder\<lparr>qb_db := Some sample_render\<rparr>))" by code_simp
  have lim: "normalize_limit (sample_builder\<lparr>qb_db := Some sample_render\<rparr>) (lq_limit sample_query) default_events_limit = 1000"
    by code_simp
  from reader_lists_wanted_events [OF evaluator.sql_where_axioms router _ sample_serves bq run [unfolded sample_reader_def]]
  show ?thesis by (simp add: Let_def lim sample_reader_def)
qed

lemma count_plan_Inr:
  assumes "table_prefix_pattern (qb_router b)" and "build_event_count_query sha (Some b) cq = Inr plan"
  obtains db sql vars where "qb_db b = Some db" "filtered_query_ok b (event_count_query_as_list_query cq)"
    "db (base_scope (tbl_physical (source_table sha b (event_count_query_as_list_query cq)))
        @ predicate_calls (source_table sha b (event_count_query_as_list_query cq)) (event_count_query_as_list_query cq)
        @ [ScSelect ''count() AS count'', ScFind CountRows]) = Some (sql, vars)"
    "qp_sql plan = sql" "qp_args plan = vars"
    "query_evidence plan = build_evidence ''goal'' (event_count_query_as_list_query cq) 0"
proof -
  from assms(2) obtain sc t where s: "count_scope sha b cq = Inr (sc, t)"
    and m: "build_count_plan b sc t (build_evidence family_goal (event_count_query_as_list_query cq) 0) = Inr plan"
    by (auto simp: build_event_count_query_def split: sum.splits)
  from s [unfolded count_scope_Inr [OF assms(1)] Let_def] m that show ?thesis
    by (auto simp: build_count_plan_def materialize_Inr family_goal_def)
qed

text \<open>
  Counts are exact: over a database that serves the builder's scopes, a count that succeeds is the
  number of events in the source's table that the query asks for, with no cap and no page, or zero when the
  driver reported that the routed table does not exist.
\<close>

theorem reader_counts_wanted_events:
  assumes "sql_where holds" and "table_prefix_pattern (qb_router b)" and "qb_db b = Some db"
    and "serves holds db conn snap decode" and "bindable_query (event_count_query_as_list_query cq)"
    and "count_events sha uni ex (Some \<lparr>rd_db = conn, rd_builder = b\<rparr>) cq w = (Inr n, w')"
  shows "let q = event_count_query_as_list_query cq; t = source_table sha b q in
    n = int (length (filter (wanted (snap w) (tbl_physical t @ property_table_suffix) q) (snap w (tbl_physical t)))) \<or>
    n = 0 \<and> (\<exists>sql args err. qc_counts conn sql args w = (Inl err, w') \<and> is_missing_table uni ex err)"
proof -
  let ?q = "event_count_query_as_list_query cq"
  let ?t = "source_table sha b ?q"
  let ?calls = "predicate_calls ?t ?q"
  from assms(6) obtain plan where plan: "build_event_count_query sha (Some b) cq = Inr plan"
    and run: "execute_count_plan uni ex \<lparr>rd_db = conn, rd_builder = b\<rparr> plan w = (Inr n, w')"
    by (auto simp: count_events_def count_events_with_evidence_def split: sum.splits prod.splits)
  from count_plan_Inr [OF assms(2) plan] assms(3) obtain sql vars where ok: "filtered_query_ok b ?q"
    and db: "db ([ScTable (tbl_physical ?t), ScSelectColumns event_select_columns] @ ?calls
        @ [ScSelect ''count() AS count'', ScFind CountRows]) = Some (sql, vars)"
    and pl: "qp_sql plan = sql" "qp_args plan = vars"
    by (auto simp: base_scope_def)
  have sel: "matching holds (snap w) (tbl_physical ?t) ?calls
      = filter (wanted (snap w) (tbl_physical ?t @ property_table_suffix) ?q) (snap w (tbl_physical ?t))"
    unfolding matching_def predicate_calls_def
    using sql_where.predicates_select [OF assms(1) ok property_table_identifier [OF assms(2)] assms(5)] by simp
  have counted: "ns = [int (length (matching holds (snap w) (tbl_physical ?t) ?calls))]"
    if "qc_counts conn sql vars w = (Inr ns, w')" for ns
    using assms(4) db that unfolding serves_def by blast
  show ?thesis
  proof (cases "qc_counts conn sql vars w")
    case (Pair x w1)
    show ?thesis
    proof (cases x)
      case (Inl err)
      with run Pair pl have "n = 0 \<and> is_missing_table uni ex err \<and> w1 = w'"
        by (auto simp: execute_count_plan_def split: if_splits)
      with Pair Inl show ?thesis unfolding Let_def by blast
    next
      case (Inr ns)
      with run Pair pl have "w1 = w'" by (auto simp: execute_count_plan_def split: list.splits)
      with counted Pair Inr have "ns = [int (length (matching holds (snap w) (tbl_physical ?t) ?calls))]" by blast
      with run Pair Inr pl sel show ?thesis by (simp add: execute_count_plan_def Let_def)
    qed
  qed
qed
definition sample_count_query :: event_count_query where
  "sample_count_query =
     \<lparr>cq_tenant_id = ''t'', cq_project_id = ''p'', cq_source_id = ''s'', cq_event_name = ''page_view'', cq_distinct_id = [],
      cq_from = lq_from sample_query, cq_to = lq_to sample_query, cq_filters = lq_filters sample_query,
      cq_property_filters = lq_property_filters sample_query, cq_allowed = lq_allowed sample_query\<rparr>"

definition sample_count_scope :: scope where
  "sample_count_scope = fst (projr (count_scope (\<lambda>_. 0) sample_builder sample_count_query))"

definition sample_count_render :: query_db where
  "sample_count_render sc = (if sc = sample_count_scope @ [ScFind CountRows] then Some (''SELECT'', []) else None)"

definition sample_count_conn :: "unit query_conn" where
  "sample_count_conn = \<lparr>qc_events = (\<lambda>sql args w. (Inr [], w)), qc_counts = (\<lambda>sql args w. (Inr [1], w))\<rparr>"

lemma sample_count_scope_eq:
  "sample_count_scope =
     [ScTable (tbl_physical (source_table (\<lambda>_. 0) sample_builder sample_query)), ScSelectColumns event_select_columns]
     @ butlast (drop 2 sample_count_scope) @ [ScSelect ''count() AS count'']"
  by code_simp

lemma sample_count_matching:
  "list_all (passes sql_eval (sample_snapshot w) sample_event_row) (butlast (drop 2 sample_count_scope))"
  by (cases w) code_simp

lemma sample_count_serves: "serves sql_eval sample_count_render sample_count_conn sample_snapshot scan_row"
  unfolding serves_def
proof (intro allI conjI impI)
  fix n cols calls sql vars rows and w w' :: unit
  assume "sample_count_render ([ScTable n, ScSelectColumns cols] @ calls @ [ScFind EventRows]) = Some (sql, vars) \<and>
    qc_events sample_count_conn sql vars w = (Inr rows, w')"
  then show "\<exists>found. mset found = mset (matching sql_eval (sample_snapshot w) n calls) \<and> rows = map scan_row (page calls found)"
    by (auto simp: sample_count_render_def dest!: arg_cong [of _ _ last] split: if_splits)
next
  fix n cols calls sql vars ns and w w' :: unit
  assume a: "sample_count_render ([ScTable n, ScSelectColumns cols] @ calls @ [ScSelect ''count() AS count'', ScFind CountRows]) = Some (sql, vars) \<and>
    qc_counts sample_count_conn sql vars w = (Inr ns, w')"
  then have eq: "([ScTable n, ScSelectColumns cols] @ calls @ [ScSelect ''count() AS count'']) @ [ScFind CountRows]
      = sample_count_scope @ [ScFind CountRows]"
    by (auto simp: sample_count_render_def split: if_splits)
  have calls: "calls = butlast (drop 2 sample_count_scope)"
    and n: "n = tbl_physical (source_table (\<lambda>_. 0) sample_builder sample_query)"
    using eq by (subst (asm) sample_count_scope_eq, simp)+
  have "sample_snapshot w n = [sample_event_row]" by (simp add: sample_snapshot_def n)
  then have "matching sql_eval (sample_snapshot w) n calls = [sample_event_row]"
    using sample_count_matching [of w] by (simp add: matching_def calls)
  with a show "ns = [int (length (matching sql_eval (sample_snapshot w) n calls))]" by (simp add: sample_count_conn_def)
qed

theorem reader_counts_wanted_events_witness:
  "let q = event_count_query_as_list_query sample_count_query;
       t = source_table (\<lambda>_. 0) (sample_builder\<lparr>qb_db := Some sample_count_render\<rparr>) q in
   length (filter (wanted (sample_snapshot ()) (tbl_physical t @ property_table_suffix) q) (sample_snapshot () (tbl_physical t))) = 1"
proof -
  let ?rd = "\<lparr>rd_db = sample_count_conn, rd_builder = sample_builder\<lparr>qb_db := Some sample_count_render\<rparr>\<rparr>"
  have run: "count_events (\<lambda>_. 0) id (\<lambda>_. None) (Some ?rd) sample_count_query () = (Inr 1, ())" by code_simp
  have bq: "bindable_query (event_count_query_as_list_query sample_count_query)" by code_simp
  have router: "table_prefix_pattern (qb_router (sample_builder\<lparr>qb_db := Some sample_count_render\<rparr>))" by code_simp
  from reader_counts_wanted_events [OF evaluator.sql_where_axioms router _ sample_count_serves bq run]
  show ?thesis by (simp add: Let_def)
qed

end
