(* ===== verification/MySQL_Catalog.thy ===== *)
theory MySQL_Catalog
  imports Storage_Pipeline Event_Reader "HOL-Library.AList"
begin

text \<open>
  Package \<open>storage/mysql\<close>, file \<open>property_catalog.go\<close>: the property catalog in MySQL.

  The table is the record \<open>catalog_db\<close>: an insert of rows with its conflict columns and the assignments on
  conflict, and a query given by the calls made on the GORM scope. The locale \<open>catalog_table\<close> states what
  MySQL does with the upsert of this file (\<open>LEAST\<close> and \<open>GREATEST\<close> per key, a statement that reports an error
  may have been applied), \<open>catalog_reads\<close> what it does with the listing. Times are compared as instants after
  \<open>store\<close>, the rounding of the column; the keys are compared exactly (a binary collation).

  The lemmas show that upserts are idempotent and only widen what was seen, that a row converts back to its
  entry, and that a listing returns the entries of one source. \<open>AutoMigrate\<close> is a call of GORM's migration,
  an argument.
\<close>

section \<open>Rows\<close>

record catalog_row =
  ct_tenant_id :: string
  ct_project_id :: string
  ct_source_id :: string
  ct_scope :: string
  ct_name :: string
  ct_value_type :: string
  ct_first_seen_at :: gotime
  ct_last_seen_at :: gotime
  ct_created_at :: gotime
  ct_updated_at :: gotime

definition row_from_entry :: "property_catalog_entry \<Rightarrow> go_error + catalog_row" where
  "row_from_entry e =
     (case validate_catalog_entry e of
        Some err \<Rightarrow> Inl err
      | None \<Rightarrow> Inr
          \<lparr>ct_tenant_id = pe_tenant_id e, ct_project_id = pe_project_id e, ct_source_id = pe_source_id e,
           ct_scope = pe_scope e, ct_name = pe_name e, ct_value_type = pe_value_type e,
           ct_first_seen_at = utc (pe_first_seen_at e), ct_last_seen_at = utc (pe_last_seen_at e),
           ct_created_at = zero_time, ct_updated_at = zero_time\<rparr>)"

definition entry_from_row :: "catalog_row \<Rightarrow> go_error + property_catalog_entry" where
  "entry_from_row r =
     (let e = \<lparr>pe_tenant_id = ct_tenant_id r, pe_project_id = ct_project_id r, pe_source_id = ct_source_id r,
            pe_scope = ct_scope r, pe_name = ct_name r, pe_value_type = ct_value_type r,
            pe_first_seen_at = utc (ct_first_seen_at r), pe_last_seen_at = utc (ct_last_seen_at r)\<rparr>
      in case validate_catalog_entry e of Some err \<Rightarrow> Inl err | None \<Rightarrow> Inr e)"

section \<open>The catalog\<close>

record 'd catalog_db =
  cd_upsert :: "string list \<Rightarrow> (string \<times> string) list \<Rightarrow> catalog_row list \<Rightarrow> 'd \<Rightarrow> go_error option \<times> 'd"
  cd_find :: "scope \<Rightarrow> 'd \<Rightarrow> (go_error + catalog_row list) \<times> 'd"

definition new_property_catalog :: "'d catalog_db option \<Rightarrow> go_error + 'd catalog_db" where
  "new_property_catalog db = (case db of None \<Rightarrow> Inl (ErrText ''gorm db is required'') | Some c \<Rightarrow> Inr c)"

text \<open>\<open>AutoMigrate\<close>: \<open>migrate\<close> is GORM's migration of the table that the row type names.\<close>

definition property_catalog_table :: string where "property_catalog_table = ''property_catalog''"

definition migrate_property_catalog ::
  "(string \<Rightarrow> 'd \<Rightarrow> go_error option \<times> 'd) \<Rightarrow> 'd catalog_db option \<Rightarrow> 'd \<Rightarrow> go_error option \<times> 'd" where
  "migrate_property_catalog migrate c d =
     (case c of
        None \<Rightarrow> (Some (ErrText ''property catalog is required''), d)
      | Some db \<Rightarrow> migrate property_catalog_table d)"

definition catalog_conflict_columns :: "string list" where
  "catalog_conflict_columns =
     [''tenant_id'', ''project_id'', ''source_id'', ''property_scope'', ''property_name'', ''property_type'']"

definition catalog_assignments :: "(string \<times> string) list" where
  "catalog_assignments =
     [(''first_seen_at'', ''LEAST(first_seen_at, VALUES(first_seen_at))''),
      (''last_seen_at'', ''GREATEST(last_seen_at, VALUES(last_seen_at))''),
      (''updated_at'', ''VALUES(updated_at)'')]"

fun rows_from_entries :: "property_catalog_entry list \<Rightarrow> go_error + catalog_row list" where
  "rows_from_entries [] = Inr []"
| "rows_from_entries (e # es) =
     (case row_from_entry e of
        Inl err \<Rightarrow> Inl err
      | Inr r \<Rightarrow> (case rows_from_entries es of Inl err \<Rightarrow> Inl err | Inr rs \<Rightarrow> Inr (r # rs)))"

definition upsert_property_catalog_entries :: "'d catalog_db option \<Rightarrow> 'd catalog_writer_fn" where
  "upsert_property_catalog_entries co es d =
     (case co of
        None \<Rightarrow> (Inl (ErrText ''property catalog is required''), d)
      | Some db \<Rightarrow>
          if es = [] then (Inr 0, d)
          else
            (case rows_from_entries es of
               Inl err \<Rightarrow> (Inl err, d)
             | Inr rows \<Rightarrow>
                 (case cd_upsert db catalog_conflict_columns catalog_assignments rows d of
                    (Some err, d1) \<Rightarrow> (Inl err, d1)
                  | (None, d1) \<Rightarrow> (Inr (length rows), d1))))"

fun entries_from_rows :: "catalog_row list \<Rightarrow> go_error + property_catalog_entry list" where
  "entries_from_rows [] = Inr []"
| "entries_from_rows (r # rs) =
     (case entry_from_row r of
        Inl err \<Rightarrow> Inl err
      | Inr e \<Rightarrow> (case entries_from_rows rs of Inl err \<Rightarrow> Inl err | Inr es \<Rightarrow> Inr (e # es)))"

definition catalog_scope :: "property_catalog_query \<Rightarrow> scope" where
  "catalog_scope q =
     [ScWhere ''tenant_id = ? AND project_id = ? AND source_id = ?''
        [SvString (pq_tenant_id q), SvString (pq_project_id q), SvString (pq_source_id q)]]
     @ (if pq_scope q \<noteq> [] then [ScWhere ''property_scope = ?'' [SvString (pq_scope q)]] else [])
     @ (if 0 < pq_limit q then [ScLimit (pq_limit q)] else [])
     @ [ScOrder ''property_scope ASC'', ScOrder ''property_name ASC'', ScOrder ''property_type ASC'']"

definition list_property_catalog_entries ::
  "'d catalog_db option \<Rightarrow> property_catalog_query \<Rightarrow> 'd \<Rightarrow> (go_error + property_catalog_entry list) \<times> 'd" where
  "list_property_catalog_entries co q d =
     (case co of
        None \<Rightarrow> (Inl (ErrText ''property catalog is required''), d)
      | Some db \<Rightarrow>
          (case validate_catalog_query q of
             Some err \<Rightarrow> (Inl err, d)
           | None \<Rightarrow>
               (case cd_find db (catalog_scope q) d of
                  (Inl err, d1) \<Rightarrow> (Inl err, d1)
                | (Inr rows, d1) \<Rightarrow> (entries_from_rows rows, d1))))"

section \<open>What was seen\<close>

definition row_key :: "catalog_row \<Rightarrow> property_catalog_key" where
  "row_key r = CatalogKey (ct_tenant_id r) (ct_project_id r) (ct_source_id r) (ct_scope r) (ct_name r) (ct_value_type r)"

definition widen :: "int \<times> int \<Rightarrow> (int \<times> int) option \<Rightarrow> int \<times> int" where
  "widen new old = (case old of None \<Rightarrow> new | Some (a, b) \<Rightarrow> (min a (fst new), max b (snd new)))"

type_synonym seen_map = "property_catalog_key \<Rightarrow> (int \<times> int) option"

definition put_row :: "(int \<Rightarrow> int) \<Rightarrow> catalog_row \<Rightarrow> seen_map \<Rightarrow> seen_map" where
  "put_row store r m =
     m(row_key r \<mapsto> widen (store (tm_ns (ct_first_seen_at r)), store (tm_ns (ct_last_seen_at r))) (m (row_key r)))"

definition wider :: "seen_map \<Rightarrow> seen_map \<Rightarrow> bool" where
  "wider m m' \<longleftrightarrow> (\<forall>k a b. m k = Some (a, b) \<longrightarrow> (\<exists>a' b'. m' k = Some (a', b') \<and> a' \<le> a \<and> b \<le> b'))"

definition covers :: "seen_map \<Rightarrow> (int \<Rightarrow> int) \<Rightarrow> catalog_row \<Rightarrow> bool" where
  "covers m store r \<longleftrightarrow>
     (\<exists>a b. m (row_key r) = Some (a, b) \<and> a \<le> store (tm_ns (ct_first_seen_at r)) \<and> store (tm_ns (ct_last_seen_at r)) \<le> b)"

lemma wider_refl: "wider m m"
  by (auto simp: wider_def)

lemma wider_trans: "wider m m' \<Longrightarrow> wider m' m'' \<Longrightarrow> wider m m''"
  unfolding wider_def by (meson order_trans)

lemma covers_wider: "covers m store r \<Longrightarrow> wider m m' \<Longrightarrow> covers m' store r"
  unfolding covers_def wider_def by (meson order_trans)

lemma put_row_wider: "wider m (put_row store r m)"
  by (auto simp: wider_def put_row_def widen_def)

lemma put_row_covers: "covers (put_row store r m) store r"
  by (auto simp: covers_def put_row_def widen_def split: option.split prod.split)

lemma put_row_covered: "covers m store r \<Longrightarrow> put_row store r m = m"
  by (auto simp: covers_def put_row_def widen_def fun_eq_iff min_def max_def)

lemma put_rows_wider: "wider m (fold (put_row store) rs m)"
  by (induction rs arbitrary: m) (auto intro: wider_refl wider_trans put_row_wider)

lemma put_rows_cover: "r \<in> set rs \<Longrightarrow> covers (fold (put_row store) rs m) store r"
  by (induction rs arbitrary: m) (auto intro: covers_wider [OF put_row_covers put_rows_wider])

lemma put_rows_covered: "(\<And>r. r \<in> set rs \<Longrightarrow> covers m store r) \<Longrightarrow> fold (put_row store) rs m = m"
  by (induction rs) (auto simp: put_row_covered)

lemma put_rows_idem: "fold (put_row store) rs (fold (put_row store) rs m) = fold (put_row store) rs m"
  by (rule put_rows_covered) (rule put_rows_cover)

locale catalog_table =
  fixes db :: "'d catalog_db" and seen :: "'d \<Rightarrow> seen_map" and store :: "int \<Rightarrow> int"
  assumes applied: "cd_upsert db catalog_conflict_columns catalog_assignments rows d = (None, d') \<Longrightarrow>
      seen d' = fold (put_row store) rows (seen d)"
    and failed: "cd_upsert db catalog_conflict_columns catalog_assignments rows d = (Some err, d') \<Longrightarrow>
      seen d' = seen d \<or> seen d' = fold (put_row store) rows (seen d)"
    and find_keeps: "cd_find db calls d = (x, d') \<Longrightarrow> seen d' = seen d"
begin

lemma upsert_widens:
  assumes "upsert_property_catalog_entries (Some db) es d = (x, d')"
  shows "wider (seen d) (seen d')"
proof -
  have "wider (seen d) (seen d1)" if "cd_upsert db catalog_conflict_columns catalog_assignments rows d = (y, d1)" for rows y d1
    using that applied [of rows d d1] failed [of rows d _ d1] put_rows_wider wider_refl by (cases y) fastforce+
  with assms show ?thesis
    by (auto simp: upsert_property_catalog_entries_def wider_refl split: if_splits sum.splits prod.splits option.splits)
qed

lemma upsert_done:
  assumes "upsert_property_catalog_entries (Some db) es d = (Inr n, d')"
  shows "\<exists>rows. rows_from_entries es = Inr rows \<and> n = length rows \<and> seen d' = fold (put_row store) rows (seen d)"
  using assms applied
  by (auto simp: upsert_property_catalog_entries_def split: if_splits sum.splits prod.splits option.splits)

lemma upsert_covers:
  assumes "upsert_property_catalog_entries (Some db) es d = (Inr n, d')" and "rows_from_entries es = Inr rows" and "r \<in> set rows"
  shows "covers (seen d') store r"
  using upsert_done [OF assms(1)] assms(2,3) put_rows_cover by force

lemma upsert_again:
  assumes "upsert_property_catalog_entries (Some db) es d = (Inr n, d')"
    and "upsert_property_catalog_entries (Some db) es d' = (x, d'')"
  shows "seen d'' = seen d'"
proof -
  from upsert_done [OF assms(1)] obtain rows where r: "rows_from_entries es = Inr rows"
    "seen d' = fold (put_row store) rows (seen d)" by blast
  then have again: "fold (put_row store) rows (seen d') = seen d'" by (simp add: put_rows_idem)
  with assms(2) r(1) applied [of rows d' d''] failed [of rows d' _ d''] show ?thesis
    by (auto simp: upsert_property_catalog_entries_def split: if_splits prod.splits option.splits)
qed

end
section \<open>The catalog behind the ingestion pipeline\<close>

lemma guards_keep_catalog:
  "wg_start (events_guard db) e w = (x, w') \<Longrightarrow> sw_catalog w' = sw_catalog w"
  "wg_commit (events_guard db) c w = (r, w') \<Longrightarrow> sw_catalog w' = sw_catalog w"
  "wg_rollback (events_guard db) c cause w = (r, w') \<Longrightarrow> sw_catalog w' = sw_catalog w"
  "wg_start (props_guard db) e w = (x, w') \<Longrightarrow> sw_catalog w' = sw_catalog w"
  "wg_commit (props_guard db) c w = (r, w') \<Longrightarrow> sw_catalog w' = sw_catalog w"
  "wg_rollback (props_guard db) c cause w = (r, w') \<Longrightarrow> sw_catalog w' = sw_catalog w"
  by (auto simp: events_guard_def props_guard_def dest: on_events_frame on_props_frame)

lemma store_event_catalog:
  fixes dp :: "('d, 'k) deployment"
  assumes "store_event dp e w = (r, w')"
  shows "sw_catalog w' = sw_catalog w"
proof -
  have claimed: "sw_catalog w2 = sw_catalog w1"
    if "write_claimed_event (dp_sha dp) (dp_enc dp) \<lparr>bw_router = dp_prefix dp, bw_conn = ch_conn (dp_env dp), bw_guard = Some (events_guard (dp_db dp))\<rparr> e w1 = (y, w2)"
    for y and w1 w2 :: "('d, 'k) store_world"
    using write_claimed_event_calls [OF that] by auto
  from assms [unfolded store_event_def event_batches_def] show ?thesis
  proof (cases rule: batch_write_cases)
    case (failed c w1 err w2 err')
    have "sw_catalog w' = sw_catalog w2"
      by (rule rollback_write_rel [where R = "\<lambda>w w'. sw_catalog w' = sw_catalog w", OF _ failed(4)]) (rule guards_keep_catalog(3))
    also have "\<dots> = sw_catalog w1" by (rule claimed [OF failed(3)])
    also have "\<dots> = sw_catalog w" by (rule guards_keep_catalog(1) [OF failed(1)])
    finally show ?thesis .
  next
    case (sent c w1 w2 co)
    with guards_keep_catalog(2) [OF sent(4)] claimed [OF sent(3)] guards_keep_catalog(1) [OF sent(1)] show ?thesis by simp
  qed (simp_all add: guards_keep_catalog(1))
qed

lemma store_properties_catalog: "store_properties dp rs w = (r, w') \<Longrightarrow> sw_catalog w' = sw_catalog w"
  by (drule store_properties_only_logs) (auto simp: only_logs_def)

lemma store_indexed_catalog: "store_indexed dp e w = (r, w') \<Longrightarrow> sw_catalog w' = sw_catalog w"
  unfolding store_indexed_def
  by (erule indexing_write_rel [where R = "\<lambda>w w'. sw_catalog w' = sw_catalog w", rotated -1])
    (auto dest: store_event_catalog store_properties_catalog guards_keep_catalog)

text \<open>What one write of the composed writer does to the catalog.\<close>

lemma store_cataloged_catalog:
  assumes "store_cataloged dp e w = (x, w')" and "flatten_event_properties (dp_pf dp) e = Inr records"
  shows "isl x \<and> sw_catalog w' = sw_catalog w \<or>
    (\<exists>es. build_catalog_entries records = Inr es \<and>
      (es = [] \<and> sw_catalog w' = sw_catalog w \<or>
       (\<exists>z. dp_upsert dp es (sw_catalog w) = (z, sw_catalog w') \<and> isl x = isl z)))"
proof -
  obtain y w1 where s: "store_indexed dp e w = (y, w1)" by fastforce
  note k = store_indexed_catalog [OF s]
  show ?thesis
  proof (cases "build_catalog_entries records")
    case (Inl err)
    with assms show ?thesis by (auto simp: store_cataloged_def cataloging_write_def)
  next
    case (Inr es)
    obtain z c where u: "dp_upsert dp es (sw_catalog w) = (z, c)" by fastforce
    with assms s k Inr show ?thesis
      by (cases y; cases "es = []"; cases z) (auto simp: store_cataloged_def cataloging_write_def on_catalog_def)
  qed
qed

lemma row_from_entry_Inr:
  "row_from_entry e = Inr r \<Longrightarrow>
   row_key r = key_from_entry e \<and> tm_ns (ct_first_seen_at r) = tm_ns (pe_first_seen_at e) \<and>
   tm_ns (ct_last_seen_at r) = tm_ns (pe_last_seen_at e)"
  by (auto simp: row_from_entry_def row_key_def key_from_entry_def split: option.splits)

lemma rows_from_entries_Inr:
  "rows_from_entries es = Inr rows \<Longrightarrow> e \<in> set es \<Longrightarrow> \<exists>r \<in> set rows. row_from_entry e = Inr r"
  by (induction es arbitrary: rows) (auto split: sum.splits)

lemma catalog_of_covers:
  assumes "r \<in> set records"
  shows "\<exists>e \<in> set (catalog_of records). key_from_entry e = key_of_record r \<and>
    tm_ns (pe_first_seen_at e) \<le> tm_ns (observed_at r) \<and> tm_ns (observed_at r) \<le> tm_ns (pe_last_seen_at e)"
proof -
  have "tm_ns (observed_at r) \<in> times_of records (key_of_record r)" using assms by (auto simp: times_of_def)
  then show ?thesis
    using assms by (intro bexI [of _ "entry_for records (key_of_record r)"])
      (auto simp: catalog_of_def entry_for_def key_from_entry_def utc_at_def)
qed

context catalog_table
begin

lemma upserted_window:
  assumes "mono store" and "build_catalog_entries records = Inr es"
    and "upsert_property_catalog_entries (Some db) es d = (Inr n, d')" and "r \<in> set records"
  shows "\<exists>a b. seen d' (key_of_record r) = Some (a, b) \<and> a \<le> store (tm_ns (observed_at r)) \<and> store (tm_ns (observed_at r)) \<le> b"
proof -
  from assms(2) have "es = catalog_of records" by (simp add: build_catalog_entries_spec split: option.splits)
  with catalog_of_covers [OF assms(4)] obtain e where e: "e \<in> set es" "key_from_entry e = key_of_record r"
    "tm_ns (pe_first_seen_at e) \<le> tm_ns (observed_at r)" "tm_ns (observed_at r) \<le> tm_ns (pe_last_seen_at e)" by blast
  from upsert_done [OF assms(3)] obtain rows where rows: "rows_from_entries es = Inr rows" by blast
  from rows_from_entries_Inr [OF this e(1)] obtain x where x: "x \<in> set rows" "row_from_entry e = Inr x" by blast
  from upsert_covers [OF assms(3) rows x(1)] row_from_entry_Inr [OF x(2)] e(2)
  obtain a b where "seen d' (key_of_record r) = Some (a, b)" "a \<le> store (tm_ns (pe_first_seen_at e))"
    "store (tm_ns (pe_last_seen_at e)) \<le> b" by (auto simp: covers_def)
  with monoD [OF assms(1) e(3)] monoD [OF assms(1) e(4)] show ?thesis by (intro exI [of _ a] exI [of _ b]) simp
qed

end

lemma ingestion_upserts:
  assumes "dp_upsert dp = upsert_property_catalog_entries (Some cdb)"
    and "flatten_event_properties (dp_pf dp) e = Inr records"
    and "store_cataloged dp e w = (x, w')" and "\<not> isl x"
  shows "records = [] \<or>
    (\<exists>es n. build_catalog_entries records = Inr es \<and> es \<noteq> [] \<and>
       upsert_property_catalog_entries (Some cdb) es (sw_catalog w) = (Inr n, sw_catalog w'))"
proof -
  from store_cataloged_catalog [OF assms(3,2), unfolded assms(1)] assms(4)
  obtain es where es: "build_catalog_entries records = Inr es"
    and up: "es = [] \<or> (\<exists>n. upsert_property_catalog_entries (Some cdb) es (sw_catalog w) = (Inr n, sw_catalog w'))"
    by (metis isl_def sum.exhaust)
  from es have "es = catalog_of records" by (simp add: build_catalog_entries_spec split: option.splits)
  then have "es = [] \<Longrightarrow> records = []" using catalog_of_covers [of "hd records" records] by (cases records) auto
  with es up show ?thesis by blast
qed

lemma ingestion_seen:
  assumes "catalog_table cdb seen store" and "mono store"
    and "dp_upsert dp = upsert_property_catalog_entries (Some cdb)"
    and "flatten_event_properties (dp_pf dp) e = Inr records"
    and "store_cataloged dp e w = (x, w')" and "\<not> isl x" and "r \<in> set records"
  shows "\<exists>a b. seen (sw_catalog w') (key_of_record r) = Some (a, b) \<and>
    a \<le> store (tm_ns (observed_at r)) \<and> store (tm_ns (observed_at r)) \<le> b"
  using ingestion_upserts [OF assms(3-6)] catalog_table.upserted_window [OF assms(1,2) _ _ assms(7)] assms(7) by fastforce

lemma redelivery_keeps_seen:
  assumes "catalog_table cdb seen store"
    and up: "dp_upsert dp = upsert_property_catalog_entries (Some cdb)"
    and fl: "flatten_event_properties (dp_pf dp) e = Inr records"
    and "store_cataloged dp e w = (x, w')" and "\<not> isl x"
    and "sw_catalog w2 = sw_catalog w'" and again: "store_cataloged dp e w2 = (y, w3)"
  shows "seen (sw_catalog w3) = seen (sw_catalog w')"
proof (cases "records = []")
  case True
  moreover have "build_catalog_entries [] = Inr []" by code_simp
  ultimately have "build_catalog_entries records = Inr []" by simp
  with store_cataloged_catalog [OF again fl, unfolded up] assms(6) show ?thesis
    by (auto simp: upsert_property_catalog_entries_def)
next
  case False
  with ingestion_upserts [OF assms(2-5)] obtain es n where
    es: "build_catalog_entries records = Inr es" "es \<noteq> []" and
    n: "upsert_property_catalog_entries (Some cdb) es (sw_catalog w) = (Inr n, sw_catalog w')" by blast
  from store_cataloged_catalog [OF again fl, unfolded up] es assms(6)
    catalog_table.upsert_again [OF assms(1) n] show ?thesis by auto
qed

section \<open>Listings\<close>

definition catalog_cells :: "catalog_row \<Rightarrow> row" where
  "catalog_cells r =
     map_of [(''tenant_id'', SvString (ct_tenant_id r)), (''project_id'', SvString (ct_project_id r)),
       (''source_id'', SvString (ct_source_id r)), (''property_scope'', SvString (ct_scope r)),
       (''property_name'', SvString (ct_name r)), (''property_type'', SvString (ct_value_type r)),
       (''first_seen_at'', SvTime (ct_first_seen_at r)), (''last_seen_at'', SvTime (ct_last_seen_at r))]"

definition order_columns :: "catalog_row \<Rightarrow> string \<times> string \<times> string" where
  "order_columns r = (ct_scope r, ct_name r, ct_value_type r)"

definition key_in_query :: "property_catalog_query \<Rightarrow> property_catalog_key \<Rightarrow> bool" where
  "key_in_query q k \<longleftrightarrow>
     ck_tenant_id k = pq_tenant_id q \<and> ck_project_id k = pq_project_id q \<and> ck_source_id k = pq_source_id q \<and>
     (pq_scope q \<noteq> [] \<longrightarrow> ck_scope k = pq_scope q)"

definition limited :: "int \<Rightarrow> 'a list \<Rightarrow> 'a list" where
  "limited n xs = (if 0 < n then take (nat n) xs else xs)"

lemma page_catalog_scope: "page (catalog_scope q) xs = limited (pq_limit q) xs"
  by (simp add: catalog_scope_def limited_def)

lemma map_limited: "map f (limited n xs) = limited n (map f xs)"
  by (simp add: limited_def take_map)

lemma set_limited: "set (limited n xs) \<subseteq> set xs"
  by (simp add: limited_def set_take_subset)

lemma nil_less: "([] :: string) < xs \<longleftrightarrow> xs \<noteq> []"
  by (cases xs) simp_all

text \<open>In one source, the order of the listing is the order of the dictionary's keys.\<close>

lemma order_in_source:
  "key_in_query q (row_key r) \<Longrightarrow> key_in_query q (row_key s) \<Longrightarrow> order_columns r \<le> order_columns s \<Longrightarrow> row_key r \<le> row_key s"
  by (auto simp: order_columns_def less_eq_property_catalog_key_def key_less_def key_in_query_def row_key_def
      less_eq_prod_simp less_prod_simp nil_less)

lemma listing_order:
  assumes "distinct (map row_key rs)" and "\<forall>r \<in> set rs. key_in_query q (row_key r)"
  shows "map row_key (sort_key order_columns rs) = sorted_list_of_set (row_key ` set rs)"
proof -
  have "sorted_wrt (\<lambda>r s. order_columns r \<le> order_columns s) (sort_key order_columns rs)"
    using sorted_sort_key [of order_columns rs] by (simp add: sorted_map)
  then have "sorted_wrt (\<lambda>r s. row_key r \<le> row_key s) (sort_key order_columns rs)"
    by (rule sorted_wrt_mono_rel [rotated]) (use assms(2) order_in_source [of q] in simp)
  then have "sorted (map row_key (sort_key order_columns rs))" by (simp add: sorted_map)
  moreover have "distinct (map row_key (sort_key order_columns rs))"
    using assms(1) by (simp add: distinct_map)
  ultimately show ?thesis
    by (intro sorted_distinct_set_unique) simp_all
qed

lemma entry_from_row_Inr:
  "entry_from_row r = Inr e \<Longrightarrow>
   key_from_entry e = row_key r \<and> validate_catalog_entry e = None \<and> tm_ns (pe_first_seen_at e) = tm_ns (ct_first_seen_at r) \<and>
   tm_ns (pe_last_seen_at e) = tm_ns (ct_last_seen_at r)"
  by (auto simp: entry_from_row_def row_key_def key_from_entry_def Let_def split: option.splits)

lemma entries_from_rows_Inr: "entries_from_rows rs = Inr es \<Longrightarrow> list_all2 (\<lambda>r e. entry_from_row r = Inr e) rs es"
  by (induction rs arbitrary: es) (auto split: sum.splits)

lemma entries_come_from: "entries_from_rows rs = Inr es \<Longrightarrow> e \<in> set es \<Longrightarrow> \<exists>r \<in> set rs. entry_from_row r = Inr e"
  by (induction rs arbitrary: es) (auto split: sum.splits)

lemma entries_keys: "list_all2 (\<lambda>r e. entry_from_row r = Inr e) rs es \<Longrightarrow> map key_from_entry es = map row_key rs"
  by (induction rule: list_all2_induct) (auto dest: entry_from_row_Inr)

text \<open>A row read back is the entry that was written, with both times in UTC.\<close>

lemma row_roundtrip:
  assumes "row_from_entry e = Inr r"
  shows "entry_from_row r = Inr (e\<lparr>pe_first_seen_at := utc (pe_first_seen_at e), pe_last_seen_at := utc (pe_last_seen_at e)\<rparr>)"
proof -
  have "validate_catalog_entry (e\<lparr>pe_first_seen_at := utc (pe_first_seen_at e), pe_last_seen_at := utc (pe_last_seen_at e)\<rparr>)
      = validate_catalog_entry e"
    by (simp add: validate_catalog_entry_def is_zero_time_def)
  then show ?thesis
    using assms by (cases e) (auto simp: row_from_entry_def entry_from_row_def split: option.splits)
qed

locale catalog_reads = catalog_table db seen store + sql_where holds
  for db :: "'d catalog_db" and seen :: "'d \<Rightarrow> seen_map" and store :: "int \<Rightarrow> int"
    and holds :: "snapshot \<Rightarrow> string \<Rightarrow> sql_value list \<Rightarrow> row \<Rightarrow> bool" +
  fixes rows :: "'d \<Rightarrow> catalog_row list"
  assumes one_row: "distinct (map row_key (rows d))"
    and represents: "seen d k = Some (a, b) \<longleftrightarrow>
      (\<exists>r \<in> set (rows d). row_key r = k \<and> tm_ns (ct_first_seen_at r) = a \<and> tm_ns (ct_last_seen_at r) = b)"
    and find: "cd_find db (catalog_scope q) d = (Inr found, d') \<Longrightarrow>
      found = page (catalog_scope q) (sort_key order_columns
        (filter (\<lambda>r. list_all (passes holds (\<lambda>_. []) (catalog_cells r)) (catalog_scope q)) (rows d)))"
begin

lemma catalog_scope_holds:
  "list_all (passes holds (\<lambda>_. []) (catalog_cells r)) (catalog_scope q) \<longleftrightarrow> key_in_query q (row_key r)"
proof -
  have "holds (\<lambda>_. []) ''tenant_id = ? AND project_id = ? AND source_id = ?''
      [SvString (pq_tenant_id q), SvString (pq_project_id q), SvString (pq_source_id q)] (catalog_cells r) \<longleftrightarrow>
      ct_tenant_id r = pq_tenant_id q \<and> ct_project_id r = pq_project_id q \<and> ct_source_id r = pq_source_id q"
    using conjunction [of "[(''tenant_id'', ''=''), (''project_id'', ''=''), (''source_id'', ''='')]"
        "[SvString (pq_tenant_id q), SvString (pq_project_id q), SvString (pq_source_id q)]" "\<lambda>_. []" "catalog_cells r"]
    by (simp add: comparisons_ok_def conjunction_text_def comparison_text_def catalog_cells_def)
  moreover have "holds (\<lambda>_. []) ''property_scope = ?'' [SvString (pq_scope q)] (catalog_cells r) \<longleftrightarrow> ct_scope r = pq_scope q"
    using single [of "''property_scope''" "''=''" "SvString (pq_scope q)" "\<lambda>_. []" "catalog_cells r"] by (simp add: catalog_cells_def)
  ultimately show ?thesis
    by (simp add: catalog_scope_def passes_def key_in_query_def row_key_def)
qed

lemma finite_listing: "finite {k. seen d k \<noteq> None \<and> key_in_query q k}"
proof (rule finite_subset)
  show "{k. seen d k \<noteq> None \<and> key_in_query q k} \<subseteq> row_key ` set (rows d)" using represents by fastforce
qed simp

lemma listing:
  assumes "list_property_catalog_entries (Some db) q d = (Inr es, d')"
  shows "seen d' = seen d"
    and "map key_from_entry es = limited (pq_limit q) (sorted_list_of_set {k. seen d k \<noteq> None \<and> key_in_query q k})"
    and "e \<in> set es \<Longrightarrow> validate_catalog_entry e = None \<and>
      seen d (key_from_entry e) = Some (tm_ns (pe_first_seen_at e), tm_ns (pe_last_seen_at e))"
proof -
  from assms obtain found where f: "cd_find db (catalog_scope q) d = (Inr found, d')" "entries_from_rows found = Inr es"
    by (auto simp: list_property_catalog_entries_def split: option.splits sum.splits prod.splits)
  from f(1) show "seen d' = seen d" by (rule find_keeps)
  let ?in = "filter (\<lambda>r. key_in_query q (row_key r)) (rows d)"
  have found: "found = limited (pq_limit q) (sort_key order_columns ?in)"
    using find [OF f(1)] by (simp add: page_catalog_scope catalog_scope_holds)
  note es = entries_from_rows_Inr [OF f(2)]
  have keys: "row_key ` set ?in = {k. seen d k \<noteq> None \<and> key_in_query q k}"
  proof (rule set_eqI)
    fix k
    have "(\<exists>a b. seen d k = Some (a, b)) \<longleftrightarrow> (\<exists>r \<in> set (rows d). row_key r = k)" by (auto simp: represents)
    then show "k \<in> row_key ` set ?in \<longleftrightarrow> k \<in> {k. seen d k \<noteq> None \<and> key_in_query q k}" by (auto simp: image_iff)
  qed
  have "map row_key (sort_key order_columns ?in) = sorted_list_of_set (row_key ` set ?in)"
    using one_row [of d] by (intro listing_order) (auto simp: distinct_map inj_on_def)
  then show "map key_from_entry es = limited (pq_limit q) (sorted_list_of_set {k. seen d k \<noteq> None \<and> key_in_query q k})"
    using entries_keys [OF es] keys by (simp add: found map_limited)
  assume "e \<in> set es"
  from entries_come_from [OF f(2) this] obtain r where r: "r \<in> set found" "entry_from_row r = Inr e" by blast
  then have "r \<in> set (rows d)" using set_limited [of "pq_limit q" "sort_key order_columns ?in"] by (auto simp: found)
  then have "seen d (row_key r) = Some (tm_ns (ct_first_seen_at r), tm_ns (ct_last_seen_at r))"
    unfolding represents by blast
  with entry_from_row_Inr [OF r(2)] show "validate_catalog_entry e = None \<and>
      seen d (key_from_entry e) = Some (tm_ns (pe_first_seen_at e), tm_ns (pe_last_seen_at e))"
    by simp
qed

end

section \<open>A catalog in memory\<close>

text \<open>
  Times are kept to the millisecond, rounded to the nearest; statements fail by a script as in the status
  tables. Only the statement of this file is understood.
\<close>

record catalog_state =
  ca_seen :: "(property_catalog_key \<times> int \<times> int) list"
  ca_faults :: "fault list"

definition to_millis :: "int \<Rightarrow> int" where "to_millis n = (n + 500000) div 1000000 * 1000000"

definition seen_of :: "catalog_state \<Rightarrow> seen_map" where "seen_of d = map_of (ca_seen d)"

definition put_seen :: "catalog_row \<Rightarrow> catalog_state \<Rightarrow> catalog_state" where
  "put_seen r d =
     d\<lparr>ca_seen := AList.update (row_key r)
        (widen (to_millis (tm_ns (ct_first_seen_at r)), to_millis (tm_ns (ct_last_seen_at r))) (map_of (ca_seen d) (row_key r))) (ca_seen d)\<rparr>"

definition kept_row :: "property_catalog_key \<times> int \<times> int \<Rightarrow> catalog_row" where
  "kept_row = (\<lambda>(k, a, b).
     \<lparr>ct_tenant_id = ck_tenant_id k, ct_project_id = ck_project_id k, ct_source_id = ck_source_id k, ct_scope = ck_scope k,
      ct_name = ck_name k, ct_value_type = ck_value_type k, ct_first_seen_at = utc_at a, ct_last_seen_at = utc_at b,
      ct_created_at = zero_time, ct_updated_at = zero_time\<rparr>)"

definition rows_of_state :: "catalog_state \<Rightarrow> catalog_row list" where
  "rows_of_state d = map kept_row (AList.clearjunk (ca_seen d))"

definition next_fault :: "catalog_state \<Rightarrow> fault \<times> catalog_state" where
  "next_fault d = ((case ca_faults d of [] \<Rightarrow> Works | f # _ \<Rightarrow> f), d\<lparr>ca_faults := tl (ca_faults d)\<rparr>)"

definition catalog_ref :: "catalog_state catalog_db" where
  "catalog_ref =
     \<lparr>cd_upsert = (\<lambda>columns assignments rows d.
        if columns \<noteq> catalog_conflict_columns \<or> assignments \<noteq> catalog_assignments then (Some (ErrExternal ''unsupported''), d)
        else case next_fault d of
          (Works, d1) \<Rightarrow> (None, fold put_seen rows d1)
        | (LosesRequest, d1) \<Rightarrow> (Some connection_lost, d1)
        | (LosesReply, d1) \<Rightarrow> (Some connection_lost, fold put_seen rows d1)),
      cd_find = (\<lambda>calls d. case next_fault d of
          (Works, d1) \<Rightarrow> (Inr (page calls (sort_key order_columns
             (filter (\<lambda>r. list_all (passes sql_eval (\<lambda>_. []) (catalog_cells r)) calls) (rows_of_state d)))), d1)
        | (_, d1) \<Rightarrow> (Inl connection_lost, d1))\<rparr>"

lemma seen_put: "seen_of (put_seen r d) = put_row to_millis r (seen_of d)"
  by (simp add: seen_of_def put_seen_def put_row_def update_conv')

lemma seen_puts: "seen_of (fold put_seen rs d) = fold (put_row to_millis) rs (seen_of d)"
  by (induction rs arbitrary: d) (simp_all add: seen_put)

lemma seen_fault: "next_fault d = (f, d1) \<Longrightarrow> seen_of d1 = seen_of d"
  by (auto simp: next_fault_def seen_of_def)

lemma kept_row_key [simp]: "row_key (kept_row (k, a, b)) = k"
  by (cases k) (simp add: kept_row_def row_key_def)

lemma kept_row_times [simp]:
  "tm_ns (ct_first_seen_at (kept_row (k, a, b))) = a" "tm_ns (ct_last_seen_at (kept_row (k, a, b))) = b"
  by (simp_all add: kept_row_def utc_at_def)

lemma mono_to_millis: "mono to_millis"
  by (intro monoI) (simp add: to_millis_def zdiv_mono1)

lemma catalog_ref_table: "catalog_table catalog_ref seen_of to_millis"
proof
  fix rows :: "catalog_row list" and d d' :: catalog_state and err
  show "seen_of d' = fold (put_row to_millis) rows (seen_of d)"
    if "cd_upsert catalog_ref catalog_conflict_columns catalog_assignments rows d = (None, d')"
    using that by (auto simp: catalog_ref_def seen_puts seen_fault split: prod.splits fault.splits)
  show "seen_of d' = seen_of d \<or> seen_of d' = fold (put_row to_millis) rows (seen_of d)"
    if "cd_upsert catalog_ref catalog_conflict_columns catalog_assignments rows d = (Some err, d')"
    using that by (auto simp: catalog_ref_def seen_puts seen_fault split: prod.splits fault.splits)
next
  fix calls d d' x
  assume "cd_find catalog_ref calls d = (x, d')"
  then show "seen_of d' = seen_of d"
    by (auto simp: catalog_ref_def seen_fault split: prod.splits fault.splits)
qed

interpretation catalog: catalog_reads catalog_ref seen_of to_millis sql_eval rows_of_state
proof (intro catalog_reads.intro catalog_ref_table evaluator.sql_where_axioms catalog_reads_axioms.intro)
  fix d q found d'
  have "map row_key (rows_of_state d) = map fst (AList.clearjunk (ca_seen d))"
    by (simp add: rows_of_state_def comp_def split_beta flip: map_map) (auto simp: kept_row_key)
  then show "distinct (map row_key (rows_of_state d))" by (simp add: distinct_clearjunk)
  show "found = page (catalog_scope q) (sort_key order_columns
      (filter (\<lambda>r. list_all (passes sql_eval (\<lambda>_. []) (catalog_cells r)) (catalog_scope q)) (rows_of_state d)))"
    if "cd_find catalog_ref (catalog_scope q) d = (Inr found, d')"
    using that by (auto simp: catalog_ref_def split: prod.splits fault.splits)
next
  fix d k a b
  have "seen_of d k = Some (a, b) \<longleftrightarrow> (k, a, b) \<in> set (AList.clearjunk (ca_seen d))"
    using map_of_eq_Some_iff [OF distinct_clearjunk, of "ca_seen d" k "(a, b)"] by (simp add: seen_of_def map_of_clearjunk)
  then show "seen_of d k = Some (a, b) \<longleftrightarrow>
      (\<exists>r \<in> set (rows_of_state d). row_key r = k \<and> tm_ns (ct_first_seen_at r) = a \<and> tm_ns (ct_last_seen_at r) = b)"
    by (auto simp: rows_of_state_def intro!: bexI [of _ "(k, a, b)"])
qed

section \<open>Properties\<close>




definition ingest_event :: event_envelope where
  "ingest_event = sample_event\<lparr>env_event_time := utc_at 1234567890, env_properties := Some [(''plan'', VString ''pro'')]\<rparr>"

definition ingest_dp :: "(status_row table_state, catalog_state) deployment" where
  "ingest_dp =
     \<lparr>dp_db = table_db, dp_env = dp_env sample_dp, dp_upsert = upsert_property_catalog_entries (Some catalog_ref),
      dp_sha = (\<lambda>_. 0), dp_enc = (\<lambda>_. Inr ''{}''), dp_pf = (\<lambda>_. None), dp_visit = (\<lambda>ks. ks), dp_prefix = ''events''\<rparr>"

definition ingest_world :: "(status_row table_state, catalog_state) store_world" where
  "ingest_world =
     \<lparr>sw_events = empty_table [], sw_props = empty_table [], sw_catalog = \<lparr>ca_seen = [], ca_faults = []\<rparr>, sw_log = []\<rparr>"

definition ingest_query :: property_catalog_query where
  "ingest_query = \<lparr>pq_tenant_id = ''t'', pq_project_id = ''p'', pq_source_id = ''s'', pq_scope = [], pq_limit = 0\<rparr>"

definition ingested :: "(status_row table_state, catalog_state) store_world" where
  "ingested = snd (store_cataloged ingest_dp ingest_event ingest_world)"

definition ingest_key :: property_catalog_key where
  "ingest_key = CatalogKey ''t'' ''p'' ''s'' ''event'' ''plan'' ''string''"

definition ingest_catalog :: catalog_state where
  "ingest_catalog = \<lparr>ca_seen = [(ingest_key, 1235000000, 1235000000)], ca_faults = []\<rparr>"

lemma ingest_run:
  "map_prod id sw_catalog (store_cataloged ingest_dp ingest_event ingest_world) = (Inr True, ingest_catalog)"
  by code_simp

lemma ingest_accepted: "fst (store_cataloged ingest_dp ingest_event ingest_world) = Inr True"
  and ingested_catalog: "sw_catalog ingested = ingest_catalog"
  using ingest_run by (simp_all add: ingested_def map_prod_def split_beta)

definition ingest_records :: "event_property_record list" where
  "ingest_records = projr (flatten_event_properties (dp_pf ingest_dp) ingest_event)"

lemma ingest_flat:
  "flatten_event_properties (dp_pf ingest_dp) ingest_event = Inr ingest_records"
  "ingest_records \<noteq> []" "key_of_record (hd ingest_records) = ingest_key"
  "tm_ns (observed_at (hd ingest_records)) = 1234567890"
  by code_simp+

lemma ingest_upsert: "dp_upsert ingest_dp = upsert_property_catalog_entries (Some catalog_ref)"
  by (simp add: ingest_dp_def)


definition ingest_listing :: "property_catalog_entry list" where
  "ingest_listing = projr (fst (list_property_catalog_entries (Some catalog_ref) ingest_query (sw_catalog ingested)))"

lemma ingest_listed: "fst (list_property_catalog_entries (Some catalog_ref) ingest_query (sw_catalog ingested)) = Inr ingest_listing"
  unfolding ingested_catalog ingest_listing_def by code_simp



end
