(* ===== verification/Spec2Isabelle.thy ===== *)
theory Spec2Isabelle
  imports Kafka_Bus Kafka_Ingestion EventBus_Direct Redis_Stream Http_Api Storage_Rows MySQL_Catalog
begin

text \<open>
  A verification development for the Go module \<open>analytics-core\<close>: an event pipeline that accepts analytics events
  over HTTP, queues them, stores them in ClickHouse under idempotency checkpoints in MySQL, and reads them back.

  \<^bold>\<open>The program and its theories.\<close> Data flows from the first item to the last.

  \<^item> \<open>contracts\<close>, \<open>eventbus/eventbus.go\<close>: the envelope, queue message and consumer group, as records in
    \<^verbatim>\<open>Contracts\<close>. \<^verbatim>\<open>Go_Prelude\<close> is the fragment of Go used everywhere (byte strings, times, errors as the
    datatype \<open>go_error\<close>, formatting, trimming) with the shared lemmas.
  \<^item> \<open>collect\<close>: \<open>request.go\<close> and \<open>client.go\<close> in \<^verbatim>\<open>Collect_Request\<close> (\<open>normalize\<close> and its validators), \<open>stage.go\<close>,
    \<open>session.go\<close>, \<open>enrichment.go\<close>, \<open>traffic_filter.go\<close> in \<^verbatim>\<open>Collect_Stages\<close>, \<open>handler.go\<close> in \<^verbatim>\<open>Collect_Handler\<close>, and
    \<open>httpapi/fiber.go\<close> in \<^verbatim>\<open>Http_Api\<close>. A handler's world is an argument, so it publishes to any bus.
  \<^item> \<open>eventbus/kafka\<close>: \<open>options.go\<close> in \<^verbatim>\<open>Kafka_Options\<close>, \<open>ordered_commit.go\<close> in \<^verbatim>\<open>Kafka_Commit\<close>, \<open>completion_gate.go\<close> in
    \<^verbatim>\<open>Kafka_Gate\<close>, \<open>worker_pool.go\<close> in \<^verbatim>\<open>Kafka_Pool\<close>, \<open>protector.go\<close> in \<^verbatim>\<open>Kafka_Protector\<close>, and \<open>bus.go\<close> in three layers:
    one message with its retries and dead letters (\<^verbatim>\<open>Kafka_Process\<close>), claims and tasks on the state of a bus
    (\<^verbatim>\<open>Kafka_Consumer\<close>), and \<open>New\<close>, \<open>Subscribe\<close>, \<open>Close\<close>, \<open>Stats\<close> (\<^verbatim>\<open>Kafka_Bus\<close>). \<^verbatim>\<open>Kafka_Sessions\<close> is a bus over
    its whole life: several groups, rebalances, late tasks, crashes.
  \<^item> \<open>eventbus/direct\<close> in \<^verbatim>\<open>EventBus_Direct\<close>, \<open>eventbus/redisstream\<close> in \<^verbatim>\<open>Redis_Stream\<close>.
  \<^item> \<open>ingestion/processor.go\<close> in \<^verbatim>\<open>Ingestion\<close>.
  \<^item> \<open>storage\<close>: \<open>property.go\<close> in \<^verbatim>\<open>Storage_Property\<close>, \<open>property_catalog.go\<close> in \<^verbatim>\<open>Storage_Catalog\<close>, the writer interfaces
    and the two decorators in \<^verbatim>\<open>Storage_Writers\<close>, \<open>event_query.go\<close> in \<^verbatim>\<open>Event_Query\<close>.
  \<^item> \<open>storage/mysql\<close>: both status guards in \<^verbatim>\<open>MySQL_Guards\<close>, the property catalog in \<^verbatim>\<open>MySQL_Catalog\<close>.
  \<^item> \<open>storage/clickhouse\<close>: routing and DDL in \<^verbatim>\<open>ClickHouse_Schema\<close>, both batch writers in \<^verbatim>\<open>ClickHouse_Writers\<close>, the query
    builder in \<^verbatim>\<open>Query_Builder\<close>, the reader in \<^verbatim>\<open>Event_Reader\<close>.

  \<^bold>\<open>Interfaces.\<close> Where a component relies on another the contract is a locale, and the model of the provider
  interprets it: \<open>collect_stage\<close> and \<open>stage_chain\<close> (what the handler relies on; every stage the package can build),
  \<open>event_writer\<close>, \<open>write_guard_contract\<close>, \<open>indexed_writer\<close>, \<open>cataloged_writer\<close>, \<open>guarded_batch_writer\<close> (idempotent
  storage; the batch writer, the guards and the decorators, composed in \<^verbatim>\<open>Storage_Pipeline\<close>), \<open>status_table\<close>,
  \<open>catalog_table\<close>, \<open>catalog_reads\<close> and \<open>sql_where\<close> (the SQL of the adapters; executable tables and an evaluator).

  \<^bold>\<open>What the lemmas show.\<close>

  \<^item> Collect: accepted requests are exactly the admissible ones and become well-formed envelopes; stages keep them
    so; the HTTP status tells what happened; forwarded headers and addresses do not leak.
  \<^item> Kafka: the ordered committer refines "mark the longest prefix of completed offsets"; a message completes
    exactly when it was handled or dead-lettered, within the configured attempts; over all interleavings and
    rebalances of one group no message below a committed position is lost. Two groups on one bus break this, by
    a computed run. The pool keeps its bounds and counts in every interleaving of its atomic steps.
  \<^item> Storage: what one write leaves on every branch, at most one insertion per event, acknowledged means stored,
    and where the guards give less than their comments say (a lost commit, a late rollback). Rows match columns.
    Catalog entries are condensed, upserted and listed exactly.
  \<^item> Reading: \<^verbatim>\<open>Query_Plans\<close> states which queries are accepted, the plan of each, and that caller text is only ever
    bound; \<^verbatim>\<open>Query_Semantics\<close> that the predicates select the rows the query asks for; \<^verbatim>\<open>Event_Reader\<close> that the
    results are those events.
  \<^item> End to end: \<^verbatim>\<open>Kafka_Ingestion\<close> runs the ingestion processor on the Kafka bus into the storage stack, and this
    theory continues the chain to the HTTP request.

  \<^bold>\<open>Bounds and fuel.\<close> Offsets and counters are words of their Go width; a claim is followed for fewer than
  \<open>2 ^ 64\<close> offsets, the range of the type. \<open>deadLetterUntilDone\<close> retries without limit and takes fuel: when the
  topic refuses at most \<open>k\<close> writes, \<open>k + 1\<close> turns are enough (\<open>process_message_returns\<close>). The Redis subscription loop
  takes fuel, one unit per turn, and what is shown of it holds of every number of turns. Kafka's \<open>Subscribe\<close> is a partial function, and \<open>subscribe_returns\<close> says
  when it returns. All other recursions terminate by structure or a measure. A worker's task is one step of the
  bus: it touches the shared committer only in the atomic \<open>Complete\<close> at its end, and counters by additions. Queue
  usage ratios are exact rationals where the code has \<open>float64\<close>.

  \<^bold>\<open>Arguments of the model.\<close> Code outside the module is a parameter: the JSON codec, SHA-256, \<open>netip\<close>,
  \<open>strconv.ParseFloat\<close>, the Unicode path of \<open>strings.ToLower\<close>, clocks, Fiber's path matching, Sarama, the Redis
  client, GORM with MySQL, the ClickHouse driver. Hypotheses on them are named: a statement that reports an error
  may or may not have been executed, key columns compare bytewise, bound times lie on whole seconds, the
  catalog rounds times by \<open>store\<close>, the codec keeps the identity of an event.

  \<^bold>\<open>Not modelled.\<close> The \<open>doc.go\<close> files hold no code. Contexts appear as what a \<open>select\<close> on them answers. Fiber's own
  request handling, GORM's rendering of SQL, and Sarama's group protocol belong to those libraries. Handlers run
  by the direct bus may do anything a function on the world can; Go's memory model below atomics and mutexes
  is not represented.
\<close>

section \<open>From the request to the event table\<close>

text \<open>
  C1. What the collect endpoint accepts reaches storage. When the HTTP handler answers 202 without the filtered
  flag over a Kafka bus, a well-formed envelope with the reported id was accepted by the primary topic, and
  wherever the broker has put that record: as soon as an ingestion worker has committed a position behind it, its
  event is committed in the status table, or a dead letter that names the record is on the dead-letter topic.
  The JSON codec is only asked to keep the four parts of an event's identity.
\<close>

theorem accepted_requests_reach_storage:
  assumes "\<forall>s \<in> set (ch_stages h). built_stage ni s" and "ch_publish h = publish env opts"
    and "collect_http pf ni decode fmt cfg (Some h) req w = ((202, AcceptedResponse i ts False), w')"
    and "\<forall>e payload. wf_envelope pf e \<longrightarrow> ke_encode env e = Inr payload \<longrightarrow>
      (\<exists>e'. wk_decode wk payload = (e', None) \<and> status_key_of e' = status_key_of e)"
    and "log_addresses lg" and "status_table (dp_db dp) rows" and "ip_store (wk_processor wk) = store_cataloged dp"
  shows "\<exists>e payload. wf_envelope pf e \<and> env_id e = i \<and> ke_encode env e = Inr payload \<and>
    SentRecord (ko_topic opts) (event_key e) payload None \<in> set w' \<and>
    (\<forall>t p first st0 phase pos b st dead j.
       worker_life wk lg grp copts t p first st0 (phase, pos, b) (st, dead) \<longrightarrow> j < pos \<longrightarrow>
       km_payload (lg t p (offset_at first j)) = payload \<longrightarrow>
       event_durable rows st (status_key_of e) \<or>
       (\<exists>dl \<in> set dead. \<exists>r. wk_encode_dead wk r = Inr dl \<and> carries (wk_decode wk) grp (lg t p (offset_at first j)) r))"
proof -
  from http_accepted [OF assms(1,3)] obtain e where e: "wf_envelope pf e" "env_id e = i"
    and pub: "ch_publish h e (snd (ch_now h w)) = (None, w')" by blast
  from publish_accepted [OF pub [unfolded assms(2)]] obtain payload where payload: "ke_encode env e = Inr payload"
    and sent: "SentRecord (ko_topic opts) (event_key e) payload None \<in> set w'" by blast
  from assms(4) e(1) payload obtain e' where dec: "wk_decode wk payload = (e', None)" "status_key_of e' = status_key_of e" by blast
  have "event_durable rows st (status_key_of e) \<or>
       (\<exists>dl \<in> set dead. \<exists>r. wk_encode_dead wk r = Inr dl \<and> carries (wk_decode wk) grp (lg t p (offset_at first j)) r)"
    if life: "worker_life wk lg grp copts t p first st0 (phase, pos, b) (st, dead)" and j: "j < pos"
      and m: "km_payload (lg t p (offset_at first j)) = payload" for t p first st0 phase pos b st dead j
    using consumed_settled [OF life assms(5) j assms(6,7)] dec by (auto simp: settled_def m)
  with e payload sent show ?thesis by blast
qed

text \<open>A codec that knows the sample event only, and a broker that accepts everything.\<close>

definition gateway_env :: kafka_env where
  "gateway_env =
     serving_env\<lparr>ke_send := (\<lambda>h topic key payload. None),
       ke_encode := (\<lambda>e. if status_key_of e = status_key_of sample_event then Inr ''{}'' else Inl ErrCanceled)\<rparr>"

definition sample_gateway :: "history collect_handler" where
  "sample_gateway =
     \<lparr>ch_publish = publish gateway_env sample_normalized, ch_now = (\<lambda>h. (sample_time, h)), ch_stages = []\<rparr>"

definition gateway_request :: request where
  "gateway_request = sample_request\<lparr>rq_id := ''e1'', rq_tenant_id := ''t'', rq_project_id := ''p'', rq_source_id := ''s''\<rparr>"

lemma gateway_accepts:
  "\<exists>w'. collect_http (\<lambda>_. None) sample_netip (\<lambda>_. Some gateway_request) (\<lambda>t. []) (new_collect_config [])
     (Some sample_gateway) sample_http [] = ((202, AcceptedResponse ''e1'' [] False), w')"
proof -
  have "fst (collect_http (\<lambda>_. None) sample_netip (\<lambda>_. Some gateway_request) (\<lambda>t. []) (new_collect_config [])
     (Some sample_gateway) sample_http []) = (202, AcceptedResponse ''e1'' [] False)"
    by code_simp
  then show ?thesis by (metis prod.collapse)
qed

theorem accepted_requests_reach_storage_witness:
  "event_durable tb_rows (snd (store_cataloged sample_dp sample_event (sample_world []))) (StatusKey ''t'' ''p'' ''s'' ''e1'')"
proof -
  from gateway_accepts obtain w' where http: "collect_http (\<lambda>_. None) sample_netip (\<lambda>_. Some gateway_request) (\<lambda>t. [])
      (new_collect_config []) (Some sample_gateway) sample_http [] = ((202, AcceptedResponse ''e1'' [] False), w')" by blast
  from serving_life obtain pos where pos: "0 < pos"
    and life: "worker_life serving_worker sample_log sample_group sample_normalized ''t'' 0 10 (sample_world [])
      (Open 1 0 1, pos, served_bus 2) (snd (store_cataloged sample_dp sample_event (sample_world [])), [])" by blast
  have shape: "\<forall>s \<in> set (ch_stages sample_gateway). built_stage sample_netip s"
      "ch_publish sample_gateway = publish gateway_env sample_normalized"
    by (simp_all add: sample_gateway_def)
  have codec: "\<forall>e payload. wf_envelope (\<lambda>_. None) e \<longrightarrow> ke_encode gateway_env e = Inr payload \<longrightarrow>
      (\<exists>e'. wk_decode serving_worker payload = (e', None) \<and> status_key_of e' = status_key_of e)"
    by (simp add: gateway_env_def)
  from accepted_requests_reach_storage [OF shape http codec sample_log_addresses sample_dp_table,
      where grp = sample_group and copts = sample_normalized]
  obtain e payload where e: "ke_encode gateway_env e = Inr payload"
    and all: "\<And>t p first st0 phase pos b st dead j.
       worker_life serving_worker sample_log sample_group sample_normalized t p first st0 (phase, pos, b) (st, dead) \<Longrightarrow> j < pos \<Longrightarrow>
       km_payload (sample_log t p (offset_at first j)) = payload \<Longrightarrow>
       event_durable tb_rows st (status_key_of e) \<or>
       (\<exists>dl \<in> set dead. \<exists>r. wk_encode_dead serving_worker r = Inr dl \<and>
          carries (wk_decode serving_worker) sample_group (sample_log t p (offset_at first j)) r)"
    by auto
  from e have "payload = ''{}''" and key: "status_key_of e = StatusKey ''t'' ''p'' ''s'' ''e1''"
    by (simp_all add: gateway_env_def status_key_of_def sample_event_def split: if_splits)
  with all [OF life pos] show ?thesis by (simp add: sample_log_def)
qed

end
